(* ===== verification/Prelude.thy ===== *)
theory Prelude
  imports
    Main
    "HOL-Library.Word"
    "HOL-Library.Multiset"
    "HOL-Library.Product_Lexorder"
    "HOL-Library.Sublist"
begin

text \<open>
  What every component of the model shares: the machine types of the Rust code, the bytes of
  fixed-width integers and of 32-byte keys, the ordered containers of the standard library
  (\<open>BTreeMap\<close> as an association list with ascending keys, \<open>BTreeSet\<close> as an ascending list), the
  saturating operations, and the string tests that the error classifiers are made of.

  A 32-byte array (\<open>Pubkey\<close>, \<open>Hash32\<close>, \<open>Hash\<close>) is a 256-bit word whose big-endian bytes are the
  array. The derived \<open>Ord\<close> of \<open>[u8; 32]\<close> is lexicographic, which is the order of those words.
  A \<open>usize\<close> that counts elements in memory is a \<open>nat\<close>; an integer whose width the code can
  exceed is a word.
\<close>

unbundle bit_operations_syntax

named_theorems inv_intros \<open>introduction rules of the components' invariants\<close>

section \<open>Machine types\<close>

type_synonym u8 = "8 word"
type_synonym u16 = "16 word"
type_synonym u32 = "32 word"
type_synonym u64 = "64 word"
type_synonym bytes = "u8 list"
type_synonym key32 = "256 word"
type_synonym pubkey = key32
type_synonym hash32 = key32

text \<open>\<open>saturating_add\<close> of an unsigned integer, and \<open>saturating_sub\<close>.\<close>

definition sat_add :: "'a::len word \<Rightarrow> 'a word \<Rightarrow> 'a word" where
  "sat_add a b = (if unat a + unat b < 2 ^ LENGTH('a) then a + b else - 1)"

definition sat_sub :: "'a::len word \<Rightarrow> 'a word \<Rightarrow> 'a word" where
  "sat_sub a b = (if b \<le> a then a - b else 0)"

definition sat_mul :: "'a::len word \<Rightarrow> 'a word \<Rightarrow> 'a word" where
  "sat_mul a b = (if unat a * unat b < 2 ^ LENGTH('a) then a * b else - 1)"

lemma unat_max_word: "unat (- 1 :: 'a::len word) = 2 ^ LENGTH('a) - 1"
  by (simp add: unat_eq_nat_uint uint_word_ariths zmod_minus1 nat_diff_distrib nat_power_eq)

lemma unat_sat_add:
  "unat (sat_add a b) = min (2 ^ LENGTH('a) - 1) (unat a + unat (b :: 'a::len word))"
proof -
  have "unat (- 1 :: 'a word) = 2 ^ LENGTH('a) - 1"
    by (rule unat_max_word)
  then show ?thesis
    by (auto simp: sat_add_def unat_word_ariths min_def)
qed

lemma unat_sat_sub: "unat (sat_sub a b) = unat a - unat b"
  by (auto simp: sat_sub_def unat_sub word_le_nat_alt)

lemma unat_sat_mul:
  "unat (sat_mul a b) = min (2 ^ LENGTH('a) - 1) (unat a * unat (b :: 'a::len word))"
proof -
  have "unat (- 1 :: 'a word) = 2 ^ LENGTH('a) - 1"
    by (rule unat_max_word)
  then show ?thesis
    by (auto simp: sat_mul_def unat_word_ariths min_def)
qed

section \<open>Bytes\<close>

text \<open>\<open>to_le_bytes\<close> of a k-byte integer, and the byte array of a key (most significant first).\<close>

definition le_bytes :: "nat \<Rightarrow> 'a::len word \<Rightarrow> bytes" where
  "le_bytes k w = map (\<lambda>i. ucast (drop_bit (8 * i) w)) [0..<k]"

definition key_bytes :: "key32 \<Rightarrow> bytes" where
  "key_bytes w = rev (le_bytes 32 w)"

lemma length_le_bytes [simp]: "length (le_bytes k w) = k"
  by (simp add: le_bytes_def)

lemma length_key_bytes [simp]: "length (key_bytes w) = 32"
  by (simp add: key_bytes_def)

lemma le_bytes_bit:
  assumes "i < k" and "j < 8"
  shows "bit (le_bytes k w ! i) j \<longleftrightarrow> bit w (8 * i + j)"
  using assms by (simp add: le_bytes_def bit_ucast_iff bit_drop_bit_eq)

lemma le_bytes_inject:
  assumes "le_bytes k v = le_bytes k (w :: 'a::len word)" and "LENGTH('a) \<le> 8 * k"
  shows "v = w"
proof (rule bit_word_eqI)
  fix n assume "n < LENGTH('a)"
  then have i: "n div 8 < k" and j: "n mod 8 < 8" and n: "8 * (n div 8) + n mod 8 = n"
    using assms(2) by auto
  have "bit (le_bytes k v ! (n div 8)) (n mod 8) = bit (le_bytes k w ! (n div 8)) (n mod 8)"
    by (simp only: assms(1))
  then show "bit v n \<longleftrightarrow> bit w n"
    by (simp add: le_bytes_bit [OF i j] n)
qed

lemma le_bytes_eq_iff [simp]:
  "LENGTH('a) \<le> 8 * k \<Longrightarrow> le_bytes k v = le_bytes k (w :: 'a::len word) \<longleftrightarrow> v = w"
  using le_bytes_inject by blast

lemma key_bytes_eq_iff [simp]: "key_bytes v = key_bytes w \<longleftrightarrow> v = w"
  by (simp add: key_bytes_def)

lemma inj_key_bytes: "inj key_bytes"
  by (simp add: inj_def)

text \<open>A byte string literal \<open>b"..."\<close>, and \<open>as u8\<close> of an ASCII character.\<close>

definition ascii_bytes :: "string \<Rightarrow> bytes" where
  "ascii_bytes s = map (\<lambda>c. word_of_nat (of_char c)) s"

lemma length_ascii_bytes [simp]: "length (ascii_bytes s) = length s"
  by (simp add: ascii_bytes_def)

text \<open>Fixed-width fields in front of a message can be read off one by one.\<close>

lemma append_fixed_eq:
  "length xs = length ys \<Longrightarrow> xs @ us = ys @ vs \<longleftrightarrow> xs = ys \<and> us = vs"
  by simp

lemma concat_key_bytes_inject:
  "length xs = length ys \<Longrightarrow> concat (map key_bytes xs) = concat (map key_bytes ys) \<longleftrightarrow> xs = ys"
  by (induction xs ys rule: list_induct2) simp_all

lemma length_concat_key_bytes [simp]: "length (concat (map key_bytes xs)) = 32 * length xs"
  by (induction xs) simp_all

lemma concat_key_bytes_eq_iff:
  "concat (map key_bytes xs) = concat (map key_bytes ys) \<longleftrightarrow> xs = ys"
proof
  assume eq: "concat (map key_bytes xs) = concat (map key_bytes ys)"
  from eq have "32 * length xs = 32 * length ys"
    by (metis length_concat_key_bytes)
  with eq show "xs = ys"
    by (simp add: concat_key_bytes_inject)
qed simp

section \<open>The ordered containers of the standard library\<close>

text \<open>
  A \<open>BTreeMap\<close> is an association list with strictly ascending keys; \<open>btm_entry f d k m\<close> is
  \<open>m.entry(k).and_modify(f).or_insert(d)\<close>, and iteration is in list order.
\<close>

fun btm_entry :: "('v \<Rightarrow> 'v) \<Rightarrow> 'v \<Rightarrow> 'k::linorder \<Rightarrow> ('k \<times> 'v) list \<Rightarrow> ('k \<times> 'v) list" where
  "btm_entry f d k [] = [(k, d)]"
| "btm_entry f d k ((k', v) # m) =
     (if k < k' then (k, d) # (k', v) # m
      else if k = k' then (k', f v) # m
      else (k', v) # btm_entry f d k m)"

abbreviation btm_keys :: "('k \<times> 'v) list \<Rightarrow> 'k list" where
  "btm_keys m \<equiv> map fst m"

lemma set_btm_entry [simp]: "set (btm_keys (btm_entry f d k m)) = insert k (set (btm_keys m))"
proof (induction m)
  case (Cons kv m)
  then show ?case by (cases kv) (simp add: insert_commute)
qed simp

lemma sorted_btm_entry:
  "sorted_wrt (<) (btm_keys m) \<Longrightarrow> sorted_wrt (<) (btm_keys (btm_entry f d k m))"
proof (induction m)
  case (Cons kv m)
  obtain k' v where kv: "kv = (k', v)" by (cases kv)
  have "\<forall>x \<in> set (btm_keys (btm_entry f d k m)). k' < x" if "k' < k"
    using Cons.prems that by (auto simp: kv simp del: set_map)
  with Cons show ?case
    by (auto simp: kv simp del: set_map)
qed simp

lemma map_of_btm_entry:
  "sorted_wrt (<) (btm_keys m) \<Longrightarrow>
   map_of (btm_entry f d k m) = (map_of m)(k \<mapsto> (case map_of m k of None \<Rightarrow> d | Some v \<Rightarrow> f v))"
proof (induction m)
  case (Cons kv m)
  obtain k' v where kv: "kv = (k', v)" by (cases kv)
  have "map_of m k = None" if "k < k'"
    using Cons.prems that by (force simp: kv map_of_eq_None_iff)
  with Cons show ?case
    by (auto simp: kv fun_eq_iff)
qed simp

text \<open>
  A \<open>BTreeSet\<close> is a strictly ascending list; \<open>insert\<close> is the library's \<open>insort_insert\<close>.
\<close>

definition bts_extend :: "'a::linorder list \<Rightarrow> 'a list \<Rightarrow> 'a list" where
  "bts_extend s xs = fold insort_insert xs s"

lemma bts_extend_simps [simp]:
  "bts_extend s [] = s"
  "bts_extend s (x # xs) = bts_extend (insort_insert x s) xs"
  by (simp_all add: bts_extend_def)

lemma bts_extend_append [simp]: "bts_extend s (xs @ ys) = bts_extend (bts_extend s xs) ys"
  by (simp add: bts_extend_def)

lemma set_bts_extend [simp]: "set (bts_extend s xs) = set s \<union> set xs"
  by (induction xs arbitrary: s) (auto simp: set_insort_insert)

lemma sorted_distinct_bts_extend:
  "sorted s \<Longrightarrow> distinct s \<Longrightarrow> sorted (bts_extend s xs) \<and> distinct (bts_extend s xs)"
  by (induction xs arbitrary: s) (auto simp: sorted_insort_insert distinct_insort_insert)

lemma bts_extend_eq_sorted_list_of_set:
  assumes "sorted s" and "distinct s"
  shows "bts_extend s xs = sorted_list_of_set (set s \<union> set xs)"
proof -
  have "sorted (bts_extend s xs)" and "distinct (bts_extend s xs)"
    using sorted_distinct_bts_extend [OF assms] by blast+
  then have "sorted_list_of_set (set (bts_extend s xs)) = bts_extend s xs"
    by (rule sorted_list_of_set.idem_if_sorted_distinct)
  then show ?thesis by simp
qed

text \<open>Saturating arithmetic of a \<open>usize\<close> or \<open>u64\<close> count that is a \<open>nat\<close> here.\<close>

definition usize_max :: nat where
  "usize_max = 2 ^ 64 - 1"

definition sat_plus :: "nat \<Rightarrow> nat \<Rightarrow> nat" where
  "sat_plus a b = min (a + b) usize_max"

definition sat_times :: "nat \<Rightarrow> nat \<Rightarrow> nat" where
  "sat_times a b = min (a * b) usize_max"

section \<open>Strings\<close>

text \<open>\<open>to_ascii_lowercase\<close> and \<open>contains\<close> of \<open>str\<close>.\<close>

definition ascii_lower :: "char \<Rightarrow> char" where
  "ascii_lower c =
     (if 65 \<le> (of_char c :: nat) \<and> (of_char c :: nat) \<le> 90 then char_of ((of_char c :: nat) + 32) else c)"

definition to_ascii_lowercase :: "string \<Rightarrow> string" where
  "to_ascii_lowercase s = map ascii_lower s"

fun contains_str :: "string \<Rightarrow> string \<Rightarrow> bool" where
  "contains_str [] p = (p = [])"
| "contains_str (c # s) p = (prefix p (c # s) \<or> contains_str s p)"

lemma contains_str_iff_sublist: "contains_str s p \<longleftrightarrow> sublist p s"
  by (induction s) (auto simp: sublist_Cons_right)

lemma to_ascii_lowercase_idem: "to_ascii_lowercase (to_ascii_lowercase s) = to_ascii_lowercase s"
proof -
  have "ascii_lower (ascii_lower c) = ascii_lower c" for c
    by (auto simp: ascii_lower_def)
  then show ?thesis by (simp add: to_ascii_lowercase_def)
qed

section \<open>Lists\<close>

text \<open>A stable sort depends only on the multiset when the key tells the elements apart.\<close>

lemma sort_key_mset_cong:
  assumes "mset xs = mset ys" and "inj_on f (set xs)"
  shows "sort_key f xs = sort_key f ys"
proof -
  have "map f (sort_key f xs) = map f (sort_key f ys)"
  proof -
    have "mset (map f (sort_key f xs)) = mset (map f (sort_key f ys))"
      using assms(1) by (simp only: mset_map mset_sort)
    moreover have "sorted (map f (sort_key f xs))" "sorted (map f (sort_key f ys))"
      by simp_all
    ultimately show ?thesis
      by (metis properties_for_sort)
  qed
  moreover have "set xs = set ys"
    using assms(1) by (metis set_mset_mset)
  ultimately show ?thesis
    using assms(2) by (simp add: inj_on_map_eq_map)
qed

lemma sort_key_eq_imp_mset: "sort_key f xs = sort_key f ys \<Longrightarrow> mset xs = mset ys"
  by (metis mset_sort)

lemma sort_key_idem [simp]: "sort_key f (sort_key f xs) = sort_key f xs"
  by (simp add: sort_key_id_if_sorted)

text \<open>The position order of a list: x occurs somewhere before y.\<close>

definition before_in :: "'a list \<Rightarrow> 'a \<Rightarrow> 'a \<Rightarrow> bool" where
  "before_in xs x y \<longleftrightarrow> (\<exists>i j. i < j \<and> j < length xs \<and> xs ! i = x \<and> xs ! j = y)"

lemma before_in_Nil [simp]: "\<not> before_in [] x y"
  by (simp add: before_in_def)

lemma before_in_Cons:
  "before_in (a # xs) x y \<longleftrightarrow> (x = a \<and> y \<in> set xs) \<or> before_in xs x y"
proof
  assume "before_in (a # xs) x y"
  then obtain i j where ij: "i < j" "j < length (a # xs)" "(a # xs) ! i = x" "(a # xs) ! j = y"
    unfolding before_in_def by blast
  from ij(1) obtain j' where j: "j = Suc j'" by (cases j) auto
  show "(x = a \<and> y \<in> set xs) \<or> before_in xs x y"
    using ij j by (cases i) (auto simp: before_in_def)
next
  assume "(x = a \<and> y \<in> set xs) \<or> before_in xs x y"
  then show "before_in (a # xs) x y"
  proof
    assume "x = a \<and> y \<in> set xs"
    then obtain j where "j < length xs" "xs ! j = y" and "x = a"
      by (auto simp: in_set_conv_nth)
    then show ?thesis
      unfolding before_in_def by (intro exI [of _ 0] exI [of _ "Suc j"]) simp
  next
    assume "before_in xs x y"
    then obtain i j where "i < j" "j < length xs" "xs ! i = x" "xs ! j = y"
      unfolding before_in_def by blast
    then show ?thesis
      unfolding before_in_def by (intro exI [of _ "Suc i"] exI [of _ "Suc j"]) simp
  qed
qed

lemma before_in_append:
  "before_in (xs @ ys) x y \<longleftrightarrow> before_in xs x y \<or> (x \<in> set xs \<and> y \<in> set ys) \<or> before_in ys x y"
  by (induction xs) (auto simp: before_in_Cons)

lemma before_in_set: "before_in xs x y \<Longrightarrow> x \<in> set xs \<and> y \<in> set xs"
  by (auto simp: before_in_def)

end
