(* ===== verification/Hashing.thy ===== *)
theory Hashing
  imports Prelude
begin

text \<open>
  The hash helpers of crates/types/src/hash.rs and the Merkle tree of crates/types/src/merkle.rs.

  BLAKE3 is a third-party function: it is the parameter \<open>H\<close>, from the bytes streamed into the
  hasher to 32 bytes. No property of \<open>H\<close> is assumed here. A statement that needs the absence of
  collisions says so on the finite set of byte strings that the two computations really hash
  (\<open>inj_on H\<close> of that set), because no function from all byte strings to 32 bytes is injective.
\<close>

section \<open>hash.rs\<close>

definition ZERO32 :: hash32 where
  "ZERO32 = 0"

definition blake3_hash :: "(bytes \<Rightarrow> hash32) \<Rightarrow> bytes \<Rightarrow> hash32" where
  "blake3_hash H bs = H bs"

definition blake3_concat :: "(bytes \<Rightarrow> hash32) \<Rightarrow> bytes list \<Rightarrow> hash32" where
  "blake3_concat H parts = H (concat parts)"

definition dhash :: "(bytes \<Rightarrow> hash32) \<Rightarrow> bytes \<Rightarrow> bytes list \<Rightarrow> hash32" where
  "dhash H tag payloads = H (tag @ concat payloads)"

section \<open>merkle.rs\<close>

text \<open>
  One round of the loop: duplicate the last leaf of an odd layer, then hash the pairs
  (\<open>chunks_exact(2)\<close> drops an incomplete pair, which the padding rules out).
\<close>

definition merkle_pad :: "hash32 list \<Rightarrow> hash32 list" where
  "merkle_pad leaves = (if length leaves mod 2 = 1 then leaves @ [last leaves] else leaves)"

fun merkle_pairs :: "(bytes \<Rightarrow> hash32) \<Rightarrow> hash32 list \<Rightarrow> hash32 list" where
  "merkle_pairs H (a # b # rest) = blake3_concat H [key_bytes a, key_bytes b] # merkle_pairs H rest"
| "merkle_pairs H _ = []"

lemma length_merkle_pairs [simp]: "length (merkle_pairs H xs) = length xs div 2"
  by (induction H xs rule: merkle_pairs.induct) auto

lemma length_merkle_pad [simp]: "length (merkle_pad xs) = length xs + length xs mod 2"
  by (auto simp: merkle_pad_def mod_2_eq_odd)

lemma half_padded [simp]: "(n + n mod 2) div 2 = (n + 1) div (2 :: nat)"
  by presburger

lemma merkle_round_nonempty:
  assumes "leaves \<noteq> []"
  shows "merkle_pairs H (merkle_pad leaves) \<noteq> []"
proof -
  have "length (merkle_pairs H (merkle_pad leaves)) > 0" using assms by (cases leaves) auto
  then show ?thesis by (rule length_greater_0_conv [THEN iffD1])
qed

lemma length_merkle_round: "length (merkle_pairs H (merkle_pad xs)) = (length xs + 1) div 2"
  by simp

function merkle_loop :: "(bytes \<Rightarrow> hash32) \<Rightarrow> hash32 list \<Rightarrow> hash32 list" where
  "merkle_loop H leaves =
     (if length leaves > 1 then merkle_loop H (merkle_pairs H (merkle_pad leaves)) else leaves)"
  by pat_completeness auto
termination
  by (relation "measure (\<lambda>(H, leaves). length leaves)") auto

declare merkle_loop.simps [simp del]

definition merkle_root :: "(bytes \<Rightarrow> hash32) \<Rightarrow> hash32 list \<Rightarrow> hash32" where
  "merkle_root H leaves = (if leaves = [] then ZERO32 else merkle_loop H leaves ! 0)"

text \<open>The loop stops with one node, so \<open>leaves[0]\<close> is in range.\<close>

lemma length_merkle_loop: "leaves \<noteq> [] \<Longrightarrow> length (merkle_loop H leaves) = 1"
proof (induction H leaves rule: merkle_loop.induct)
  case (1 H leaves)
  show ?case
  proof (cases "length leaves > 1")
    case True
    with "1.IH" [OF True merkle_round_nonempty [OF "1.prems"]] show ?thesis
      by (simp add: merkle_loop.simps [of H leaves])
  next
    case False
    then have "length leaves = 1"
      using "1.prems" by (simp add: le_Suc_eq not_less)
    then show ?thesis by (simp add: merkle_loop.simps [of H leaves])
  qed
qed

lemma merkle_root_singleton [simp]: "merkle_root H [x] = x"
  by (simp add: merkle_root_def merkle_loop.simps)

lemma merkle_root_step:
  assumes "length leaves > 1"
  shows "merkle_root H leaves = merkle_root H (merkle_pairs H (merkle_pad leaves))"
proof -
  have "leaves \<noteq> []" using assms by auto
  moreover from this have "merkle_pairs H (merkle_pad leaves) \<noteq> []" by (rule merkle_round_nonempty)
  moreover have "merkle_loop H leaves = merkle_loop H (merkle_pairs H (merkle_pad leaves))"
    using assms by (simp add: merkle_loop.simps [of H leaves])
  ultimately show ?thesis by (simp add: merkle_root_def)
qed

section \<open>The byte strings a root computation hashes\<close>

fun pair_queries :: "hash32 list \<Rightarrow> bytes list" where
  "pair_queries (a # b # rest) = (key_bytes a @ key_bytes b) # pair_queries rest"
| "pair_queries _ = []"

function merkle_queries :: "(bytes \<Rightarrow> hash32) \<Rightarrow> hash32 list \<Rightarrow> bytes list" where
  "merkle_queries H leaves =
     (if length leaves > 1
      then pair_queries (merkle_pad leaves) @ merkle_queries H (merkle_pairs H (merkle_pad leaves))
      else [])"
  by pat_completeness auto
termination
  by (relation "measure (\<lambda>(H, leaves). length leaves)") auto

declare merkle_queries.simps [simp del]

lemma merkle_pairs_queries: "merkle_pairs H xs = map H (pair_queries xs)"
  by (induction H xs rule: merkle_pairs.induct) (simp_all add: blake3_concat_def)

lemma length_pair_queries: "length (pair_queries xs) = length xs div 2"
  by (induction xs rule: pair_queries.induct) simp_all

lemma pair_queries_inject:
  "length xs = length ys \<Longrightarrow> even (length xs) \<Longrightarrow> pair_queries xs = pair_queries ys \<Longrightarrow> xs = ys"
proof (induction xs arbitrary: ys rule: pair_queries.induct)
  case (1 a b rest)
  then obtain c d rest' where ys: "ys = c # d # rest'"
    by (metis length_Suc_conv length_Cons)
  with 1 show ?case by simp
qed auto

lemma merkle_pad_inject: "length xs = length ys \<Longrightarrow> merkle_pad xs = merkle_pad ys \<Longrightarrow> xs = ys"
  by (simp add: merkle_pad_def split: if_splits)

lemma even_length_merkle_pad: "even (length (merkle_pad xs))"
  by simp

text \<open>
  Without a collision among the strings hashed for the two roots, equal roots of equally many
  leaves mean equal leaves.
\<close>

lemma merkle_root_inject:
  assumes "length xs = length ys"
    and "inj_on H (set (merkle_queries H xs) \<union> set (merkle_queries H ys))"
    and "merkle_root H xs = merkle_root H ys"
  shows "xs = ys"
  using assms
proof (induction H xs arbitrary: ys rule: merkle_loop.induct)
  case (1 H xs)
  show ?case
  proof (cases "length xs > 1")
    case True
    let ?xs = "merkle_pad xs" and ?ys = "merkle_pad ys"
    have len: "length ys > 1" using True "1.prems"(1) by simp
    have qx: "set (merkle_queries H xs) = set (pair_queries ?xs) \<union> set (merkle_queries H (merkle_pairs H ?xs))"
      using True by (simp add: merkle_queries.simps [of H xs])
    have qy: "set (merkle_queries H ys) = set (pair_queries ?ys) \<union> set (merkle_queries H (merkle_pairs H ?ys))"
      using len by (simp add: merkle_queries.simps [of H ys])
    have root: "merkle_root H (merkle_pairs H ?xs) = merkle_root H (merkle_pairs H ?ys)"
      using "1.prems"(3) by (simp add: merkle_root_step [OF True] merkle_root_step [OF len])
    have "merkle_pairs H ?xs = merkle_pairs H ?ys"
    proof (rule "1.IH" [OF True _ _ root])
      show "length (merkle_pairs H ?xs) = length (merkle_pairs H ?ys)"
        using "1.prems"(1) by (simp only: length_merkle_round)
      show "inj_on H (set (merkle_queries H (merkle_pairs H ?xs)) \<union> set (merkle_queries H (merkle_pairs H ?ys)))"
        by (rule inj_on_subset [OF "1.prems"(2)]) (auto simp: qx qy)
    qed
    then have "map H (pair_queries ?xs) = map H (pair_queries ?ys)"
      by (simp only: merkle_pairs_queries)
    moreover have "inj_on H (set (pair_queries ?xs) \<union> set (pair_queries ?ys))"
      by (rule inj_on_subset [OF "1.prems"(2)]) (auto simp: qx qy)
    ultimately have "pair_queries ?xs = pair_queries ?ys"
      by (simp only: inj_on_map_eq_map)
    moreover have "length ?xs = length ?ys"
      using "1.prems"(1) by (simp add: length_merkle_pad)
    ultimately have "?xs = ?ys"
      by (intro pair_queries_inject) (simp_all add: even_length_merkle_pad)
    with "1.prems"(1) show ?thesis by (rule merkle_pad_inject)
  next
    case False
    then consider "xs = []" | x where "xs = [x]"
      by (metis One_nat_def length_0_conv length_Suc_conv less_Suc_eq not_less_eq neq0_conv less_one linorder_neqE_nat)
    then show ?thesis
    proof cases
      case 2
      then obtain y where "ys = [y]" using "1.prems"(1) by (cases ys) auto
      with 2 "1.prems"(3) show ?thesis by simp
    qed (use "1.prems"(1) in simp)
  qed
qed

end
