(* ===== verification/Codec.thy ===== *)
theory Codec
  imports Prelude
begin

text \<open>
  Self-delimiting encodings, the interface the canonical identifiers of crates/types rely on: a
  code word put in front of any other bytes can be told apart from them. The laws are proved
  here once; each field of an encoding (key, flag byte, shortvec length, little-endian integer)
  interprets the locale, and an encoding that concatenates fields inherits injectivity.
\<close>

section \<open>Prefix codes\<close>

locale prefix_code =
  fixes enc :: "'a \<Rightarrow> bytes" and ok :: "'a \<Rightarrow> bool"
  assumes enc_split: "ok a \<Longrightarrow> ok b \<Longrightarrow> enc a @ r = enc b @ s \<Longrightarrow> a = b \<and> r = s"
begin

lemma enc_append_iff: "ok a \<Longrightarrow> ok b \<Longrightarrow> enc a @ r = enc b @ s \<longleftrightarrow> a = b \<and> r = s"
  using enc_split by blast

lemma enc_inject: "ok a \<Longrightarrow> ok b \<Longrightarrow> enc a = enc b \<longleftrightarrow> a = b"
  using enc_split [of a b "[]" "[]"] by auto

text \<open>Equally many code words in a row are read off one by one.\<close>

lemma enc_list_split:
  assumes "length xs = length ys" and "list_all ok xs" and "list_all ok ys"
    and "concat (map enc xs) @ r = concat (map enc ys) @ s"
  shows "xs = ys \<and> r = s"
  using assms by (induction xs ys rule: list_induct2) (auto dest: enc_split)

end

text \<open>An injective encoding of one width is a prefix code.\<close>

locale fixed_code =
  fixes enc :: "'a \<Rightarrow> bytes" and width :: nat
  assumes enc_width: "length (enc a) = width"
    and enc_inj: "enc a = enc b \<Longrightarrow> a = b"

sublocale fixed_code \<subseteq> prefix_code enc "\<lambda>_. True"
  by unfold_locales (metis append_eq_append_conv enc_inj enc_width)

interpretation key_code: fixed_code key_bytes 32
  by unfold_locales simp_all

interpretation u64_code: fixed_code "le_bytes 8 :: u64 \<Rightarrow> bytes" 8
  by unfold_locales simp_all

section \<open>The compact u16 length (\<open>encode_short_u16\<close> of crates/types/src/intent.rs)\<close>

lemma and_7f: "(n :: u16) AND 0x7f = take_bit 7 n"
  by (simp add: take_bit_eq_mask mask_eq_exp_minus_1)

lemma unat_take_bit_7: "unat (take_bit 7 (n :: u16)) = unat n mod 128"
  by (simp add: take_bit_eq_mod unat_mod_distrib)

lemma unat_drop_bit_7: "unat (drop_bit 7 (n :: u16)) = unat n div 128"
  by (simp only: unat_drop_bit_eq) (simp add: drop_bit_eq_div)

text \<open>
  The loop pushes the low seven bits, sets bit 7 while something is left, and stops when
  nothing is.
\<close>

function encode_short_u16 :: "u16 \<Rightarrow> bytes \<Rightarrow> bytes" where
  "encode_short_u16 n out =
     (let elem = ucast (n AND 0x7f) :: u8;
          n' = drop_bit 7 n;
          elem' = (if n' \<noteq> 0 then elem OR 0x80 else elem);
          out' = out @ [elem']
      in if n' = 0 then out' else encode_short_u16 n' out')"
  by pat_completeness auto

termination
proof (relation "measure (\<lambda>(n, out). unat n)", goal_cases)
  case (2 n out x y z w)
  then have "drop_bit 7 n \<noteq> 0" by simp
  then have "unat (drop_bit 7 n) \<noteq> 0" by (simp only: unat_eq_0 not_False_eq_True)
  then have "unat n div 128 \<noteq> 0" by (simp only: unat_drop_bit_7 not_False_eq_True)
  then have "unat n div 128 < unat n" by (cases "unat n = 0") simp_all
  with 2 show ?case by (simp only: in_measure prod.case unat_drop_bit_7)
qed simp

declare encode_short_u16.simps [simp del]

text \<open>What the loop writes, as a recursion on the number.\<close>

fun short_digits :: "nat \<Rightarrow> bytes" where
  "short_digits m =
     (if m < 128 then [word_of_nat m]
      else word_of_nat (m mod 128 + 128) # short_digits (m div 128))"

declare short_digits.simps [simp del]

lemma unat_low_group: "unat (ucast ((n :: u16) AND 0x7f) :: u8) = unat n mod 128"
proof -
  have "unat (ucast (take_bit 7 n) :: u8) = unat (take_bit 7 n) mod 256"
    by (simp only: unsigned_ucast_eq) (simp add: take_bit_eq_mod)
  then show ?thesis by (simp only: and_7f unat_take_bit_7) simp
qed

lemma unat_low_group_or: "unat (ucast ((n :: u16) AND 0x7f) OR 0x80 :: u8) = unat n mod 128 + 128"
proof -
  let ?e = "ucast (n AND 0x7f) :: u8"
  have "\<not> bit ?e 7" by (simp add: and_7f bit_simps)
  then have "set_bit 7 ?e = ?e + 0x80" by (simp add: set_bit_eq)
  moreover have "set_bit 7 ?e = ?e OR 0x80" by (simp add: set_bit_eq_or)
  ultimately have "?e OR 0x80 = ?e + 0x80" by simp
  then show ?thesis using unat_low_group [of n] by (simp add: unat_word_ariths)
qed

lemma encode_short_u16_digits: "encode_short_u16 n out = out @ short_digits (unat n)"
proof (induction n out rule: encode_short_u16.induct)
  case (1 n out)
  let ?e = "ucast (n AND 0x7f) :: u8"
  have zero: "drop_bit 7 n = 0 \<longleftrightarrow> unat n < 128"
  proof -
    have "drop_bit 7 n = 0 \<longleftrightarrow> unat (drop_bit 7 n) = 0" by (simp only: unat_eq_0)
    then show ?thesis by (simp only: unat_drop_bit_7) auto
  qed
  show ?case
  proof (cases "drop_bit 7 n = 0")
    case True
    then have small: "unat n < 128" by (simp only: zero)
    have "?e = word_of_nat (unat ?e)" by simp
    also have "unat ?e = unat n" using small by (simp only: unat_low_group) simp
    finally show ?thesis
      using True small by (simp add: encode_short_u16.simps [of n] short_digits.simps [of "unat n"])
  next
    case False
    then have large: "\<not> unat n < 128" by (simp only: zero not_False_eq_True)
    have "?e OR 0x80 = word_of_nat (unat (?e OR 0x80))" by simp
    also have "\<dots> = word_of_nat (unat n mod 128 + 128)" by (simp only: unat_low_group_or)
    finally have byte: "?e OR 0x80 = word_of_nat (unat n mod 128 + 128)" .
    have "encode_short_u16 (drop_bit 7 n) (out @ [?e OR 0x80])
        = (out @ [?e OR 0x80]) @ short_digits (unat n div 128)"
      using "1.IH" [OF refl refl refl refl] False by (simp only: if_True if_False not_False_eq_True unat_drop_bit_7)
    moreover have "encode_short_u16 n out = encode_short_u16 (drop_bit 7 n) (out @ [?e OR 0x80])"
      using False by (simp only: encode_short_u16.simps [of n out] Let_def if_True if_False not_False_eq_True)
    moreover have "short_digits (unat n) = (?e OR 0x80) # short_digits (unat n div 128)"
      using large by (simp only: byte short_digits.simps [of "unat n"] if_False)
    ultimately show ?thesis by (simp only: append_assoc append.simps)
  qed
qed

text \<open>
  The reader of the format, which the code does not contain: it fixes what the bytes mean
  (seven bits per byte, least significant group first, bit 7 set on all but the last).
\<close>

fun decode_short :: "bytes \<Rightarrow> (nat \<times> bytes) option" where
  "decode_short [] = None"
| "decode_short (b # bs) =
     (if unat b < 128 then Some (unat b, bs)
      else map_option (\<lambda>(v, r). (unat b - 128 + 128 * v, r)) (decode_short bs))"

lemma decode_short_digits: "decode_short (short_digits m @ rest) = Some (m, rest)"
proof (induction m rule: short_digits.induct)
  case (1 m)
  show ?case
  proof (cases "m < 128")
    case True
    then have "unat (word_of_nat m :: u8) = m" by (simp add: unat_of_nat)
    with True show ?thesis by (simp add: short_digits.simps [of m])
  next
    case False
    have "m mod 128 + 128 < 256" by (metis add_less_cancel_right mod_less_divisor numeral_Bit0 zero_less_numeral)
    then have byte: "unat (word_of_nat (m mod 128 + 128) :: u8) = m mod 128 + 128"
      by (simp only: unat_of_nat) simp
    have "short_digits m @ rest = word_of_nat (m mod 128 + 128) # short_digits (m div 128) @ rest"
      using False by (simp only: short_digits.simps [of m] if_False append.simps)
    then have "decode_short (short_digits m @ rest) = Some (m mod 128 + 128 - 128 + 128 * (m div 128), rest)"
      using "1.IH" [OF False] by (simp only: decode_short.simps byte) simp
    then show ?thesis by simp
  qed
qed

lemma decode_encode_short: "decode_short (encode_short_u16 n [] @ rest) = Some (unat n, rest)"
  by (simp add: encode_short_u16_digits decode_short_digits)

interpretation short_code: prefix_code "\<lambda>n. encode_short_u16 n []" "\<lambda>_. True"
proof unfold_locales
  fix a b :: u16 and r s
  assume "encode_short_u16 a [] @ r = encode_short_u16 b [] @ s"
  then have "Some (unat a, r) = Some (unat b, s)" by (metis decode_encode_short)
  then show "a = b \<and> r = s" by (simp add: word_unat_eq_iff)
qed

text \<open>One byte up to 127, two up to 16383, three above.\<close>

lemma length_short_digits:
  assumes "m < 2 ^ 16"
  shows "length (short_digits m) = (if m < 128 then 1 else if m < 16384 then 2 else 3)"
proof -
  have l1: "length (short_digits k) = 1" if "k < 128" for k
    using that by (simp add: short_digits.simps [of k])
  have l2: "length (short_digits k) = Suc (length (short_digits (k div 128)))" if "\<not> k < 128" for k
    using that by (simp add: short_digits.simps [of k])
  consider "m < 128" | "128 \<le> m" "m < 16384" | "16384 \<le> m" by linarith
  then show ?thesis
  proof cases
    case 3
    have "\<not> m div 128 < 128" and "m div 128 div 128 < 128" using 3 assms by auto
    then show ?thesis using 3 l2 [of m] l2 [of "m div 128"] l1 [of "m div 128 div 128"] by simp
  qed (auto simp: l1 l2)
qed

lemma length_encode_short_u16:
  "length (encode_short_u16 n []) = (if unat n < 128 then 1 else if unat n < 16384 then 2 else 3)"
proof -
  have "unat n < 2 ^ LENGTH(16)" by (rule unsigned_less)
  then have "unat n < 2 ^ 16" by simp
  from length_short_digits [OF this] show ?thesis by (simp add: encode_short_u16_digits)
qed


section \<open>Properties\<close>

text \<open>
  C20: The compact length of a \<open>u16\<close> takes one, two or three bytes by its size, is appended to the
  buffer, and reads back as the same number wherever it is followed by other bytes.
\<close>

theorem short_u16_roundtrip:
  "encode_short_u16 n out = out @ encode_short_u16 n []
   \<and> decode_short (encode_short_u16 n [] @ rest) = Some (unat n, rest)
   \<and> length (encode_short_u16 n []) = (if unat n < 128 then 1 else if unat n < 16384 then 2 else 3)"
  by (simp add: decode_encode_short length_encode_short_u16) (simp add: encode_short_u16_digits)
end
