(* ===== verification/Intents.thy ===== *)
theory Intents
  imports Hashing Codec
begin

text \<open>
  User intents: crates/types/src/intent.rs, with the instruction adapters of
  crates/types/src/serde.rs. \<open>Instruction\<close> and \<open>AccountMeta\<close> are Solana's types; their fields,
  which the code reads and writes directly, are the records below.
\<close>

section \<open>Data\<close>

record account_meta =
  meta_pubkey :: pubkey
  meta_is_signer :: bool
  meta_is_writable :: bool

record instruction =
  ix_program_id :: pubkey
  ix_accounts :: "account_meta list"
  ix_data :: bytes

datatype access_kind = ReadOnly | Writable

record account_access =
  aa_pubkey :: pubkey
  aa_access :: access_kind

definition conflicts :: "account_access \<Rightarrow> account_access \<Rightarrow> bool" where
  "conflicts self other \<longleftrightarrow>
     aa_pubkey self = aa_pubkey other
     \<and> (aa_access self = Writable \<or> aa_access other = Writable)"

record user_intent =
  ui_actor :: pubkey
  ui_ix :: instruction
  ui_accesses :: "account_access list"
  ui_priority :: u8
  ui_expires_at_slot :: "u64 option"

section \<open>The access list of an instruction\<close>

definition meta_access :: "account_meta \<Rightarrow> access_kind" where
  "meta_access m = (if meta_is_writable m then Writable else ReadOnly)"

fun accesses_loop :: "account_meta list \<Rightarrow> (pubkey \<times> access_kind) list \<Rightarrow> (pubkey \<times> access_kind) list" where
  "accesses_loop [] m = m"
| "accesses_loop (a # as) m =
     (let ak = meta_access a
      in accesses_loop as (btm_entry (\<lambda>e. if ak = Writable then ak else e) ak (meta_pubkey a) m))"

definition accesses_from_ix :: "instruction \<Rightarrow> account_access list" where
  "accesses_from_ix ix =
     map (\<lambda>(k, a). \<lparr>aa_pubkey = k, aa_access = a\<rparr>) (accesses_loop (ix_accounts ix) [])"

definition normalized :: "user_intent \<Rightarrow> user_intent" where
  "normalized self =
     (let from_ix = sort_key aa_pubkey (accesses_from_ix (ui_ix self))
      in self\<lparr>ui_accesses := from_ix\<rparr>)"

definition validate_accesses_match_ix :: "user_intent \<Rightarrow> bool" where
  "validate_accesses_match_ix self \<longleftrightarrow>
     sort_key aa_pubkey (ui_accesses self) = sort_key aa_pubkey (accesses_from_ix (ui_ix self))"

text \<open>
  The constructor ends in a \<open>debug_assert!\<close>; \<open>None\<close> is the panic of a debug build.
\<close>

definition user_intent_new :: "pubkey \<Rightarrow> instruction \<Rightarrow> u8 \<Rightarrow> u64 option \<Rightarrow> user_intent option" where
  "user_intent_new actor ix priority expires_at_slot =
     (let accesses = accesses_from_ix ix;
          ui = \<lparr>ui_actor = actor, ui_ix = ix, ui_accesses = accesses, ui_priority = priority,
                ui_expires_at_slot = expires_at_slot\<rparr>
      in if validate_accesses_match_ix ui then Some ui else None)"

section \<open>Identifiers\<close>

definition meta_flags :: "account_meta \<Rightarrow> u8" where
  "meta_flags m =
     (let flags = 0 :: u8;
          flags = (if meta_is_signer m then flags OR 1 else flags)
      in if meta_is_writable m then flags OR 2 else flags)"

definition meta_bytes :: "account_meta \<Rightarrow> bytes" where
  "meta_bytes m = key_bytes (meta_pubkey m) @ [meta_flags m]"

text \<open>The buffer \<open>id\<close> hashes; the lengths are cut to \<open>u16\<close> by \<open>as u16\<close>.\<close>

definition intent_buf :: "instruction \<Rightarrow> bytes" where
  "intent_buf ix =
     (let buf = key_bytes (ix_program_id ix);
          buf = encode_short_u16 (word_of_nat (length (ix_accounts ix))) buf;
          buf = buf @ concat (map meta_bytes (ix_accounts ix));
          buf = encode_short_u16 (word_of_nat (length (ix_data ix))) buf
      in buf @ ix_data ix)"

definition intent_id :: "(bytes \<Rightarrow> hash32) \<Rightarrow> user_intent \<Rightarrow> hash32" where
  "intent_id H self = dhash H (ascii_bytes ''CPSR:INTENTv1'') [intent_buf (ui_ix self)]"

definition planner_fingerprint :: "(bytes \<Rightarrow> hash32) \<Rightarrow> user_intent \<Rightarrow> hash32" where
  "planner_fingerprint H self =
     (let e = le_bytes 8 (case ui_expires_at_slot self of None \<Rightarrow> 0 | Some s \<Rightarrow> s);
          pri = [ui_priority self];
          actor = key_bytes (ui_actor self)
      in dhash H (ascii_bytes ''CPSR:INTENT_PLAN'') [actor, pri, e, key_bytes (intent_id H self)])"

section \<open>The serde mirror of an instruction (serde.rs)\<close>

record account_meta_ser =
  ams_pubkey :: pubkey
  ams_is_signer :: bool
  ams_is_writable :: bool

record instruction_ser =
  is_program_id :: pubkey
  is_accounts :: "account_meta_ser list"
  is_data :: bytes

definition instruction_ser_from :: "instruction \<Rightarrow> instruction_ser" where
  "instruction_ser_from ix =
     \<lparr>is_program_id = ix_program_id ix,
      is_accounts = map (\<lambda>m. \<lparr>ams_pubkey = meta_pubkey m, ams_is_signer = meta_is_signer m,
                              ams_is_writable = meta_is_writable m\<rparr>) (ix_accounts ix),
      is_data = ix_data ix\<rparr>"

definition instruction_from_ser :: "instruction_ser \<Rightarrow> instruction" where
  "instruction_from_ser s =
     \<lparr>ix_program_id = is_program_id s,
      ix_accounts = map (\<lambda>m. \<lparr>meta_pubkey = ams_pubkey m, meta_is_signer = ams_is_signer m,
                              meta_is_writable = ams_is_writable m\<rparr>) (is_accounts s),
      ix_data = is_data s\<rparr>"

text \<open>
  Key texts: base58 printing and parsing are Solana's (\<open>show\<close> and \<open>read\<close>); the adapters pass
  the error of a bad string on, and treat the absent key separately.
\<close>

definition pubkey_serialize :: "(pubkey \<Rightarrow> string) \<Rightarrow> pubkey \<Rightarrow> string" where
  "pubkey_serialize shw k = shw k"

definition pubkey_deserialize :: "(string \<Rightarrow> string + pubkey) \<Rightarrow> string \<Rightarrow> string + pubkey" where
  "pubkey_deserialize rd s = rd s"

definition pubkey_opt_serialize :: "(pubkey \<Rightarrow> string) \<Rightarrow> pubkey option \<Rightarrow> string option" where
  "pubkey_opt_serialize shw v = (case v of Some k \<Rightarrow> Some (shw k) | None \<Rightarrow> None)"

definition pubkey_opt_deserialize ::
    "(string \<Rightarrow> string + pubkey) \<Rightarrow> string option \<Rightarrow> string + pubkey option" where
  "pubkey_opt_deserialize rd o' =
     (case o' of
        Some s \<Rightarrow> (case rd s of Inl e \<Rightarrow> Inl e | Inr k \<Rightarrow> Inr (Some k))
      | None \<Rightarrow> Inr None)"

section \<open>The access list: lemmas\<close>

text \<open>A key of the loop's map is writable when one of the metas read so far asks for it.\<close>

definition writes_key :: "account_meta list \<Rightarrow> pubkey \<Rightarrow> bool" where
  "writes_key ms k \<longleftrightarrow> (\<exists>m \<in> set ms. meta_pubkey m = k \<and> meta_is_writable m)"

lemma sorted_accesses_loop:
  "sorted_wrt (<) (btm_keys m) \<Longrightarrow> sorted_wrt (<) (btm_keys (accesses_loop as m))"
  by (induction as arbitrary: m) (simp_all add: Let_def sorted_btm_entry)

lemma map_of_accesses_loop:
  "sorted_wrt (<) (btm_keys m) \<Longrightarrow>
   map_of (accesses_loop as m) k =
     (if writes_key as k \<or> map_of m k = Some Writable then Some Writable
      else if k \<in> meta_pubkey ` set as \<or> map_of m k \<noteq> None then Some ReadOnly else None)"
proof (induction as arbitrary: m)
  case Nil
  then show ?case by (cases "map_of m k"; cases "the (map_of m k)") (auto simp: writes_key_def)
next
  case (Cons a as)
  let ?m = "btm_entry (\<lambda>e. if meta_access a = Writable then meta_access a else e) (meta_access a) (meta_pubkey a) m"
  have IH: "map_of (accesses_loop as ?m) k =
     (if writes_key as k \<or> map_of ?m k = Some Writable then Some Writable
      else if k \<in> meta_pubkey ` set as \<or> map_of ?m k \<noteq> None then Some ReadOnly else None)"
    by (rule Cons.IH) (rule sorted_btm_entry [OF Cons.prems])
  show ?case
    unfolding accesses_loop.simps Let_def IH
    using Cons.prems
    by (auto simp: map_of_btm_entry writes_key_def meta_access_def split: option.splits)
qed

lemma sorted_accesses_from_ix: "sorted_wrt (<) (map aa_pubkey (accesses_from_ix ix))"
proof -
  have "map aa_pubkey (accesses_from_ix ix) = btm_keys (accesses_loop (ix_accounts ix) [])"
    by (simp add: accesses_from_ix_def case_prod_beta)
  then show ?thesis by (simp add: sorted_accesses_loop)
qed

lemma set_accesses_from_ix:
  "set (accesses_from_ix ix) =
     (\<lambda>k. \<lparr>aa_pubkey = k, aa_access = (if writes_key (ix_accounts ix) k then Writable else ReadOnly)\<rparr>)
       ` meta_pubkey ` set (ix_accounts ix)"
proof -
  let ?m = "accesses_loop (ix_accounts ix) []"
  have dist: "distinct (btm_keys ?m)"
    using sorted_accesses_loop [of "[]" "ix_accounts ix"] by (simp add: strict_sorted_iff)
  have entry: "(k, a) \<in> set ?m \<longleftrightarrow>
      k \<in> meta_pubkey ` set (ix_accounts ix) \<and> a = (if writes_key (ix_accounts ix) k then Writable else ReadOnly)"
    for k a
  proof -
    have "(k, a) \<in> set ?m \<longleftrightarrow> map_of ?m k = Some a"
      using dist by simp
    also have "\<dots> \<longleftrightarrow> k \<in> meta_pubkey ` set (ix_accounts ix)
        \<and> a = (if writes_key (ix_accounts ix) k then Writable else ReadOnly)"
      by (subst map_of_accesses_loop) (auto simp: writes_key_def)
    finally show ?thesis .
  qed
  have "set ?m = (\<lambda>k. (k, if writes_key (ix_accounts ix) k then Writable else ReadOnly))
      ` meta_pubkey ` set (ix_accounts ix)"
    by (rule set_eqI) (auto simp: entry image_iff)
  then show ?thesis
    by (simp add: accesses_from_ix_def image_image)
qed

lemma distinct_keys_accesses_from_ix: "distinct (map aa_pubkey (accesses_from_ix ix))"
  using sorted_accesses_from_ix [of ix] by (simp add: strict_sorted_iff)

lemma accesses_from_ix_sorted [simp]: "sort_key aa_pubkey (accesses_from_ix ix) = accesses_from_ix ix"
  using sorted_accesses_from_ix [of ix] by (simp add: strict_sorted_iff sort_key_id_if_sorted)

lemma validate_iff_mset:
  "validate_accesses_match_ix ui \<longleftrightarrow> mset (ui_accesses ui) = mset (accesses_from_ix (ui_ix ui))"
proof
  assume "validate_accesses_match_ix ui"
  then show "mset (ui_accesses ui) = mset (accesses_from_ix (ui_ix ui))"
    unfolding validate_accesses_match_ix_def by (rule sort_key_eq_imp_mset)
next
  assume eq: "mset (ui_accesses ui) = mset (accesses_from_ix (ui_ix ui))"
  have "inj_on aa_pubkey (set (accesses_from_ix (ui_ix ui)))"
    using distinct_keys_accesses_from_ix [of "ui_ix ui"] by (simp add: distinct_map)
  then show "validate_accesses_match_ix ui"
    unfolding validate_accesses_match_ix_def
    by (rule sort_key_mset_cong [OF eq [symmetric], symmetric])
qed

lemma ui_normalized [simp]:
  "ui_ix (normalized ui) = ui_ix ui"
  "ui_accesses (normalized ui) = accesses_from_ix (ui_ix ui)"
  "ui_actor (normalized ui) = ui_actor ui"
  "ui_priority (normalized ui) = ui_priority ui"
  "ui_expires_at_slot (normalized ui) = ui_expires_at_slot ui"
  by (simp_all add: normalized_def)

section \<open>The canonical encoding: lemmas\<close>

lemma meta_flags_cases:
  "meta_flags m = (if meta_is_signer m then 1 else 0) + (if meta_is_writable m then 2 else 0)"
  by (simp add: meta_flags_def Let_def)

lemma meta_bytes_inject: "meta_bytes a = meta_bytes b \<longleftrightarrow> a = (b :: account_meta)"
proof -
  have "meta_flags a = meta_flags b \<longleftrightarrow>
      meta_is_signer a = meta_is_signer b \<and> meta_is_writable a = meta_is_writable b"
    by (simp add: meta_flags_cases)
  then show ?thesis
    by (auto simp: meta_bytes_def intro: account_meta.equality)
qed

interpretation meta_code: fixed_code meta_bytes 33
  by unfold_locales (simp_all add: meta_bytes_inject, simp add: meta_bytes_def)

lemma intent_buf_eq:
  "intent_buf ix =
     key_bytes (ix_program_id ix)
     @ encode_short_u16 (word_of_nat (length (ix_accounts ix))) []
     @ concat (map meta_bytes (ix_accounts ix))
     @ encode_short_u16 (word_of_nat (length (ix_data ix))) []
     @ ix_data ix"
  by (simp add: intent_buf_def Let_def encode_short_u16_digits)

text \<open>The lengths that \<open>as u16\<close> does not change.\<close>

definition short_ix :: "instruction \<Rightarrow> bool" where
  "short_ix ix \<longleftrightarrow> length (ix_accounts ix) < 65536 \<and> length (ix_data ix) < 65536"

lemma word_of_nat_u16_inject:
  "m < 65536 \<Longrightarrow> n < 65536 \<Longrightarrow> (word_of_nat m :: u16) = word_of_nat n \<longleftrightarrow> m = n"
  by (simp add: word_of_nat_eq_iff take_bit_nat_eq_self)

lemma intent_buf_split:
  assumes "short_ix a" and "short_ix b" and "intent_buf a = intent_buf b"
  shows "a = b"
proof -
  from assms(3) have prog: "ix_program_id a = ix_program_id b"
    and rest: "encode_short_u16 (word_of_nat (length (ix_accounts a))) []
        @ concat (map meta_bytes (ix_accounts a))
        @ encode_short_u16 (word_of_nat (length (ix_data a))) [] @ ix_data a
      = encode_short_u16 (word_of_nat (length (ix_accounts b))) []
        @ concat (map meta_bytes (ix_accounts b))
        @ encode_short_u16 (word_of_nat (length (ix_data b))) [] @ ix_data b"
    by (simp_all add: intent_buf_eq key_code.enc_append_iff)
  from short_code.enc_split [OF TrueI TrueI rest]
  have "(word_of_nat (length (ix_accounts a)) :: u16) = word_of_nat (length (ix_accounts b))"
    and metas: "concat (map meta_bytes (ix_accounts a))
        @ encode_short_u16 (word_of_nat (length (ix_data a))) [] @ ix_data a
      = concat (map meta_bytes (ix_accounts b))
        @ encode_short_u16 (word_of_nat (length (ix_data b))) [] @ ix_data b"
    by blast+
  then have len: "length (ix_accounts a) = length (ix_accounts b)"
    using assms(1,2) by (simp add: short_ix_def word_of_nat_u16_inject)
  have accs: "ix_accounts a = ix_accounts b"
    and dat: "encode_short_u16 (word_of_nat (length (ix_data a))) [] @ ix_data a
      = encode_short_u16 (word_of_nat (length (ix_data b))) [] @ ix_data b"
    using meta_code.enc_list_split [OF len _ _ metas] by (simp_all add: list_all_iff)
  from short_code.enc_split [OF TrueI TrueI dat] have "ix_data a = ix_data b" by blast
  with prog accs show ?thesis by (auto intro: instruction.equality)
qed

text \<open>The preimages of the two identifiers.\<close>

definition intent_preimage :: "user_intent \<Rightarrow> bytes" where
  "intent_preimage ui = ascii_bytes ''CPSR:INTENTv1'' @ intent_buf (ui_ix ui)"

lemma intent_id_preimage: "intent_id H ui = H (intent_preimage ui)"
  by (simp add: intent_id_def dhash_def intent_preimage_def)

lemma intent_preimage_inject:
  "short_ix (ui_ix a) \<Longrightarrow> short_ix (ui_ix b) \<Longrightarrow>
   intent_preimage a = intent_preimage b \<longleftrightarrow> ui_ix a = ui_ix b"
  by (auto simp: intent_preimage_def intro: intent_buf_split)


section \<open>Properties\<close>

text \<open>
  C18: \<open>accesses_from_ix\<close> lists each account of the instruction once, in ascending order, writable
  exactly when one of its metas asks to write it.
\<close>

theorem accesses_from_ix_exact:
  "sorted_wrt (<) (map aa_pubkey (accesses_from_ix ix))
   \<and> set (accesses_from_ix ix) =
       {\<lparr>aa_pubkey = meta_pubkey m,
         aa_access = (if writes_key (ix_accounts ix) (meta_pubkey m) then Writable else ReadOnly)\<rparr>
        | m. m \<in> set (ix_accounts ix)}"
  using sorted_accesses_from_ix [of ix] by (auto simp: set_accesses_from_ix)

text \<open>
  \<open>UserIntent::new\<close> never trips its assertion: it returns the intent with the accesses derived
  from the instruction. The validation it asserts accepts exactly the reorderings of that list,
  and \<open>normalized\<close> always produces an intent that passes it.
\<close>

theorem user_intent_new_correct:
  "user_intent_new actor ix priority expires_at_slot =
     Some \<lparr>ui_actor = actor, ui_ix = ix, ui_accesses = accesses_from_ix ix, ui_priority = priority,
           ui_expires_at_slot = expires_at_slot\<rparr>
   \<and> (validate_accesses_match_ix ui \<longleftrightarrow> mset (ui_accesses ui) = mset (accesses_from_ix (ui_ix ui)))
   \<and> validate_accesses_match_ix (normalized ui)"
  by (simp add: user_intent_new_def validate_iff_mset Let_def)

text \<open>
  C19: The intent id binds the instruction: as long as the hash does not collide on the two byte
  strings, two intents have the same id exactly when they carry the same instruction (with fewer
  than 65536 accounts and data bytes).
\<close>

theorem intent_id_binds:
  assumes "short_ix (ui_ix a)" and "short_ix (ui_ix b)" and "inj_on H {intent_preimage a, intent_preimage b}"
  shows "intent_id H a = intent_id H b \<longleftrightarrow> ui_ix a = ui_ix b"
proof -
  have "intent_id H a = intent_id H b \<longleftrightarrow> intent_preimage a = intent_preimage b"
    using inj_onD [OF assms(3)] by (auto simp: intent_id_preimage)
  with intent_preimage_inject [OF assms(1,2)] show ?thesis by simp
qed

text \<open>Two intents and a function that tells their byte strings apart, for the concrete runs.\<close>

definition data_intent :: "pubkey \<Rightarrow> bytes \<Rightarrow> user_intent" where
  "data_intent actor bs =
     \<lparr>ui_actor = actor, ui_ix = \<lparr>ix_program_id = 0, ix_accounts = [], ix_data = bs\<rparr>, ui_accesses = [],
      ui_priority = 0, ui_expires_at_slot = None\<rparr>"

definition len_hash :: "bytes \<Rightarrow> hash32" where
  "len_hash bs = word_of_nat (length bs)"

lemma length_intent_preimage: "length (intent_preimage (data_intent k [])) = 47"
  "length (intent_preimage (data_intent k [b])) = 48"
  by (simp_all add: intent_preimage_def intent_buf_eq data_intent_def length_encode_short_u16 ascii_bytes_def)

theorem intent_id_binds_witness: "intent_id len_hash (data_intent 0 []) \<noteq> intent_id len_hash (data_intent 0 [1])"
proof -
  have "inj_on len_hash {intent_preimage (data_intent 0 []), intent_preimage (data_intent 0 [1])}"
    by (auto simp: inj_on_def len_hash_def length_intent_preimage)
  from intent_id_binds [OF _ _ this] show ?thesis by (simp add: short_ix_def data_intent_def)
qed

definition fingerprint_preimage :: "(bytes \<Rightarrow> hash32) \<Rightarrow> user_intent \<Rightarrow> bytes" where
  "fingerprint_preimage H ui =
     ascii_bytes ''CPSR:INTENT_PLAN'' @ key_bytes (ui_actor ui) @ [ui_priority ui]
     @ le_bytes 8 (case ui_expires_at_slot ui of None \<Rightarrow> 0 | Some s \<Rightarrow> s) @ key_bytes (intent_id H ui)"

text \<open>
  The planner fingerprint binds instruction, actor, priority and expiry slot, except that a
  missing expiry and an expiry at slot 0 give the same fingerprint.
\<close>

theorem planner_fingerprint_binds:
  assumes "short_ix (ui_ix a)" and "short_ix (ui_ix b)"
    and "inj_on H {intent_preimage a, intent_preimage b, fingerprint_preimage H a, fingerprint_preimage H b}"
  shows "planner_fingerprint H a = planner_fingerprint H b \<longleftrightarrow>
     ui_ix a = ui_ix b \<and> ui_actor a = ui_actor b \<and> ui_priority a = ui_priority b
     \<and> (case ui_expires_at_slot a of None \<Rightarrow> 0 | Some s \<Rightarrow> s) = (case ui_expires_at_slot b of None \<Rightarrow> 0 | Some s \<Rightarrow> s)"
proof -
  have fp: "planner_fingerprint H ui = H (fingerprint_preimage H ui)" for ui
    by (simp add: planner_fingerprint_def dhash_def fingerprint_preimage_def Let_def)
  have "planner_fingerprint H a = planner_fingerprint H b \<longleftrightarrow> fingerprint_preimage H a = fingerprint_preimage H b"
    using inj_onD [OF assms(3)] by (auto simp: fp)
  moreover have "intent_id H a = intent_id H b \<longleftrightarrow> ui_ix a = ui_ix b"
    using inj_onD [OF assms(3)] intent_preimage_inject [OF assms(1,2)] by (auto simp: intent_id_preimage)
  ultimately show ?thesis
    by (auto simp: fingerprint_preimage_def)
qed

theorem planner_fingerprint_binds_witness:
  "planner_fingerprint len_hash (data_intent 0 []) = planner_fingerprint len_hash (data_intent 0 [] \<lparr>ui_expires_at_slot := Some 0\<rparr>)"
proof -
  let ?a = "data_intent 0 []" and ?b = "data_intent 0 [] \<lparr>ui_expires_at_slot := Some 0\<rparr>"
  have same: "intent_preimage ?b = intent_preimage ?a"
    by (simp add: intent_preimage_def)
  have "fingerprint_preimage len_hash ?b = fingerprint_preimage len_hash ?a"
    by (simp add: fingerprint_preimage_def same intent_id_preimage) (simp add: data_intent_def)
  moreover have "length (fingerprint_preimage len_hash ?a) = 89"
    by (simp add: fingerprint_preimage_def ascii_bytes_def)
  ultimately have "inj_on len_hash
      {intent_preimage ?a, intent_preimage ?b, fingerprint_preimage len_hash ?a, fingerprint_preimage len_hash ?b}"
    by (auto simp: inj_on_def same len_hash_def length_intent_preimage)
  from planner_fingerprint_binds [OF _ _ this] show ?thesis by (simp add: short_ix_def data_intent_def)
qed
end
