(* ===== verification/Bundles.thy ===== *)
theory Bundles
  imports Intents
begin

text \<open>
  Account versions, chunks and bundles: crates/types/src/version.rs and
  crates/types/src/bundle.rs.
\<close>

section \<open>version.rs\<close>

record account_version =
  av_key :: pubkey
  av_lamports :: u64
  av_owner :: pubkey
  av_data_hash64 :: u64
  av_slot :: u64

text \<open>
  \<open>impl Ord for AccountVersion\<close> compares the key and then the slot, so it is the order of the
  pair below; two versions that differ in another field only are equal to it.
\<close>

datatype version_ord = VersionOrd (vo_key: pubkey) (vo_slot: u64)

instantiation version_ord :: linorder
begin

definition less_eq_version_ord :: "version_ord \<Rightarrow> version_ord \<Rightarrow> bool" where
  "less_eq_version_ord a b \<longleftrightarrow> vo_key a < vo_key b \<or> (vo_key a = vo_key b \<and> vo_slot a \<le> vo_slot b)"

definition less_version_ord :: "version_ord \<Rightarrow> version_ord \<Rightarrow> bool" where
  "less_version_ord a b \<longleftrightarrow> vo_key a < vo_key b \<or> (vo_key a = vo_key b \<and> vo_slot a < vo_slot b)"

instance
  by standard (auto simp: less_eq_version_ord_def less_version_ord_def intro: version_ord.expand)

end

definition version_ord_of :: "account_version \<Rightarrow> version_ord" where
  "version_ord_of v = VersionOrd (av_key v) (av_slot v)"

lemma version_ord_of_eq_iff [simp]:
  "version_ord_of v = version_ord_of w \<longleftrightarrow> av_key v = av_key w \<and> av_slot v = av_slot w"
  by (simp add: version_ord_of_def)

definition sort_versions :: "account_version list \<Rightarrow> account_version list" where
  "sort_versions vs = sort_key version_ord_of vs"

definition version_bytes :: "account_version \<Rightarrow> bytes" where
  "version_bytes v =
     key_bytes (av_key v) @ le_bytes 8 (av_lamports v) @ key_bytes (av_owner v)
     @ le_bytes 8 (av_data_hash64 v) @ le_bytes 8 (av_slot v)"

definition version_digest :: "(bytes \<Rightarrow> hash32) \<Rightarrow> account_version \<Rightarrow> hash32" where
  "version_digest H self =
     (let parts = [ascii_bytes ''CPSR:ACCV1'', key_bytes (av_key self), le_bytes 8 (av_lamports self),
                   key_bytes (av_owner self), le_bytes 8 (av_data_hash64 self), le_bytes 8 (av_slot self)]
      in blake3_concat H parts)"

section \<open>bundle.rs\<close>

record chunk =
  ck_intents :: "user_intent list"
  ck_occ_versions :: "account_version list"
  ck_merkle_root :: hash32
  ck_session_authority :: "pubkey option"
  ck_nonce :: u64
  ck_last_valid_block_height :: u64
  ck_est_cu :: u32
  ck_est_msg_bytes :: u32
  ck_alt_ro_count :: u32
  ck_alt_wr_count :: u32
  ck_plan_fingerprint :: "hash32 option"

definition occ_root :: "(bytes \<Rightarrow> hash32) \<Rightarrow> chunk \<Rightarrow> hash32" where
  "occ_root H self = merkle_root H (map (version_digest H) (sort_versions (ck_occ_versions self)))"

definition intent_root :: "(bytes \<Rightarrow> hash32) \<Rightarrow> chunk \<Rightarrow> hash32" where
  "intent_root H self = merkle_root H (map (intent_id H) (ck_intents self))"

definition chunk_id :: "(bytes \<Rightarrow> hash32) \<Rightarrow> chunk \<Rightarrow> hash32" where
  "chunk_id H self =
     dhash H (ascii_bytes ''CPSR:CHUNK'') [key_bytes (ck_merkle_root self), key_bytes (occ_root H self)]"

definition id_bound :: "(bytes \<Rightarrow> hash32) \<Rightarrow> chunk \<Rightarrow> hash32" where
  "id_bound H self =
     (let sess = key_bytes (case ck_session_authority self of Some k \<Rightarrow> k | None \<Rightarrow> 0);
          nonce_bytes = le_bytes 8 (ck_nonce self);
          plan = (case ck_plan_fingerprint self of Some p \<Rightarrow> p | None \<Rightarrow> ZERO32)
      in dhash H (ascii_bytes ''CPSR:CHUNKBOUND'')
           [key_bytes (ck_merkle_root self), key_bytes (occ_root H self), sess, nonce_bytes, key_bytes plan])"

definition chunk_normalize :: "chunk \<Rightarrow> chunk" where
  "chunk_normalize self = self\<lparr>ck_occ_versions := sort_versions (ck_occ_versions self)\<rparr>"

definition recompute_merkle_root :: "(bytes \<Rightarrow> hash32) \<Rightarrow> chunk \<Rightarrow> chunk" where
  "recompute_merkle_root H self = self\<lparr>ck_merkle_root := intent_root H self\<rparr>"

record intent_bundle =
  bd_chunks :: "chunk list"
  bd_bundle_root :: hash32
  bd_created_at_slot :: u64
  bd_max_age_slots :: u64

definition compute_root :: "(bytes \<Rightarrow> hash32) \<Rightarrow> chunk list \<Rightarrow> hash32" where
  "compute_root H chunks = merkle_root H (map (chunk_id H) chunks)"

definition recompute_root :: "(bytes \<Rightarrow> hash32) \<Rightarrow> intent_bundle \<Rightarrow> intent_bundle" where
  "recompute_root H self = self\<lparr>bd_bundle_root := compute_root H (bd_chunks self)\<rparr>"

definition is_expired :: "intent_bundle \<Rightarrow> u64 \<Rightarrow> bool" where
  "is_expired self current_slot \<longleftrightarrow>
     sat_sub current_slot (bd_created_at_slot self) > bd_max_age_slots self"

definition bundle_id :: "intent_bundle \<Rightarrow> hash32" where
  "bundle_id self = bd_bundle_root self"

section \<open>Lemmas\<close>

lemma version_digest_bytes: "version_digest H v = H (ascii_bytes ''CPSR:ACCV1'' @ version_bytes v)"
  by (simp add: version_digest_def blake3_concat_def version_bytes_def Let_def)

lemma version_bytes_inject: "version_bytes v = version_bytes w \<longleftrightarrow> v = w"
  by (auto simp: version_bytes_def intro: account_version.equality)

interpretation version_code: fixed_code version_bytes 88
  by unfold_locales (simp_all add: version_bytes_inject, simp add: version_bytes_def)

text \<open>The byte strings that the roots of a chunk hash.\<close>

definition leaf_queries :: "chunk \<Rightarrow> bytes list" where
  "leaf_queries c =
     map intent_preimage (ck_intents c)
     @ map (\<lambda>v. ascii_bytes ''CPSR:ACCV1'' @ version_bytes v) (ck_occ_versions c)"

definition chunk_preimage :: "(bytes \<Rightarrow> hash32) \<Rightarrow> chunk \<Rightarrow> bytes" where
  "chunk_preimage H c =
     ascii_bytes ''CPSR:CHUNK'' @ key_bytes (ck_merkle_root c) @ key_bytes (occ_root H c)"

definition chunk_queries :: "(bytes \<Rightarrow> hash32) \<Rightarrow> chunk \<Rightarrow> bytes list" where
  "chunk_queries H c =
     leaf_queries c
     @ merkle_queries H (map (intent_id H) (ck_intents c))
     @ merkle_queries H (map (version_digest H) (sort_versions (ck_occ_versions c)))
     @ [chunk_preimage H c]"

lemma chunk_id_preimage: "chunk_id H c = H (chunk_preimage H c)"
  by (simp add: chunk_id_def dhash_def chunk_preimage_def)

lemma intent_root_inject:
  assumes "inj_on H (set (chunk_queries H c) \<union> set (chunk_queries H d))"
    and "length (ck_intents c) = length (ck_intents d)"
    and "list_all (short_ix \<circ> ui_ix) (ck_intents c)" and "list_all (short_ix \<circ> ui_ix) (ck_intents d)"
    and "intent_root H c = intent_root H d"
  shows "map ui_ix (ck_intents c) = map ui_ix (ck_intents d)"
proof -
  have "map (intent_id H) (ck_intents c) = map (intent_id H) (ck_intents d)"
  proof (rule merkle_root_inject)
    show "inj_on H (set (merkle_queries H (map (intent_id H) (ck_intents c)))
        \<union> set (merkle_queries H (map (intent_id H) (ck_intents d))))"
      by (rule inj_on_subset [OF assms(1)]) (auto simp: chunk_queries_def)
  qed (use assms(2,5) in \<open>simp_all add: intent_root_def\<close>)
  moreover have "intent_id H = H \<circ> intent_preimage"
    by (rule ext) (simp add: intent_id_preimage)
  ultimately have "map H (map intent_preimage (ck_intents c)) = map H (map intent_preimage (ck_intents d))"
    by (simp only: map_map)
  moreover have "inj_on H (set (map intent_preimage (ck_intents c)) \<union> set (map intent_preimage (ck_intents d)))"
    by (rule inj_on_subset [OF assms(1)]) (auto simp: chunk_queries_def leaf_queries_def)
  ultimately have pre: "map intent_preimage (ck_intents c) = map intent_preimage (ck_intents d)"
    by (simp only: inj_on_map_eq_map)
  have "map ui_ix xs = map ui_ix ys"
    if "length xs = length ys" "list_all (short_ix \<circ> ui_ix) xs" "list_all (short_ix \<circ> ui_ix) ys"
      "map intent_preimage xs = map intent_preimage ys" for xs ys
    using that by (induction xs ys rule: list_induct2) (simp_all add: intent_preimage_inject)
  from this [OF assms(2,3,4) pre] show ?thesis .
qed

lemma occ_root_inject:
  assumes "inj_on H (set (chunk_queries H c) \<union> set (chunk_queries H d))"
    and "length (ck_occ_versions c) = length (ck_occ_versions d)"
    and "occ_root H c = occ_root H d"
  shows "sort_versions (ck_occ_versions c) = sort_versions (ck_occ_versions d)"
proof -
  let ?pre = "\<lambda>v. ascii_bytes ''CPSR:ACCV1'' @ version_bytes v"
  let ?c = "sort_versions (ck_occ_versions c)" and ?d = "sort_versions (ck_occ_versions d)"
  have "map (version_digest H) ?c = map (version_digest H) ?d"
  proof (rule merkle_root_inject)
    show "inj_on H (set (merkle_queries H (map (version_digest H) ?c))
        \<union> set (merkle_queries H (map (version_digest H) ?d)))"
      by (rule inj_on_subset [OF assms(1)]) (auto simp: chunk_queries_def)
  qed (use assms(2,3) in \<open>simp_all add: occ_root_def sort_versions_def\<close>)
  moreover have "version_digest H = H \<circ> ?pre"
    by (rule ext) (simp add: version_digest_bytes)
  ultimately have "map H (map ?pre ?c) = map H (map ?pre ?d)"
    by (simp only: map_map)
  moreover have "inj_on H (set (map ?pre ?c) \<union> set (map ?pre ?d))"
    by (rule inj_on_subset [OF assms(1)]) (auto simp: chunk_queries_def leaf_queries_def sort_versions_def)
  ultimately have "map ?pre ?c = map ?pre ?d"
    by (simp only: inj_on_map_eq_map)
  moreover have "inj_on ?pre (set ?c \<union> set ?d)"
    by (auto simp: inj_on_def version_bytes_inject)
  ultimately show ?thesis by (simp only: inj_on_map_eq_map)
qed


section \<open>Properties\<close>

text \<open>
  C21: The chunk id binds what the chunk holds: without collisions on the byte strings both ids
  hash, two chunks with up-to-date Merkle roots, as many intents and as many versions have the
  same id only when they carry the same instructions in the same order and the same account
  versions.
\<close>

theorem chunk_id_binds:
  assumes "inj_on H (set (chunk_queries H c) \<union> set (chunk_queries H d))"
    and "recompute_merkle_root H c = c" and "recompute_merkle_root H d = d"
    and "length (ck_intents c) = length (ck_intents d)"
    and "length (ck_occ_versions c) = length (ck_occ_versions d)"
    and "list_all (short_ix \<circ> ui_ix) (ck_intents c)" and "list_all (short_ix \<circ> ui_ix) (ck_intents d)"
    and "chunk_id H c = chunk_id H d"
  shows "map ui_ix (ck_intents c) = map ui_ix (ck_intents d)
    \<and> sort_versions (ck_occ_versions c) = sort_versions (ck_occ_versions d)"
proof -
  have root: "ck_merkle_root c = intent_root H c" "ck_merkle_root d = intent_root H d"
    using assms(2,3) [THEN arg_cong [where f = ck_merkle_root]] by (simp_all add: recompute_merkle_root_def)
  have "chunk_preimage H c = chunk_preimage H d"
    using inj_onD [OF assms(1), of "chunk_preimage H c" "chunk_preimage H d"] assms(8)
    by (simp add: chunk_id_preimage chunk_queries_def)
  then have "intent_root H c = intent_root H d" "occ_root H c = occ_root H d"
    by (simp_all add: chunk_preimage_def root)
  with intent_root_inject [OF assms(1,4,6,7)] occ_root_inject [OF assms(1,5)] show ?thesis by simp
qed

definition empty_chunk :: chunk where
  "empty_chunk =
     \<lparr>ck_intents = [], ck_occ_versions = [], ck_merkle_root = ZERO32, ck_session_authority = None,
      ck_nonce = 0, ck_last_valid_block_height = 0, ck_est_cu = 0, ck_est_msg_bytes = 0,
      ck_alt_ro_count = 0, ck_alt_wr_count = 0, ck_plan_fingerprint = None\<rparr>"

definition data_chunk :: "bytes \<Rightarrow> u64 \<Rightarrow> chunk" where
  "data_chunk bs nonce =
     recompute_merkle_root len_hash (empty_chunk\<lparr>ck_intents := [data_intent 0 bs], ck_nonce := nonce\<rparr>)"

theorem chunk_id_binds_witness:
  "map ui_ix (ck_intents (data_chunk [] 0)) = map ui_ix (ck_intents (data_chunk [] 1))"
proof (rule conjunct1 [OF chunk_id_binds])
  have q: "chunk_queries len_hash (data_chunk [] n) = chunk_queries len_hash (data_chunk [] 0)" for n
    by (simp add: chunk_queries_def leaf_queries_def chunk_preimage_def occ_root_def data_chunk_def
        recompute_merkle_root_def intent_root_def empty_chunk_def)
  have "length (chunk_preimage len_hash (data_chunk [] 0)) = 74"
    by (simp add: chunk_preimage_def ascii_bytes_def)
  then show "inj_on len_hash (set (chunk_queries len_hash (data_chunk [] 0)) \<union> set (chunk_queries len_hash (data_chunk [] 1)))"
    unfolding q [of 1]
    by (auto simp: inj_on_def chunk_queries_def leaf_queries_def data_chunk_def recompute_merkle_root_def
        empty_chunk_def merkle_queries.simps sort_versions_def len_hash_def length_intent_preimage)
qed (simp_all add: data_chunk_def recompute_merkle_root_def intent_root_def empty_chunk_def short_ix_def
      data_intent_def chunk_id_def occ_root_def)

text \<open>
  The version root depends on the set of versions and not on their order, as long as no two of
  them agree in account and slot; \<open>normalize\<close> keeps it and the chunk id in any case.
\<close>

theorem occ_root_order_free:
  assumes "mset (ck_occ_versions c) = mset (ck_occ_versions d)"
    and "inj_on version_ord_of (set (ck_occ_versions c))"
  shows "occ_root H c = occ_root H d
    \<and> occ_root H (chunk_normalize d) = occ_root H d \<and> chunk_id H (chunk_normalize d) = chunk_id H d"
  using sort_key_mset_cong [OF assms]
  by (simp add: occ_root_def chunk_id_def chunk_normalize_def sort_versions_def)

definition version_at :: "pubkey \<Rightarrow> u64 \<Rightarrow> u64 \<Rightarrow> account_version" where
  "version_at k lamports slot =
     \<lparr>av_key = k, av_lamports = lamports, av_owner = 0, av_data_hash64 = 0, av_slot = slot\<rparr>"

text \<open>
  The order of \<open>AccountVersion\<close> leaves out lamports, owner and data hash, so two versions of one
  account at one slot that differ there stay in the order they come in.
\<close>

lemma sort_versions_tie:
  "sort_versions [version_at k 5 s, version_at k 6 s] \<noteq> sort_versions [version_at k 6 s, version_at k 5 s]"
  by (simp add: sort_versions_def version_at_def version_ord_of_def)

theorem occ_root_order_free_witness:
  "occ_root len_hash (empty_chunk\<lparr>ck_occ_versions := [version_at 1 5 0, version_at 2 6 0]\<rparr>)
   = occ_root len_hash (empty_chunk\<lparr>ck_occ_versions := [version_at 2 6 0, version_at 1 5 0]\<rparr>)"
  using occ_root_order_free [of "empty_chunk\<lparr>ck_occ_versions := [version_at 1 5 0, version_at 2 6 0]\<rparr>"
      "empty_chunk\<lparr>ck_occ_versions := [version_at 2 6 0, version_at 1 5 0]\<rparr>" len_hash]
  by (simp add: version_at_def)

text \<open>
  An odd number of intents, at least three, has the intent root of the same list with its last
  intent repeated: the duplication of the last leaf is not distinguished from a real leaf.
\<close>

theorem intent_root_odd_duplicate:
  assumes "odd (length (ck_intents c))" and "length (ck_intents c) > 1"
  shows "intent_root H (c\<lparr>ck_intents := ck_intents c @ [last (ck_intents c)]\<rparr>) = intent_root H c"
proof -
  let ?xs = "map (intent_id H) (ck_intents c)"
  have ne: "ck_intents c \<noteq> []" using assms(2) by auto
  have "merkle_pad (?xs @ [last ?xs]) = merkle_pad ?xs"
    using assms(1) by (simp add: merkle_pad_def odd_iff_mod_2_eq_one mod_Suc)
  then have "merkle_root H (?xs @ [last ?xs]) = merkle_root H ?xs"
    using merkle_root_step [of ?xs H] merkle_root_step [of "?xs @ [last ?xs]" H] assms(2) ne by simp
  with ne show ?thesis by (simp add: intent_root_def last_map)
qed

theorem intent_root_odd_duplicate_witness:
  "intent_root len_hash (empty_chunk\<lparr>ck_intents := [data_intent 0 [], data_intent 0 [1], data_intent 0 [2], data_intent 0 [2]]\<rparr>)
   = intent_root len_hash (empty_chunk\<lparr>ck_intents := [data_intent 0 [], data_intent 0 [1], data_intent 0 [2]]\<rparr>)"
  using intent_root_odd_duplicate
    [of "empty_chunk\<lparr>ck_intents := [data_intent 0 [], data_intent 0 [1], data_intent 0 [2]]\<rparr>" len_hash]
  by simp

text \<open>
  A bundle is expired exactly when the current slot lies more than the maximal age after its
  creation slot, without wrap-around, also for a current slot before the creation.
\<close>

theorem is_expired_exact:
  "is_expired b cur \<longleftrightarrow> unat cur > unat (bd_created_at_slot b) + unat (bd_max_age_slots b)"
  by (auto simp: is_expired_def word_less_nat_alt unat_sat_sub)
end
