(* ===== verification/Estimator.thy ===== *)
theory Estimator
  imports Intents
begin

text \<open>
  The estimator crate: safety margins (crates/estimator/src/config.rs), the compute-unit margin
  (cost.rs) and the v0 message size (size.rs). The \<open>u32\<close> sums of size.rs are unchecked additions,
  so they wrap here as they do in a release build; the exact sums on natural numbers and the
  condition under which both agree are stated below.
\<close>

section \<open>config.rs\<close>

record safety_margins =
  sm_cu_slack :: u32
  sm_cu_safety_pct :: u8
  sm_max_chunk_cu :: u32
  sm_bytes_slack :: u32
  sm_max_msg_bytes :: u32

definition safety_margins_default :: safety_margins where
  "safety_margins_default =
     \<lparr>sm_cu_slack = 10000, sm_cu_safety_pct = 20, sm_max_chunk_cu = 1000000,
      sm_bytes_slack = 64, sm_max_msg_bytes = 1200\<rparr>"

definition sig_shortvec_len :: "nat \<Rightarrow> nat" where
  "sig_shortvec_len n = (if n < 128 then 1 else if n < 16384 then 2 else 3)"

definition PACKET_DATA_SIZE :: nat where
  "PACKET_DATA_SIZE = 1232"

definition max_message_bytes_with_signers :: "safety_margins \<Rightarrow> nat \<Rightarrow> nat" where
  "max_message_bytes_with_signers self num_signers =
     (let sig_bytes = 64 * num_signers + sig_shortvec_len num_signers;
          hard = PACKET_DATA_SIZE - sig_bytes
      in min hard (unat (sm_max_msg_bytes self)) - unat (sm_bytes_slack self))"

section \<open>cost.rs\<close>

record cu_estimate =
  ce_cu :: u32
  ce_cu_with_safety :: u32

definition apply_safety :: "u32 \<Rightarrow> u32 \<Rightarrow> u8 \<Rightarrow> cu_estimate" where
  "apply_safety cu slack pct =
     (let pct_add = (ucast cu * ucast pct :: u64) div 100;
          wth = sat_add (sat_add cu slack) (ucast pct_add :: u32)
      in \<lparr>ce_cu = cu, ce_cu_with_safety = wth\<rparr>)"

definition apply_safety_with_cap :: "u32 \<Rightarrow> u32 \<Rightarrow> u8 \<Rightarrow> u32 \<Rightarrow> cu_estimate" where
  "apply_safety_with_cap cu slack pct cap =
     (let est = apply_safety cu slack pct
      in if ce_cu_with_safety est > cap then est\<lparr>ce_cu_with_safety := cap\<rparr> else est)"

section \<open>size.rs\<close>

record size_estimate =
  se_instr_bytes :: u32
  se_account_metas :: u32
  se_approx_v0_bytes :: u32

definition size_shortvec_len :: "nat \<Rightarrow> u32" where
  "size_shortvec_len n = (if n < 128 then 1 else if n < 16384 then 2 else 3)"

definition compiled_ix_bytes :: "instruction \<Rightarrow> u32" where
  "compiled_ix_bytes ix =
     (let accs = length (ix_accounts ix); data_len = length (ix_data ix)
      in 1 + size_shortvec_len accs + word_of_nat accs + size_shortvec_len data_len + word_of_nat data_len)"

definition estimate_instruction_size :: "instruction \<Rightarrow> size_estimate" where
  "estimate_instruction_size ix =
     (let bs = compiled_ix_bytes ix
      in \<lparr>se_instr_bytes = bs, se_account_metas = word_of_nat (length (ix_accounts ix) + 1),
          se_approx_v0_bytes = bs\<rparr>)"

record v0_message_shape =
  vs_message_keys :: nat
  vs_lookup_tables :: "(nat \<times> nat) list"
  vs_instr_count :: nat

definition sum_compiled_ix_bytes :: "instruction list \<Rightarrow> u32" where
  "sum_compiled_ix_bytes ixs = sum_list (map compiled_ix_bytes ixs)"

fun lookup_bytes_loop :: "(nat \<times> nat) list \<Rightarrow> u32 \<Rightarrow> u32" where
  "lookup_bytes_loop [] acc = acc"
| "lookup_bytes_loop ((ro, wr) # ts) acc =
     (let acc = acc + 32;
          acc = acc + (size_shortvec_len ro + word_of_nat ro);
          acc = acc + (size_shortvec_len wr + word_of_nat wr)
      in lookup_bytes_loop ts acc)"

definition estimate_message_v0_bytes :: "instruction list \<Rightarrow> v0_message_shape \<Rightarrow> u32" where
  "estimate_message_v0_bytes ixs shape =
     (let header = 3; blockhash = 32;
          keys_len = size_shortvec_len (vs_message_keys shape);
          keys_bytes = word_of_nat (vs_message_keys shape) * 32;
          lookup_len = size_shortvec_len (length (vs_lookup_tables shape));
          lookup_bytes = lookup_bytes_loop (vs_lookup_tables shape) 0;
          instr_len = size_shortvec_len (vs_instr_count shape);
          instr_bytes = sum_compiled_ix_bytes ixs
      in header + blockhash + keys_len + keys_bytes + lookup_len + lookup_bytes + instr_len + instr_bytes)"

definition fold_message_size :: "size_estimate list \<Rightarrow> u32 \<Rightarrow> u32" where
  "fold_message_size estimates bytes_slack = sum_list (map se_instr_bytes estimates) + bytes_slack"

section \<open>Lemmas: the compute-unit margin\<close>

lemma ce_apply_safety [simp]: "ce_cu (apply_safety cu slack pct) = cu"
  by (simp add: apply_safety_def Let_def)

lemma ce_apply_safety_with_cap [simp]: "ce_cu (apply_safety_with_cap cu slack pct cap) = cu"
  by (simp add: apply_safety_with_cap_def Let_def)

lemma unat_pct_add: "unat ((ucast (cu :: u32) * ucast (pct :: u8) :: u64) div 100) = unat cu * unat pct div 100"
proof -
  have cu: "unat cu < 2 ^ 32" and pct: "unat pct < 2 ^ 8"
    using unsigned_less [of cu, where ?'a = nat] unsigned_less [of pct, where ?'a = nat] by simp_all
  then have "unat cu * unat pct < 2 ^ 32 * 2 ^ 8"
    by (intro mult_strict_mono) auto
  moreover have "unat cu mod 18446744073709551616 = unat cu"
    and "unat pct mod 18446744073709551616 = unat pct"
    using cu pct by simp_all
  ultimately have "unat (ucast cu * ucast pct :: u64) = unat cu * unat pct"
    by (simp add: unat_word_ariths unsigned_ucast_eq take_bit_eq_mod)
  then show ?thesis by (simp add: unat_div_distrib)
qed

lemma unat_apply_safety:
  "unat (ce_cu_with_safety (apply_safety cu slack pct)) =
     min (2 ^ 32 - 1) (min (2 ^ 32 - 1) (unat cu + unat slack) + unat cu * unat pct div 100 mod 2 ^ 32)"
proof -
  have "unat (ucast ((ucast cu * ucast pct :: u64) div 100) :: u32) = unat cu * unat pct div 100 mod 2 ^ 32"
    by (simp only: unsigned_ucast_eq unat_pct_add take_bit_eq_mod) simp
  then show ?thesis
    by (simp add: apply_safety_def Let_def unat_sat_add)
qed

lemma apply_safety_with_cap_min:
  "ce_cu_with_safety (apply_safety_with_cap cu slack pct cap) = min cap (ce_cu_with_safety (apply_safety cu slack pct))"
  by (auto simp: apply_safety_with_cap_def Let_def min_def)

text \<open>With at most 100 per cent the addend fits in 32 bits, and the sum saturates once.\<close>

lemma unat_apply_safety_pct_le_100:
  assumes "unat pct \<le> 100"
  shows "unat (ce_cu_with_safety (apply_safety cu slack pct)) =
     min (2 ^ 32 - 1) (unat cu + unat slack + unat cu * unat pct div 100)"
proof -
  have cu: "unat cu < 2 ^ 32" using unsigned_less [of cu, where ?'a = nat] by simp
  have "unat cu * unat pct div 100 \<le> unat cu * 100 div 100"
    using assms by (intro div_le_mono mult_le_mono2)
  then have "unat cu * unat pct div 100 < 2 ^ 32" using cu by simp
  then show ?thesis by (simp add: unat_apply_safety min_def)
qed

section \<open>Lemmas: message sizes\<close>

text \<open>The sizes on natural numbers.\<close>

definition exact_ix_bytes :: "instruction \<Rightarrow> nat" where
  "exact_ix_bytes ix =
     1 + sig_shortvec_len (length (ix_accounts ix)) + length (ix_accounts ix)
       + sig_shortvec_len (length (ix_data ix)) + length (ix_data ix)"

definition exact_message_bytes :: "instruction list \<Rightarrow> v0_message_shape \<Rightarrow> nat" where
  "exact_message_bytes ixs shape =
     3 + 32 + sig_shortvec_len (vs_message_keys shape) + 32 * vs_message_keys shape
       + sig_shortvec_len (length (vs_lookup_tables shape))
       + sum_list (map (\<lambda>(ro, wr). 32 + sig_shortvec_len ro + ro + sig_shortvec_len wr + wr) (vs_lookup_tables shape))
       + sig_shortvec_len (vs_instr_count shape)
       + sum_list (map exact_ix_bytes ixs)"

lemma size_shortvec_len_of_nat: "size_shortvec_len n = word_of_nat (sig_shortvec_len n)"
  by (simp add: size_shortvec_len_def sig_shortvec_len_def)

lemma compiled_ix_bytes_of_nat: "compiled_ix_bytes ix = word_of_nat (exact_ix_bytes ix)"
  by (simp add: compiled_ix_bytes_def exact_ix_bytes_def Let_def size_shortvec_len_of_nat)

lemma sum_compiled_of_nat: "sum_compiled_ix_bytes ixs = word_of_nat (sum_list (map exact_ix_bytes ixs))"
  by (induction ixs) (simp_all add: sum_compiled_ix_bytes_def compiled_ix_bytes_of_nat)

lemma lookup_bytes_of_nat:
  "lookup_bytes_loop ts acc =
     acc + word_of_nat (sum_list (map (\<lambda>(ro, wr). 32 + sig_shortvec_len ro + ro + sig_shortvec_len wr + wr) ts))"
  by (induction ts arbitrary: acc) (auto simp: Let_def size_shortvec_len_of_nat algebra_simps)

lemma estimate_message_of_nat:
  "estimate_message_v0_bytes ixs shape = word_of_nat (exact_message_bytes ixs shape)"
  by (simp add: estimate_message_v0_bytes_def exact_message_bytes_def Let_def size_shortvec_len_of_nat
      sum_compiled_of_nat lookup_bytes_of_nat algebra_simps)

lemma sig_shortvec_len_bounds: "1 \<le> sig_shortvec_len n" "sig_shortvec_len n \<le> 3"
  by (simp_all add: sig_shortvec_len_def)

lemma sig_shortvec_len_mono: "m \<le> n \<Longrightarrow> sig_shortvec_len m \<le> sig_shortvec_len n"
  by (auto simp: sig_shortvec_len_def)

text \<open>The helper is the length of the compact-u16 code.\<close>

lemma sig_shortvec_len_encode:
  "n < 65536 \<Longrightarrow> length (encode_short_u16 (word_of_nat n) []) = sig_shortvec_len n"
  by (simp add: length_encode_short_u16 sig_shortvec_len_def unat_of_nat)


section \<open>The wire format of a v0 message\<close>

text \<open>
  The layout that size.rs states in its comments: header, static keys, blockhash, instructions and
  address-table lookups, every array behind a compact length.
\<close>

definition wire_array :: "('a \<Rightarrow> bytes) \<Rightarrow> 'a list \<Rightarrow> bytes" where
  "wire_array enc xs = encode_short_u16 (word_of_nat (length xs)) [] @ concat (map enc xs)"

record wire_ix =
  wi_program :: u8
  wi_accounts :: "u8 list"
  wi_data :: bytes

definition wire_instruction :: "wire_ix \<Rightarrow> bytes" where
  "wire_instruction w = [wi_program w] @ wire_array (\<lambda>i. [i]) (wi_accounts w) @ wire_array (\<lambda>b. [b]) (wi_data w)"

definition wire_lookup :: "pubkey \<times> u8 list \<times> u8 list \<Rightarrow> bytes" where
  "wire_lookup t = (case t of (k, wr, ro) \<Rightarrow> key_bytes k @ wire_array (\<lambda>i. [i]) wr @ wire_array (\<lambda>i. [i]) ro)"

definition wire_message ::
    "u8 \<times> u8 \<times> u8 \<Rightarrow> pubkey list \<Rightarrow> hash32 \<Rightarrow> wire_ix list \<Rightarrow> (pubkey \<times> u8 list \<times> u8 list) list \<Rightarrow> bytes" where
  "wire_message header keys blockhash wixs lookups =
     (case header of (a, b, c) \<Rightarrow> [a, b, c]) @ wire_array key_bytes keys @ key_bytes blockhash
     @ wire_array wire_instruction wixs @ wire_array wire_lookup lookups"

text \<open>The compiled instructions and lookups that a shape counts, with lengths below 65536.\<close>

definition compiles_to :: "instruction \<Rightarrow> wire_ix \<Rightarrow> bool" where
  "compiles_to ix w \<longleftrightarrow>
     length (wi_accounts w) = length (ix_accounts ix) \<and> wi_data w = ix_data ix \<and> short_ix ix"

definition lookup_fits :: "nat \<times> nat \<Rightarrow> pubkey \<times> u8 list \<times> u8 list \<Rightarrow> bool" where
  "lookup_fits t l \<longleftrightarrow>
     length (snd (snd l)) = fst t \<and> length (fst (snd l)) = snd t \<and> fst t < 65536 \<and> snd t < 65536"

lemma length_wire_array:
  "length xs < 65536 \<Longrightarrow> length (wire_array enc xs) = sig_shortvec_len (length xs) + sum_list (map (length \<circ> enc) xs)"
  by (simp add: wire_array_def sig_shortvec_len_encode length_concat)

lemma sum_list_const_one: "sum_list (map (length \<circ> (\<lambda>x. [f x])) xs) = length xs"
  by (induction xs) simp_all

lemma sum_list_key_bytes: "sum_list (map (length \<circ> key_bytes) xs) = 32 * length xs"
  by (induction xs) simp_all

lemma length_wire_instruction: "compiles_to ix w \<Longrightarrow> length (wire_instruction w) = exact_ix_bytes ix"
  by (simp add: compiles_to_def wire_instruction_def exact_ix_bytes_def short_ix_def length_wire_array
      sum_list_const_one)

lemma length_wire_lookup:
  "lookup_fits (ro, wr) l \<Longrightarrow> length (wire_lookup l) = 32 + sig_shortvec_len ro + ro + sig_shortvec_len wr + wr"
  by (cases l) (auto simp: lookup_fits_def wire_lookup_def length_wire_array sum_list_const_one)

lemma sum_wire_instructions:
  "list_all2 compiles_to ixs wixs \<Longrightarrow> sum_list (map (length \<circ> wire_instruction) wixs) = sum_list (map exact_ix_bytes ixs)"
  by (induction rule: list_all2_induct) (simp_all add: length_wire_instruction)

lemma sum_wire_lookups:
  "list_all2 lookup_fits ts ls \<Longrightarrow>
   sum_list (map (length \<circ> wire_lookup) ls) =
     sum_list (map (\<lambda>(ro, wr). 32 + sig_shortvec_len ro + ro + sig_shortvec_len wr + wr) ts)"
  by (induction rule: list_all2_induct) (auto simp: length_wire_lookup)

section \<open>Properties\<close>

text \<open>
  With a margin of at most 100 per cent the padded compute units are the exact sum of units,
  slack and percentage, cut at the largest \<open>u32\<close> and then at the cap. Above 100 per cent the
  percentage can exceed 32 bits and is truncated: 200 per cent of \<open>2 ^ 31\<close> units adds nothing.
\<close>

theorem apply_safety_exact:
  assumes "unat pct \<le> 100"
  shows "unat (ce_cu_with_safety (apply_safety_with_cap cu slack pct cap)) =
      min (unat cap) (min (2 ^ 32 - 1) (unat cu + unat slack + unat cu * unat pct div 100))
    \<and> ce_cu (apply_safety_with_cap cu slack pct cap) = cu
    \<and> ce_cu_with_safety (apply_safety 0x80000000 0 200) = 0x80000000"
proof -
  have "unat (min cap x) = min (unat cap) (unat x)" for x
    by (simp add: min_def word_le_nat_alt)
  moreover have "ce_cu_with_safety (apply_safety 0x80000000 0 200) = 0x80000000"
    by (simp add: word_unat_eq_iff unat_apply_safety)
  ultimately show ?thesis
    by (simp add: apply_safety_with_cap_min unat_apply_safety_pct_le_100 [OF assms])
qed

theorem apply_safety_exact_witness:
  "unat (ce_cu_with_safety (apply_safety_with_cap 200000 10000 20 1000000)) = 250000"
  using apply_safety_exact [of 20 200000 10000 1000000] by simp

text \<open>
  A message that the limit admits fits into one packet together with its signatures and the
  byte slack, and more signers never raise the limit.
\<close>

theorem max_message_bytes_fits_packet:
  assumes "0 < bs" and "bs \<le> max_message_bytes_with_signers m n" and "n \<le> n'"
  shows "sig_shortvec_len n + 64 * n + bs + unat (sm_bytes_slack m) \<le> PACKET_DATA_SIZE
    \<and> bs + unat (sm_bytes_slack m) \<le> unat (sm_max_msg_bytes m)
    \<and> max_message_bytes_with_signers m n' \<le> max_message_bytes_with_signers m n"
proof -
  have "64 * n + sig_shortvec_len n \<le> 64 * n' + sig_shortvec_len n'"
    using sig_shortvec_len_mono [OF assms(3)] assms(3) by simp
  then show ?thesis
    using assms(1,2) unfolding max_message_bytes_with_signers_def Let_def by linarith
qed

theorem max_message_bytes_fits_packet_witness:
  "max_message_bytes_with_signers safety_margins_default 2 = 1039
   \<and> sig_shortvec_len 2 + 64 * 2 + 1039 + 64 \<le> PACKET_DATA_SIZE"
  using max_message_bytes_fits_packet [of 1039 safety_margins_default 2 2]
  by (simp add: max_message_bytes_with_signers_def safety_margins_default_def PACKET_DATA_SIZE_def
      sig_shortvec_len_def)


end
