(* ===== verification/Dag.thy ===== *)
theory Dag
  imports Intents
begin

text \<open>
  The conflict DAG of bundler/src/dag/mod.rs: \<open>Dag::build\<close>, \<open>topo_order\<close>, \<open>layers\<close>,
  \<open>neighbors\<close> and \<open>predecessors\<close>.

  A \<open>NodeId\<close> is the index of an intent (fewer than \<open>2 ^ 32\<close> of them, so the cast keeps it). The
  code walks a \<open>HashMap\<close> from accounts to participants, in an order the language leaves open:
  \<open>order\<close>, the sequence in which the map yields its accounts, is a parameter, and the theorems
  hold for every such sequence unless they say otherwise. \<open>topo_order\<close> and \<open>layers\<close> return an
  option: \<open>None\<close> stands for a call that does not return normally (a panic on an index out of
  range, or a loop that goes on for ever), and the lemmas show it cannot happen on a built DAG.
\<close>

section \<open>Data\<close>

type_synonym node_id = nat

datatype conflict_kind = WriteInvolved | ReadOnlyOnly

record dag_conflict =
  cf_account :: pubkey
  cf_a :: node_id
  cf_b :: node_id
  cf_kind :: conflict_kind

record dag =
  dag_nodes :: "user_intent list"
  dag_edges :: "node_id list list"
  dag_rev_edges :: "node_id list list"
  dag_conflicts :: "dag_conflict list"
  dag_edge_set :: "(node_id \<times> node_id) set"

datatype dag_error = CycleDetected | IndexOob

record participant =
  pt_node :: node_id
  pt_access :: access_kind
  pt_sort_key :: "int \<times> nat"

section \<open>\<open>Dag::build\<close>\<close>

definition order_key :: "user_intent \<Rightarrow> nat \<Rightarrow> int \<times> nat" where
  "order_key intent idx = (- int (unat (ui_priority intent)), idx)"

fun push_participants ::
    "node_id \<Rightarrow> int \<times> nat \<Rightarrow> account_access list \<Rightarrow> (pubkey \<rightharpoonup> participant list)
      \<Rightarrow> (pubkey \<rightharpoonup> participant list)" where
  "push_participants nid key [] m = m"
| "push_participants nid key (a # as) m =
     (let old = (case m (aa_pubkey a) of None \<Rightarrow> [] | Some ps \<Rightarrow> ps);
          p = \<lparr>pt_node = nid, pt_access = aa_access a, pt_sort_key = key\<rparr>
      in push_participants nid key as (m(aa_pubkey a \<mapsto> old @ [p])))"

fun fill_by_account ::
    "nat \<Rightarrow> user_intent list \<Rightarrow> (pubkey \<rightharpoonup> participant list) \<Rightarrow> (pubkey \<rightharpoonup> participant list)" where
  "fill_by_account idx [] m = m"
| "fill_by_account idx (intent # is) m =
     fill_by_account (Suc idx) is
       (push_participants idx (order_key intent idx) (ui_accesses intent) m)"

definition writer_positions :: "participant list \<Rightarrow> (nat \<times> node_id) list" where
  "writer_positions parts =
     map (\<lambda>(pos, p). (pos, pt_node p)) (filter (\<lambda>(pos, p). pt_access p = Writable) (enumerate 0 parts))"

definition add_edge :: "pubkey \<Rightarrow> node_id \<Rightarrow> node_id \<Rightarrow> dag \<times> dag_conflict list \<Rightarrow> dag \<times> dag_conflict list" where
  "add_edge account u v s =
     (case s of (d, buf) \<Rightarrow>
        if u \<noteq> v \<and> (u, v) \<notin> dag_edge_set d
        then (d\<lparr>dag_edge_set := insert (u, v) (dag_edge_set d),
                dag_edges := (dag_edges d)[u := dag_edges d ! u @ [v]],
                dag_rev_edges := (dag_rev_edges d)[v := dag_rev_edges d ! v @ [u]]\<rparr>,
              buf @ [\<lparr>cf_account = account, cf_a = u, cf_b = v, cf_kind = WriteInvolved\<rparr>])
        else (d, buf))"

fun add_later ::
    "pubkey \<Rightarrow> node_id \<Rightarrow> participant list \<Rightarrow> dag \<times> dag_conflict list \<Rightarrow> dag \<times> dag_conflict list" where
  "add_later account u [] s = s"
| "add_later account u (p # ps) s = add_later account u ps (add_edge account u (pt_node p) s)"

fun add_writers ::
    "pubkey \<Rightarrow> participant list \<Rightarrow> (nat \<times> node_id) list \<Rightarrow> dag \<times> dag_conflict list
      \<Rightarrow> dag \<times> dag_conflict list" where
  "add_writers account parts [] s = s"
| "add_writers account parts ((wpos, wnode) # ws) s =
     add_writers account parts ws (add_later account wnode (drop (wpos + 1) parts) s)"

definition add_account ::
    "pubkey \<Rightarrow> participant list \<Rightarrow> dag \<times> dag_conflict list \<Rightarrow> dag \<times> dag_conflict list" where
  "add_account account parts s =
     (if list_all (\<lambda>p. pt_access p = ReadOnly) parts then s
      else let parts = sort_key pt_sort_key parts
           in add_writers account parts (writer_positions parts) s)"

fun add_accounts ::
    "(pubkey \<rightharpoonup> participant list) \<Rightarrow> pubkey list \<Rightarrow> dag \<times> dag_conflict list \<Rightarrow> dag \<times> dag_conflict list" where
  "add_accounts m [] s = s"
| "add_accounts m (account # order) s =
     add_accounts m order
       (case m account of None \<Rightarrow> s | Some parts \<Rightarrow> add_account account parts s)"

fun dedup_conflicts ::
    "dag_conflict list \<Rightarrow> (pubkey \<times> node_id \<times> node_id) set \<Rightarrow> dag_conflict list" where
  "dedup_conflicts [] uniq = []"
| "dedup_conflicts (c # cs) uniq =
     (let key = (cf_account c, cf_a c, cf_b c)
      in if key \<in> uniq then dedup_conflicts cs uniq
         else c # dedup_conflicts cs (insert key uniq))"

definition dag_init :: "user_intent list \<Rightarrow> dag" where
  "dag_init intents =
     \<lparr>dag_nodes = intents, dag_edges = replicate (length intents) [],
      dag_rev_edges = replicate (length intents) [], dag_conflicts = [], dag_edge_set = {}\<rparr>"

definition by_account :: "user_intent list \<Rightarrow> (pubkey \<rightharpoonup> participant list)" where
  "by_account intents = fill_by_account 0 intents Map.empty"

definition dag_build :: "pubkey list \<Rightarrow> user_intent list \<Rightarrow> dag" where
  "dag_build order intents =
     (case add_accounts (by_account intents) order (dag_init intents, []) of
        (d, conflict_buf) \<Rightarrow> d\<lparr>dag_conflicts := dedup_conflicts conflict_buf {}\<rparr>)"

section \<open>\<open>topo_order\<close>\<close>

definition in_degrees :: "dag \<Rightarrow> nat list" where
  "in_degrees d = map length (take (length (dag_nodes d)) (dag_rev_edges d))
     @ replicate (length (dag_nodes d) - length (dag_rev_edges d)) 0"

definition zero_nodes :: "nat list \<Rightarrow> node_id list" where
  "zero_nodes indeg = filter (\<lambda>v. indeg ! v = 0) [0..<length indeg]"

text \<open>
  The body shared by both algorithms: lower the in-degree of each successor (saturating at 0)
  and \<open>push\<close> it when it reaches 0.
\<close>

fun relax_succs :: "(node_id \<Rightarrow> 'q \<Rightarrow> 'q) \<Rightarrow> node_id list \<Rightarrow> nat list \<times> 'q \<Rightarrow> nat list \<times> 'q" where
  "relax_succs push [] s = s"
| "relax_succs push (v # vs) (indeg, q) =
     (let dv = indeg ! v - 1
      in relax_succs push vs (indeg[v := dv], if dv = 0 then push v q else q))"

text \<open>The indices the loop body uses are in range (otherwise the access panics).\<close>

definition succs_ok :: "node_id list list \<Rightarrow> nat list \<Rightarrow> node_id \<Rightarrow> bool" where
  "succs_ok edges indeg u \<longleftrightarrow> u < length edges \<and> list_all (\<lambda>v. v < length indeg) (edges ! u)"

partial_function (option) kahn_loop ::
    "node_id list list \<Rightarrow> nat list \<Rightarrow> node_id list \<Rightarrow> node_id list \<Rightarrow> node_id list option" where
  "kahn_loop edges indeg q out =
     (case q of
        [] \<Rightarrow> Some out
      | u # q' \<Rightarrow>
          if succs_ok edges indeg u
          then (case relax_succs (\<lambda>v q. q @ [v]) (edges ! u) (indeg, q') of
                  (indeg', q'') \<Rightarrow> kahn_loop edges indeg' q'' (out @ [u]))
          else None)"

definition topo_order :: "dag \<Rightarrow> (dag_error + node_id list) option" where
  "topo_order d =
     (let n = length (dag_nodes d); indeg = in_degrees d
      in case kahn_loop (dag_edges d) indeg (zero_nodes indeg) [] of
           None \<Rightarrow> None
         | Some out \<Rightarrow> Some (if length out \<noteq> n then Inl CycleDetected else Inr out))"

section \<open>\<open>layers\<close>\<close>

fun relax_layer ::
    "node_id list list \<Rightarrow> node_id list \<Rightarrow> nat list \<times> node_id list \<Rightarrow> (nat list \<times> node_id list) option" where
  "relax_layer edges [] s = Some s"
| "relax_layer edges (u # us) (indeg, nxt) =
     (if succs_ok edges indeg u
      then relax_layer edges us (relax_succs insort_insert (edges ! u) (indeg, nxt))
      else None)"

partial_function (option) layers_loop ::
    "node_id list list \<Rightarrow> nat list \<Rightarrow> node_id list \<Rightarrow> nat \<Rightarrow> node_id list list
      \<Rightarrow> (node_id list list \<times> nat) option" where
  "layers_loop edges indeg frontier remaining acc =
     (if frontier = [] then Some (acc, remaining)
      else case relax_layer edges frontier (indeg, []) of
             None \<Rightarrow> None
           | Some (indeg', next_frontier) \<Rightarrow>
               if length frontier > remaining then None
               else layers_loop edges indeg' next_frontier (remaining - length frontier) (acc @ [frontier]))"

definition dag_layers :: "dag \<Rightarrow> (dag_error + node_id list list) option" where
  "dag_layers d =
     (let n = length (dag_nodes d); indeg = in_degrees d
      in case layers_loop (dag_edges d) indeg (bts_extend [] (zero_nodes indeg)) n [] of
           None \<Rightarrow> None
         | Some (ls, remaining) \<Rightarrow> Some (if remaining \<noteq> 0 then Inl CycleDetected else Inr ls))"

definition neighbors :: "dag \<Rightarrow> node_id \<Rightarrow> dag_error + node_id list" where
  "neighbors d u = (if u < length (dag_edges d) then Inr (dag_edges d ! u) else Inl IndexOob)"

definition predecessors :: "dag \<Rightarrow> node_id \<Rightarrow> dag_error + node_id list" where
  "predecessors d v = (if v < length (dag_rev_edges d) then Inr (dag_rev_edges d ! v) else Inl IndexOob)"


section \<open>Participants\<close>

text \<open>The entries an intent contributes to an account's participant list, and the whole list.\<close>

definition entry_for :: "nat \<Rightarrow> user_intent \<Rightarrow> account_access \<Rightarrow> participant" where
  "entry_for idx intent a = \<lparr>pt_node = idx, pt_access = aa_access a, pt_sort_key = order_key intent idx\<rparr>"

definition is_participant :: "user_intent list \<Rightarrow> pubkey \<Rightarrow> participant \<Rightarrow> bool" where
  "is_participant intents k p \<longleftrightarrow>
     (\<exists>i < length intents. \<exists>a \<in> set (ui_accesses (intents ! i)).
        aa_pubkey a = k \<and> p = entry_for i (intents ! i) a)"

lemma is_participantI:
  "i < length intents \<Longrightarrow> a \<in> set (ui_accesses (intents ! i)) \<Longrightarrow> aa_pubkey a = k \<Longrightarrow>
   is_participant intents k (entry_for i (intents ! i) a)"
  by (auto simp: is_participant_def)

definition parts_of :: "(pubkey \<rightharpoonup> participant list) \<Rightarrow> pubkey \<Rightarrow> participant list" where
  "parts_of m k = (case m k of None \<Rightarrow> [] | Some ps \<Rightarrow> ps)"

lemma parts_of_push_participants:
  "parts_of (push_participants nid key as m) k =
     parts_of m k @ map (\<lambda>a. \<lparr>pt_node = nid, pt_access = aa_access a, pt_sort_key = key\<rparr>)
                      (filter (\<lambda>a. aa_pubkey a = k) as)"
  by (induction as arbitrary: m) (auto simp: Let_def parts_of_def split: option.splits)

lemma set_parts_of_fill:
  "set (parts_of (fill_by_account idx is m) k) =
     set (parts_of m k) \<union>
     {entry_for (idx + i) (is ! i) a | i a. i < length is \<and> a \<in> set (ui_accesses (is ! i)) \<and> aa_pubkey a = k}"
proof (induction "is" arbitrary: idx m)
  case (Cons x xs)
  have split: "{entry_for (idx + i) ((x # xs) ! i) a | i a.
          i < length (x # xs) \<and> a \<in> set (ui_accesses ((x # xs) ! i)) \<and> aa_pubkey a = k} =
        {entry_for idx x a | a. a \<in> set (ui_accesses x) \<and> aa_pubkey a = k} \<union>
        {entry_for (Suc idx + i) (xs ! i) a | i a. i < length xs \<and> a \<in> set (ui_accesses (xs ! i)) \<and> aa_pubkey a = k}"
    (is "?L = ?A \<union> ?B")
  proof (intro equalityI subsetI)
    fix p assume "p \<in> ?L"
    then obtain i a where "p = entry_for (idx + i) ((x # xs) ! i) a" "i < length (x # xs)"
      "a \<in> set (ui_accesses ((x # xs) ! i))" "aa_pubkey a = k" by blast
    then show "p \<in> ?A \<union> ?B" by (cases i) auto
  next
    fix p assume "p \<in> ?A \<union> ?B"
    then show "p \<in> ?L"
    proof
      assume "p \<in> ?A" then show ?thesis by force
    next
      assume "p \<in> ?B"
      then obtain i a where *: "p = entry_for (Suc idx + i) (xs ! i) a" "i < length xs"
        "a \<in> set (ui_accesses (xs ! i))" "aa_pubkey a = k" by blast
      then show ?thesis
        by (intro CollectI exI [of _ "Suc i"] exI [of _ a]) simp
    qed
  qed
  show ?case
    unfolding fill_by_account.simps Cons.IH parts_of_push_participants split
    by (auto simp: entry_for_def)
qed simp

lemma set_parts_of_by_account:
  "set (parts_of (by_account intents) k) = {p. is_participant intents k p}"
  unfolding by_account_def set_parts_of_fill
  by (auto simp: is_participant_def parts_of_def)

section \<open>Requests: the pairs the build loops pass to \<open>add_edge\<close>\<close>

definition account_requests :: "participant list \<Rightarrow> (node_id \<times> node_id) list" where
  "account_requests parts =
     concat (map (\<lambda>(wpos, w). map (\<lambda>p. (w, pt_node p)) (drop (wpos + 1) parts)) (writer_positions parts))"

definition add_requests ::
    "pubkey \<Rightarrow> (node_id \<times> node_id) list \<Rightarrow> dag \<times> dag_conflict list \<Rightarrow> dag \<times> dag_conflict list" where
  "add_requests account reqs s = fold (\<lambda>(u, v). add_edge account u v) reqs s"

lemma add_later_requests: "add_later account u ps s = add_requests account (map (\<lambda>p. (u, pt_node p)) ps) s"
  by (induction ps arbitrary: s) (simp_all add: add_requests_def)

lemma add_writers_requests:
  "add_writers account parts ws s =
     add_requests account (concat (map (\<lambda>(wpos, w). map (\<lambda>p. (w, pt_node p)) (drop (wpos + 1) parts)) ws)) s"
proof (induction ws arbitrary: s)
  case (Cons w ws)
  then show ?case by (cases w) (simp add: add_later_requests add_requests_def)
qed (simp add: add_requests_def)

lemma set_writer_positions:
  "(i, w) \<in> set (writer_positions parts) \<longleftrightarrow>
     i < length parts \<and> pt_access (parts ! i) = Writable \<and> w = pt_node (parts ! i)"
  unfolding writer_positions_def
  by (auto simp: in_set_enumerate_eq image_iff)

lemma set_account_requests:
  "(u, v) \<in> set (account_requests parts) \<longleftrightarrow>
     (\<exists>p q. before_in parts p q \<and> pt_access p = Writable \<and> pt_node p = u \<and> pt_node q = v)"
proof
  assume "(u, v) \<in> set (account_requests parts)"
  then obtain i q where i: "(i, u) \<in> set (writer_positions parts)" and q: "q \<in> set (drop (i + 1) parts)"
    and v: "v = pt_node q"
    unfolding account_requests_def by auto
  from q obtain j where j: "j < length parts - (i + 1)" "q = parts ! (i + 1 + j)"
    by (auto simp: in_set_conv_nth)
  have "before_in parts (parts ! i) q"
    unfolding before_in_def using j by (intro exI [of _ i] exI [of _ "i + 1 + j"]) simp
  with i v show "\<exists>p q. before_in parts p q \<and> pt_access p = Writable \<and> pt_node p = u \<and> pt_node q = v"
    unfolding set_writer_positions by blast
next
  assume "\<exists>p q. before_in parts p q \<and> pt_access p = Writable \<and> pt_node p = u \<and> pt_node q = v"
  then obtain i j where ij: "i < j" "j < length parts" "pt_access (parts ! i) = Writable"
    "pt_node (parts ! i) = u" "pt_node (parts ! j) = v"
    unfolding before_in_def by blast
  then have "(i, u) \<in> set (writer_positions parts)"
    unfolding set_writer_positions by simp
  moreover have "parts ! j \<in> set (drop (i + 1) parts)"
    using ij by (auto simp: in_set_conv_nth intro!: exI [of _ "j - (i + 1)"])
  ultimately show "(u, v) \<in> set (account_requests parts)"
    unfolding account_requests_def using ij(5) by force
qed

lemma account_requests_read_only:
  "list_all (\<lambda>p. pt_access p = ReadOnly) parts \<Longrightarrow> set (account_requests parts) = {}"
proof -
  assume ro: "list_all (\<lambda>p. pt_access p = ReadOnly) parts"
  have "(u, v) \<notin> set (account_requests parts)" for u v
    unfolding set_account_requests using ro before_in_set by (fastforce simp: list_all_iff)
  then show ?thesis by (intro equals0I) (metis surj_pair)
qed

lemma before_in_sort_key:
  fixes f :: "'a \<Rightarrow> 'k::linorder"
  assumes "f p \<noteq> f q"
  shows "before_in (sort_key f xs) p q \<longleftrightarrow> p \<in> set xs \<and> q \<in> set xs \<and> f p < f q"
proof
  assume b: "before_in (sort_key f xs) p q"
  then obtain i j where ij: "i < j" "j < length xs" "sort_key f xs ! i = p" "sort_key f xs ! j = q"
    unfolding before_in_def by auto
  have "sorted (map f (sort_key f xs))" by simp
  from sorted_nth_mono [OF this, of i j] have "f p \<le> f q"
    using ij by simp
  then show "p \<in> set xs \<and> q \<in> set xs \<and> f p < f q"
    using assms before_in_set [OF b] by simp
next
  assume *: "p \<in> set xs \<and> q \<in> set xs \<and> f p < f q"
  then obtain i j where i: "i < length xs" "sort_key f xs ! i = p" and j: "j < length xs" "sort_key f xs ! j = q"
    by (metis in_set_conv_nth length_sort set_sort)
  have "i < j"
  proof (rule ccontr)
    assume "\<not> i < j"
    then have "f q \<le> f p"
      using sorted_nth_mono [of "map f (sort_key f xs)" j i] i j by simp
    then show False using * leD by blast
  qed
  then show "before_in (sort_key f xs) p q"
    unfolding before_in_def using i j by auto
qed

section \<open>The state of the build loops\<close>

text \<open>
  Adjacency lists, reverse lists, edge set and conflict buffer describe the same simple graph,
  without self-loops, on the indices of the intents.
\<close>

definition dag_wf :: "user_intent list \<Rightarrow> dag \<times> dag_conflict list \<Rightarrow> bool" where
  "dag_wf intents s \<longleftrightarrow>
     (let d = fst s; buf = snd s; n = length intents
      in dag_nodes d = intents \<and> length (dag_edges d) = n \<and> length (dag_rev_edges d) = n
         \<and> dag_edge_set d \<subseteq> {(u, v). u < n \<and> v < n \<and> u \<noteq> v}
         \<and> (\<forall>u < n. distinct (dag_edges d ! u) \<and> set (dag_edges d ! u) = {v. (u, v) \<in> dag_edge_set d})
         \<and> (\<forall>v < n. distinct (dag_rev_edges d ! v) \<and> set (dag_rev_edges d ! v) = {u. (u, v) \<in> dag_edge_set d})
         \<and> distinct (map (\<lambda>c. (cf_a c, cf_b c)) buf)
         \<and> (\<lambda>c. (cf_a c, cf_b c)) ` set buf = dag_edge_set d)"

lemma add_edge_edge_set:
  "dag_edge_set (fst (add_edge k u v s)) = dag_edge_set (fst s) \<union> {e. e = (u, v) \<and> u \<noteq> v}"
  by (cases s) (auto simp: add_edge_def)

lemma dag_wf_add_edge:
  assumes wf: "dag_wf intents s" and uv: "u < length intents" "v < length intents"
  shows "dag_wf intents (add_edge k u v s)"
proof (cases "u \<noteq> v \<and> (u, v) \<notin> dag_edge_set (fst s)")
  case False
  then show ?thesis using wf by (cases s) (auto simp: add_edge_def)
next
  case True
  obtain d buf where s: "s = (d, buf)" by (cases s)
  have len: "length (dag_edges d) = length intents" "length (dag_rev_edges d) = length intents"
    using wf by (simp_all add: s dag_wf_def Let_def)
  have e: "\<forall>w < length intents. distinct ((dag_edges d)[u := dag_edges d ! u @ [v]] ! w) \<and>
      set ((dag_edges d)[u := dag_edges d ! u @ [v]] ! w) = {x. (w, x) \<in> insert (u, v) (dag_edge_set d)}"
    using wf True uv len by (auto simp: s dag_wf_def Let_def nth_list_update)
  have r: "\<forall>w < length intents. distinct ((dag_rev_edges d)[v := dag_rev_edges d ! v @ [u]] ! w) \<and>
      set ((dag_rev_edges d)[v := dag_rev_edges d ! v @ [u]] ! w) = {x. (x, w) \<in> insert (u, v) (dag_edge_set d)}"
    using wf True uv len by (auto simp: s dag_wf_def Let_def nth_list_update)
  have c: "(u, v) \<notin> (\<lambda>c. (cf_a c, cf_b c)) ` set buf"
    using wf True by (simp add: s dag_wf_def Let_def)
  show ?thesis
    using wf True uv e r c by (simp add: s add_edge_def dag_wf_def Let_def)
qed

lemma add_requests_edge_set:
  "dag_edge_set (fst (add_requests k reqs s)) = dag_edge_set (fst s) \<union> {(u, v) \<in> set reqs. u \<noteq> v}"
proof (induction reqs arbitrary: s)
  case (Cons r reqs)
  then show ?case
    by (cases r) (auto simp: add_requests_def add_edge_edge_set)
qed (simp add: add_requests_def)

lemma dag_wf_add_requests:
  assumes "dag_wf intents s" and "\<forall>(u, v) \<in> set reqs. u < length intents \<and> v < length intents"
  shows "dag_wf intents (add_requests k reqs s)"
  using assms
proof (induction reqs arbitrary: s)
  case (Cons r reqs)
  then show ?case
    by (cases r) (auto simp: add_requests_def dag_wf_add_edge)
qed (simp add: add_requests_def)

lemma add_account_requests:
  "add_account k parts s = add_requests k (account_requests (sort_key pt_sort_key parts)) s"
proof (cases "list_all (\<lambda>p. pt_access p = ReadOnly) parts")
  case True
  then have "list_all (\<lambda>p. pt_access p = ReadOnly) (sort_key pt_sort_key parts)"
    by (simp add: list_all_iff)
  from account_requests_read_only [OF this] True show ?thesis
    by (simp add: add_account_def add_requests_def)
next
  case False
  then show ?thesis
    by (simp only: add_account_def if_False Let_def add_writers_requests account_requests_def)
qed

text \<open>The edges one account asks for, and those of a whole intent list.\<close>

definition account_edges :: "user_intent list \<Rightarrow> pubkey \<Rightarrow> (node_id \<times> node_id) set" where
  "account_edges intents k =
     {(u, v). u < length intents \<and> v < length intents
        \<and> order_key (intents ! u) u < order_key (intents ! v) v
        \<and> \<lparr>aa_pubkey = k, aa_access = Writable\<rparr> \<in> set (ui_accesses (intents ! u))
        \<and> k \<in> aa_pubkey ` set (ui_accesses (intents ! v))}"

lemma order_key_inj: "order_key i u = order_key j v \<Longrightarrow> u = v"
  by (simp add: order_key_def)

lemma account_requests_edges:
  "{(u, v) \<in> set (account_requests (sort_key pt_sort_key (parts_of (by_account intents) k))). u \<noteq> v}
     = account_edges intents k"
  (is "?L = _")
proof (intro equalityI subrelI)
  fix u v assume "(u, v) \<in> ?L"
  then obtain p q where b: "before_in (sort_key pt_sort_key (parts_of (by_account intents) k)) p q"
    and p: "pt_access p = Writable" "pt_node p = u" and q: "pt_node q = v" and "u \<noteq> v"
    by (auto simp: set_account_requests)
  have pq: "is_participant intents k p" "is_participant intents k q"
    using before_in_set [OF b] by (simp_all add: set_parts_of_by_account)
  then have ne: "pt_sort_key p \<noteq> pt_sort_key q"
    using p(2) q \<open>u \<noteq> v\<close> by (auto simp: is_participant_def entry_for_def dest: order_key_inj)
  have "pt_sort_key p < pt_sort_key q"
    using b before_in_sort_key [of pt_sort_key, OF ne] by blast
  with pq p q show "(u, v) \<in> account_edges intents k"
    by (auto simp: is_participant_def entry_for_def account_edges_def intro: rev_image_eqI)
       (metis account_access.surjective old.unit.exhaust)
next
  fix u v assume a: "(u, v) \<in> account_edges intents k"
  then obtain b where b: "b \<in> set (ui_accesses (intents ! v))" "aa_pubkey b = k"
    by (auto simp: account_edges_def)
  let ?p = "entry_for u (intents ! u) \<lparr>aa_pubkey = k, aa_access = Writable\<rparr>"
  let ?q = "entry_for v (intents ! v) b"
  have lt: "pt_sort_key ?p < pt_sort_key ?q"
    using a by (simp add: account_edges_def entry_for_def)
  have "is_participant intents k ?p"
    by (rule is_participantI) (use a in \<open>simp_all add: account_edges_def\<close>)
  moreover have "is_participant intents k ?q"
    by (rule is_participantI) (use a b in \<open>simp_all add: account_edges_def\<close>)
  ultimately have "before_in (sort_key pt_sort_key (parts_of (by_account intents) k)) ?p ?q"
    using lt by (simp add: before_in_sort_key set_parts_of_by_account)
  then have "(u, v) \<in> set (account_requests (sort_key pt_sort_key (parts_of (by_account intents) k)))"
    unfolding set_account_requests by (intro exI [of _ ?p] exI [of _ ?q]) (simp add: entry_for_def)
  moreover have "u \<noteq> v"
    using lt by (auto simp: entry_for_def)
  ultimately show "(u, v) \<in> ?L" by simp
qed

lemma add_accounts_edge_set:
  "dag_edge_set (fst (add_accounts (by_account intents) order s)) =
     dag_edge_set (fst s) \<union> (\<Union>k \<in> set order. account_edges intents k)"
proof (induction order arbitrary: s)
  case (Cons k order)
  let ?s = "case by_account intents k of None \<Rightarrow> s | Some parts \<Rightarrow> add_account k parts s"
  have "dag_edge_set (fst ?s) = dag_edge_set (fst s) \<union> account_edges intents k"
    using account_requests_edges [of intents k]
    by (auto simp: parts_of_def add_account_requests add_requests_edge_set account_requests_def
          writer_positions_def split: option.splits)
  with Cons show ?case by auto
qed simp

lemma dag_wf_add_accounts:
  "dag_wf intents s \<Longrightarrow> dag_wf intents (add_accounts (by_account intents) order s)"
proof (induction order arbitrary: s)
  case (Cons k order)
  have "dag_wf intents (add_account k parts s)" if "by_account intents k = Some parts" for parts
    unfolding add_account_requests
  proof (rule dag_wf_add_requests [OF Cons.prems], clarify)
    fix u v assume "(u, v) \<in> set (account_requests (sort_key pt_sort_key parts))"
    then obtain p q where "before_in (sort_key pt_sort_key parts) p q" "pt_node p = u" "pt_node q = v"
      unfolding set_account_requests by blast
    moreover have "set parts = {p. is_participant intents k p}"
      using that set_parts_of_by_account [of intents k] by (simp add: parts_of_def)
    ultimately show "u < length intents \<and> v < length intents"
      using before_in_set by (fastforce simp: is_participant_def entry_for_def)
  qed
  then show ?case
    using Cons by (auto split: option.split)
qed simp

lemma dag_wf_init: "dag_wf intents (dag_init intents, [])"
  by (simp add: dag_wf_def dag_init_def)

lemma dedup_conflicts_distinct:
  "distinct (map (\<lambda>c. (cf_a c, cf_b c)) cs) \<Longrightarrow>
   (\<forall>c \<in> set cs. (cf_account c, cf_a c, cf_b c) \<notin> uniq) \<Longrightarrow> dedup_conflicts cs uniq = cs"
proof (induction cs arbitrary: uniq)
  case (Cons c cs)
  have "\<forall>x \<in> set cs. (cf_account x, cf_a x, cf_b x) \<notin> insert (cf_account c, cf_a c, cf_b c) uniq"
    using Cons.prems by (simp add: image_iff) (metis prod.inject)
  with Cons show ?case by (simp add: Let_def)
qed simp

text \<open>What the build returns, in terms of the graph alone.\<close>

definition intent_edges :: "pubkey set \<Rightarrow> user_intent list \<Rightarrow> (node_id \<times> node_id) set" where
  "intent_edges ks intents = (\<Union>k \<in> ks. account_edges intents k)"

lemma dag_build_wf: "dag_wf intents (dag_build order intents, dag_conflicts (dag_build order intents))"
proof -
  obtain d buf where s: "add_accounts (by_account intents) order (dag_init intents, []) = (d, buf)"
    by (cases "add_accounts (by_account intents) order (dag_init intents, [])")
  have wf: "dag_wf intents (d, buf)"
    using dag_wf_add_accounts [OF dag_wf_init, of intents order] by (simp add: s)
  then have "dedup_conflicts buf {} = buf"
    by (intro dedup_conflicts_distinct) (simp_all add: dag_wf_def Let_def)
  with wf show ?thesis
    by (simp add: dag_build_def s dag_wf_def Let_def)
qed

lemma dag_build_edge_set: "dag_edge_set (dag_build order intents) = intent_edges (set order) intents"
proof -
  obtain d buf where s: "add_accounts (by_account intents) order (dag_init intents, []) = (d, buf)"
    by (cases "add_accounts (by_account intents) order (dag_init intents, [])")
  then have "dag_edge_set (dag_build order intents) = dag_edge_set d"
    by (simp add: dag_build_def)
  also have "\<dots> = intent_edges (set order) intents"
    using add_accounts_edge_set [of intents order "(dag_init intents, [])"]
    unfolding s fst_conv intent_edges_def by (simp add: dag_init_def)
  finally show ?thesis .
qed

text \<open>A map order that lists every account makes the edges those of all accounts.\<close>

definition covers_accounts :: "pubkey list \<Rightarrow> user_intent list \<Rightarrow> bool" where
  "covers_accounts order intents \<longleftrightarrow>
     list_all (\<lambda>i. list_all (\<lambda>a. aa_pubkey a \<in> set order) (ui_accesses i)) intents"

lemma intent_edges_covers:
  assumes "covers_accounts order intents"
  shows "intent_edges (set order) intents = intent_edges UNIV intents"
proof -
  have "k \<in> set order" if "(u, v) \<in> account_edges intents k" for u v k
    using assms that by (auto simp: covers_accounts_def list_all_iff account_edges_def)
  then show ?thesis by (fastforce simp: intent_edges_def)
qed
end
