(* ===== verification/DagOrder.thy ===== *)
theory DagOrder
  imports Dag
begin

text \<open>
  Correctness of \<open>topo_order\<close> and \<open>layers\<close> (bundler/src/dag/mod.rs). The locale
  \<open>ranked_dag\<close> states what Kahn's algorithm needs of a graph: adjacency and reverse adjacency lists
  that agree, without duplicates, and a rank that every edge raises. The build of \<open>Dag\<close>
  provides it, with the order key of the intents as the rank.
\<close>

section \<open>The interface\<close>

locale ranked_dag =
  fixes d :: dag and rank :: "node_id \<Rightarrow> 'r::linorder"
  assumes len_edges: "length (dag_edges d) = length (dag_nodes d)"
    and len_rev: "length (dag_rev_edges d) = length (dag_nodes d)"
    and edges_range: "(u, v) \<in> dag_edge_set d \<Longrightarrow> u < length (dag_nodes d) \<and> v < length (dag_nodes d)"
    and edges_adj: "u < length (dag_nodes d) \<Longrightarrow>
          distinct (dag_edges d ! u) \<and> set (dag_edges d ! u) = {v. (u, v) \<in> dag_edge_set d}"
    and rev_adj: "v < length (dag_nodes d) \<Longrightarrow>
          distinct (dag_rev_edges d ! v) \<and> set (dag_rev_edges d ! v) = {u. (u, v) \<in> dag_edge_set d}"
    and rank_mono: "(u, v) \<in> dag_edge_set d \<Longrightarrow> rank u < rank v"
begin

abbreviation size_n :: nat where "size_n \<equiv> length (dag_nodes d)"

abbreviation edge :: "node_id \<Rightarrow> node_id \<Rightarrow> bool" where "edge u v \<equiv> (u, v) \<in> dag_edge_set d"

definition pending :: "node_id list \<Rightarrow> node_id \<Rightarrow> node_id set" where
  "pending out v = {u. edge u v \<and> u \<notin> set out}"

text \<open>
  The invariant of both loops: a queue \<open>q\<close> and an output \<open>out\<close> that together hold the nodes of
  in-degree 0, each once, where the in-degree counts the predecessors not yet output.
\<close>

definition kinv :: "nat list \<Rightarrow> node_id list \<Rightarrow> node_id list \<Rightarrow> bool" where
  "kinv indeg q out \<longleftrightarrow>
     length indeg = size_n \<and> distinct (out @ q) \<and> set (out @ q) \<subseteq> {..<size_n}
     \<and> (\<forall>v < size_n. indeg ! v = card (pending out v))
     \<and> (\<forall>v < size_n. v \<in> set (out @ q) \<longleftrightarrow> indeg ! v = 0)"

lemma finite_preds: "finite {u. edge u v}"
proof -
  have "{u. edge u v} \<subseteq> {..<size_n}" using edges_range by auto
  then show ?thesis by (rule finite_subset) simp
qed

lemma finite_pending [simp]: "finite (pending out v)"
  by (rule finite_subset [OF _ finite_preds]) (auto simp: pending_def)

lemma in_degrees_eq: "in_degrees d = map length (dag_rev_edges d)"
  by (simp add: in_degrees_def len_rev)

lemma in_degrees_nth: "v < size_n \<Longrightarrow> in_degrees d ! v = card (pending [] v)"
  using rev_adj [of v] distinct_card [of "dag_rev_edges d ! v"]
  by (simp add: in_degrees_eq len_rev pending_def)

lemma kinv_init: "kinv (in_degrees d) (zero_nodes (in_degrees d)) []"
  by (auto simp: kinv_def zero_nodes_def in_degrees_eq len_rev)
     (use in_degrees_nth in \<open>simp add: in_degrees_eq len_rev\<close>)

lemma kinv_cong: "kinv indeg q out \<Longrightarrow> mset q = mset q' \<Longrightarrow> kinv indeg q' out"
  unfolding kinv_def
  by (metis (no_types, lifting) distinct_append mset_eq_imp_distinct_iff mset_eq_setD set_append)

end


section \<open>Relaxing the successors of a node\<close>

definition push_ok :: "(node_id \<Rightarrow> node_id list \<Rightarrow> node_id list) \<Rightarrow> bool" where
  "push_ok push \<longleftrightarrow> (\<forall>v q. v \<notin> set q \<longrightarrow> mset (push v q) = add_mset v (mset q))"

lemma push_ok_append: "push_ok (\<lambda>v q. q @ [v])"
  by (simp add: push_ok_def)

lemma push_ok_insort: "push_ok insort_insert"
  by (simp add: push_ok_def insort_insert_insort)

lemma push_ok_set: "push_ok push \<Longrightarrow> v \<notin> set q \<Longrightarrow> set (push v q) = insert v (set q)"
  unfolding push_ok_def by (metis set_mset_add_mset_insert set_mset_mset)

lemma mset_fold_push:
  "push_ok push \<Longrightarrow> distinct vs \<Longrightarrow> set vs \<inter> set q = {} \<Longrightarrow> mset (fold push vs q) = mset q + mset vs"
proof (induction vs arbitrary: q)
  case (Cons v vs)
  then have "set vs \<inter> set (push v q) = {}" by (simp add: push_ok_set)
  with Cons show ?case by (simp add: push_ok_def)
qed simp

lemma relax_succs_eq:
  "distinct vs \<Longrightarrow> set vs \<subseteq> {..<length indeg} \<Longrightarrow>
   relax_succs push vs (indeg, q) =
     (map (\<lambda>w. indeg ! w - (if w \<in> set vs then 1 else 0)) [0..<length indeg],
      fold push (filter (\<lambda>v. indeg ! v \<le> 1) vs) q)"
proof (induction vs arbitrary: indeg q)
  case Nil
  then show ?case by (simp add: map_nth)
next
  case (Cons v vs)
  let ?indeg = "indeg[v := indeg ! v - 1]"
  have ne: "w \<noteq> v" if "w \<in> set vs" for w
    using that Cons.prems by auto
  have "filter (\<lambda>w. ?indeg ! w \<le> 1) vs = filter (\<lambda>w. indeg ! w \<le> 1) vs"
    by (intro filter_cong refl) (simp add: ne [symmetric])
  moreover have "map (\<lambda>w. ?indeg ! w - (if w \<in> set vs then 1 else 0)) [0..<length indeg] =
      map (\<lambda>w. indeg ! w - (if w \<in> set (v # vs) then 1 else 0)) [0..<length indeg]"
    using Cons.prems by (intro map_cong) (auto simp: nth_list_update)
  ultimately show ?case
    using Cons.prems Cons.IH [of ?indeg "if indeg ! v - 1 = 0 then push v q else q"]
    by (auto simp: Let_def)
qed

context ranked_dag
begin

lemma pending_snoc:
  assumes "u \<notin> set out" and "v < size_n" "u < size_n"
  shows "card (pending (out @ [u]) v) = card (pending out v) - (if v \<in> set (dag_edges d ! u) then 1 else 0)"
proof -
  have "pending (out @ [u]) v = pending out v - {u}" by (auto simp: pending_def)
  moreover have "u \<in> pending out v \<longleftrightarrow> v \<in> set (dag_edges d ! u)"
    using assms edges_adj [of u] by (simp add: pending_def)
  ultimately show ?thesis by (simp add: card_Diff_singleton_if)
qed

lemma dag_succs_ok: "u < size_n \<Longrightarrow> length indeg = size_n \<Longrightarrow> succs_ok (dag_edges d) indeg u"
  using edges_adj [of u] edges_range [of u] by (auto simp: succs_ok_def len_edges list_all_iff)

lemma kinv_step:
  assumes inv: "kinv indeg (u # us @ nxt) out" and push: "push_ok push"
    and r: "relax_succs push (dag_edges d ! u) (indeg, nxt) = (indeg', nxt')"
  shows "kinv indeg' (us @ nxt') (out @ [u])"
    and "set nxt' = set nxt \<union> {v. v < size_n \<and> v \<notin> set (out @ u # us @ nxt) \<and> indeg' ! v = 0}"
proof -
  have len: "length indeg = size_n" and u: "u < size_n" "u \<notin> set out"
    and dis: "distinct (out @ u # us @ nxt)" and sub: "set (out @ u # us @ nxt) \<subseteq> {..<size_n}"
    and deg: "\<And>v. v < size_n \<Longrightarrow> indeg ! v = card (pending out v)"
    and zero: "\<And>v. v < size_n \<Longrightarrow> v \<in> set (out @ u # us @ nxt) \<longleftrightarrow> indeg ! v = 0"
    using inv by (auto simp: kinv_def)
  let ?S = "dag_edges d ! u"
  have S: "distinct ?S" "set ?S = {v. edge u v}" "set ?S \<subseteq> {..<size_n}"
    using edges_adj [OF u(1)] edges_range by auto
  have pos: "indeg ! v > 0" if "v \<in> set ?S" for v
  proof -
    have "u \<in> pending out v" using that S u(2) by (simp add: pending_def)
    then have "card (pending out v) > 0" by (metis card_gt_0_iff empty_iff finite_pending)
    then show ?thesis using that S deg by auto
  qed
  let ?new = "filter (\<lambda>v. indeg ! v \<le> 1) ?S"
  have indeg': "indeg' = map (\<lambda>w. indeg ! w - (if w \<in> set ?S then 1 else 0)) [0..<size_n]"
    and nxt': "nxt' = fold push ?new nxt"
    using r relax_succs_eq [of ?S indeg push nxt] S len by auto
  have deg': "indeg' ! v = card (pending (out @ [u]) v)" if "v < size_n" for v
    using that by (simp add: indeg' deg pending_snoc u)
  have new: "v \<notin> set (out @ u # us @ nxt)" "v < size_n" if "v \<in> set ?new" for v
    using that pos [of v] zero [of v] S by auto
  have m: "mset nxt' = mset nxt + mset ?new"
    unfolding nxt' using new S by (intro mset_fold_push [OF push]) auto
  then have set': "set nxt' = set nxt \<union> set ?new"
    by (metis set_mset_mset set_mset_union)
  have new_iff: "v \<in> set ?new \<longleftrightarrow> v \<notin> set (out @ u # us @ nxt) \<and> indeg' ! v = 0" if "v < size_n" for v
    using that new [of v] zero [of v] by (auto simp: indeg' split: if_splits)
  show *: "set nxt' = set nxt \<union> {v. v < size_n \<and> v \<notin> set (out @ u # us @ nxt) \<and> indeg' ! v = 0}"
    using set' new new_iff by blast
  have "distinct nxt' \<longleftrightarrow> distinct (nxt @ ?new)"
    using m by (intro mset_eq_imp_distinct_iff) simp
  then have dis': "distinct ((out @ [u]) @ us @ nxt')"
    using dis new S set' by auto
  have mem: "v \<in> set ((out @ [u]) @ us @ nxt') \<longleftrightarrow> indeg' ! v = 0" if "v < size_n" for v
    using that zero [of v] * by (auto simp: indeg')
  have sub': "set ((out @ [u]) @ us @ nxt') \<subseteq> {..<size_n}"
    using sub * by auto
  have "length indeg' = size_n" by (simp add: indeg')
  then show "kinv indeg' (us @ nxt') (out @ [u])"
    unfolding kinv_def using dis' sub' deg' mem by blast
qed

lemma kinv_Nil:
  assumes "kinv indeg [] out"
  shows "set out = {..<size_n}" and "length out = size_n"
proof -
  have "v \<in> set out" if "v < size_n" for v
    using that
  proof (induction "card {u. u < size_n \<and> rank u < rank v}" arbitrary: v rule: less_induct)
    case (less v)
    have "pending out v = {}"
    proof (rule ccontr)
      assume "pending out v \<noteq> {}"
      then obtain u where u: "edge u v" "u \<notin> set out" by (auto simp: pending_def)
      then have un: "u < size_n" and ruv: "rank u < rank v" using edges_range rank_mono by auto
      have "{w. w < size_n \<and> rank w < rank u} \<subset> {w. w < size_n \<and> rank w < rank v}"
        using un ruv by (auto intro: less_trans)
      then have "card {w. w < size_n \<and> rank w < rank u} < card {w. w < size_n \<and> rank w < rank v}"
        by (intro psubset_card_mono) auto
      from less.hyps [OF this un] u(2) show False by simp
    qed
    with assms less.prems show ?case by (auto simp: kinv_def)
  qed
  with assms show s: "set out = {..<size_n}" by (auto simp: kinv_def)
  have "distinct out" using assms by (simp add: kinv_def)
  with s show "length out = size_n" by (metis card_lessThan distinct_card)
qed

end

section \<open>\<open>topo_order\<close>\<close>

text \<open>Every predecessor of an element stands before it.\<close>

definition preds_first :: "(node_id \<times> node_id) set \<Rightarrow> node_id list \<Rightarrow> bool" where
  "preds_first es out \<longleftrightarrow> (\<forall>i < length out. \<forall>u. (u, out ! i) \<in> es \<longrightarrow> u \<in> set (take i out))"

lemma preds_first_snoc:
  "preds_first es out \<Longrightarrow> {u. (u, v) \<in> es} \<subseteq> set out \<Longrightarrow> preds_first es (out @ [v])"
  by (auto simp: preds_first_def nth_append less_Suc_eq)

lemma preds_first_before:
  assumes "preds_first es out" and "v \<in> set out" and "(u, v) \<in> es"
  shows "before_in out u v"
proof -
  obtain i where i: "i < length out" "out ! i = v" using assms(2) by (auto simp: in_set_conv_nth)
  then have "u \<in> set (take i out)" using assms(1, 3) by (auto simp: preds_first_def)
  then obtain j where "j < i" "out ! j = u" by (auto simp: in_set_conv_nth)
  then show ?thesis using i by (auto simp: before_in_def)
qed

context ranked_dag
begin

lemma kinv_head:
  assumes "kinv indeg (u # q) out"
  shows "u < size_n" and "length indeg = size_n" and "pending out u = {}"
    and "length out < size_n" and "{w. edge w u} \<subseteq> set out"
proof -
  show u: "u < size_n" and len: "length indeg = size_n" using assms by (auto simp: kinv_def)
  show p: "pending out u = {}"
    using assms u by (auto simp: kinv_def card_eq_0_iff)
  then show "{w. edge w u} \<subseteq> set out" by (auto simp: pending_def)
  have "length (out @ [u]) = card (set (out @ [u]))"
    using assms by (subst distinct_card) (auto simp: kinv_def)
  also have "\<dots> \<le> card {..<size_n}"
    using assms by (intro card_mono) (auto simp: kinv_def)
  finally show "length out < size_n" by simp
qed

lemma kahn_loop_returns:
  assumes "kinv indeg q out" and "preds_first (dag_edge_set d) out"
  shows "\<exists>out' indeg'. kahn_loop (dag_edges d) indeg q out = Some out'
           \<and> kinv indeg' [] out' \<and> preds_first (dag_edge_set d) out'"
  using assms
proof (induction "size_n - length out" arbitrary: indeg q out rule: less_induct)
  case less
  show ?case
  proof (cases q)
    case Nil
    with less.prems show ?thesis
      by (subst kahn_loop.simps) auto
  next
    case (Cons u q')
    note h = kinv_head [OF less.prems(1) [unfolded Cons]]
    obtain indeg' q'' where r: "relax_succs (\<lambda>v q. q @ [v]) (dag_edges d ! u) (indeg, q') = (indeg', q'')"
      by fastforce
    have "kinv indeg' ([] @ q'') (out @ [u])"
      by (rule kinv_step [OF _ push_ok_append r]) (use less.prems Cons in simp)
    moreover have "preds_first (dag_edge_set d) (out @ [u])"
      by (rule preds_first_snoc [OF less.prems(2) h(5)])
    ultimately have "\<exists>out' indeg''. kahn_loop (dag_edges d) indeg' q'' (out @ [u]) = Some out'
        \<and> kinv indeg'' [] out' \<and> preds_first (dag_edge_set d) out'"
      using less.hyps [of "out @ [u]" indeg' q''] h(4) by simp
    then show ?thesis
      using Cons r dag_succs_ok [OF h(1,2)] by (subst kahn_loop.simps) simp
  qed
qed

lemma topo_order_returns:
  "\<exists>out. topo_order d = Some (Inr out) \<and> set out = {..<size_n} \<and> distinct out
     \<and> (\<forall>u v. edge u v \<longrightarrow> before_in out u v)"
proof -
  have "preds_first (dag_edge_set d) []" by (simp add: preds_first_def)
  from kahn_loop_returns [OF kinv_init this] obtain out indeg'
    where out: "kahn_loop (dag_edges d) (in_degrees d) (zero_nodes (in_degrees d)) [] = Some out"
      and inv: "kinv indeg' [] out" and pf: "preds_first (dag_edge_set d) out" by blast
  have s: "set out = {..<size_n}" "length out = size_n" "distinct out"
    using kinv_Nil [OF inv] inv by (simp_all add: kinv_def)
  have "before_in out u v" if "edge u v" for u v
    using preds_first_before [OF pf _ that] s(1) edges_range [OF that] by simp
  with s out show ?thesis by (simp add: topo_order_def Let_def)
qed

end

section \<open>\<open>layers\<close>\<close>

text \<open>
  Every predecessor of a node stands in an earlier layer, and every node of a later layer has
  one in the layer just before its own.
\<close>

definition layers_closed :: "(node_id \<times> node_id) set \<Rightarrow> node_id list list \<Rightarrow> bool" where
  "layers_closed es ls \<longleftrightarrow>
     (\<forall>i < length ls. \<forall>v \<in> set (ls ! i). {u. (u, v) \<in> es} \<subseteq> set (concat (take i ls)))"

definition layers_linked :: "(node_id \<times> node_id) set \<Rightarrow> node_id list list \<Rightarrow> bool" where
  "layers_linked es ls \<longleftrightarrow>
     (\<forall>i. Suc i < length ls \<longrightarrow> (\<forall>v \<in> set (ls ! Suc i). \<exists>u \<in> set (ls ! i). (u, v) \<in> es))"

lemma layers_closed_snoc:
  "layers_closed es ls \<Longrightarrow> \<forall>v \<in> set l. {u. (u, v) \<in> es} \<subseteq> set (concat ls) \<Longrightarrow> layers_closed es (ls @ [l])"
  by (auto simp: layers_closed_def nth_append less_Suc_eq)

lemma layers_linked_snoc:
  "layers_linked es ls \<Longrightarrow> ls = [] \<or> (\<forall>v \<in> set l. \<exists>u \<in> set (last ls). (u, v) \<in> es) \<Longrightarrow>
   layers_linked es (ls @ [l])"
proof -
  assume l: "layers_linked es ls" and n: "ls = [] \<or> (\<forall>v \<in> set l. \<exists>u \<in> set (last ls). (u, v) \<in> es)"
  have "\<exists>u \<in> set ((ls @ [l]) ! i). (u, v) \<in> es"
    if i: "Suc i < length (ls @ [l])" and v: "v \<in> set ((ls @ [l]) ! Suc i)" for i v
  proof (cases "Suc i < length ls")
    case True
    with l v show ?thesis by (auto simp: layers_linked_def nth_append)
  next
    case False
    with i have "Suc i = length ls" by simp
    moreover from this have "ls ! i = last ls" by (metis diff_Suc_1 last_conv_nth length_0_conv nat.distinct(1))
    ultimately show ?thesis using n v by (auto simp: nth_append)
  qed
  then show ?thesis unfolding layers_linked_def by blast
qed

context ranked_dag
begin

lemma sorted_relax_succs:
  "relax_succs insort_insert vs (indeg, nxt) = (indeg', nxt') \<Longrightarrow> sorted nxt \<Longrightarrow> sorted nxt'"
  by (induction vs arbitrary: indeg nxt) (auto simp: Let_def sorted_insort_insert split: if_splits)

lemma relax_layer_returns:
  "kinv indeg (us @ nxt) out \<Longrightarrow> sorted nxt \<Longrightarrow>
   \<exists>indeg' nxt'. relax_layer (dag_edges d) us (indeg, nxt) = Some (indeg', nxt')
     \<and> kinv indeg' nxt' (out @ us) \<and> sorted nxt'"
proof (induction us arbitrary: indeg nxt out)
  case (Cons u us)
  note h = kinv_head [OF Cons.prems(1) [simplified]]
  obtain indeg' nxt' where r: "relax_succs insort_insert (dag_edges d ! u) (indeg, nxt) = (indeg', nxt')"
    by fastforce
  have k: "kinv indeg' (us @ nxt') (out @ [u])"
    by (rule kinv_step [OF _ push_ok_insort r]) (use Cons.prems in simp)
  have "sorted nxt'"
    by (rule sorted_relax_succs [OF r Cons.prems(2)])
  from Cons.IH [OF k this] r dag_succs_ok [OF h(1,2)] show ?case by simp
qed simp


lemma layer_link:
  assumes "kinv indeg fr out" and "kinv indeg' nxt (out @ fr)" and "v \<in> set nxt"
  shows "\<exists>u \<in> set fr. edge u v"
proof -
  have v: "v < size_n" "v \<notin> set (out @ fr)"
    using assms(2,3) by (auto simp: kinv_def)
  then have "indeg ! v \<noteq> 0" and "indeg' ! v = 0"
    using assms by (auto simp: kinv_def)
  then have "pending out v \<noteq> {}" and "pending (out @ fr) v = {}"
    using assms(1,2) v by (auto simp: kinv_def)
  then show ?thesis by (auto simp: pending_def)
qed

lemma kinv_no_preds: "kinv indeg fr out \<Longrightarrow> \<forall>v \<in> set fr. {u. edge u v} \<subseteq> set out"
proof (intro ballI)
  fix v assume k: "kinv indeg fr out" and v: "v \<in> set fr"
  from this have "v < size_n" by (auto simp: kinv_def)
  with k v have "indeg ! v = 0 \<and> indeg ! v = card (pending out v)" by (auto simp: kinv_def simp del: card_eq_0_iff)
  then have "pending out v = {}" by (metis card_0_eq finite_pending)
  then show "{u. edge u v} \<subseteq> set out" by (auto simp: pending_def)
qed

lemma kinv_length: "kinv indeg fr out \<Longrightarrow> length out + length fr \<le> size_n"
proof -
  assume k: "kinv indeg fr out"
  have "length (out @ fr) = card (set (out @ fr))"
    using k by (subst distinct_card) (auto simp: kinv_def)
  also have "\<dots> \<le> card {..<size_n}" using k by (intro card_mono) (auto simp: kinv_def)
  finally show ?thesis by simp
qed

definition linv :: "nat list \<Rightarrow> node_id list \<Rightarrow> node_id list list \<Rightarrow> bool" where
  "linv indeg frontier ls \<longleftrightarrow>
     kinv indeg frontier (concat ls) \<and> sorted frontier
     \<and> layers_closed (dag_edge_set d) ls \<and> layers_linked (dag_edge_set d) (ls @ [frontier])
     \<and> (\<forall>l \<in> set ls. l \<noteq> [] \<and> sorted l)"

lemma linv_step:
  assumes "linv indeg fr ls" and "fr \<noteq> []" and "kinv indeg' nxt (concat ls @ fr)" and "sorted nxt"
  shows "linv indeg' nxt (ls @ [fr])"
  unfolding linv_def
proof (intro conjI)
  show "kinv indeg' nxt (concat (ls @ [fr]))" "sorted nxt" using assms by simp_all
  show "layers_closed (dag_edge_set d) (ls @ [fr])"
    using assms(1) kinv_no_preds [of indeg fr "concat ls"]
    by (intro layers_closed_snoc) (simp_all add: linv_def)
  show "layers_linked (dag_edge_set d) ((ls @ [fr]) @ [nxt])"
    by (rule layers_linked_snoc)
       (use assms layer_link [of indeg fr "concat ls" indeg' nxt] in \<open>auto simp: linv_def\<close>)
  show "\<forall>l \<in> set (ls @ [fr]). l \<noteq> [] \<and> sorted l" using assms by (auto simp: linv_def)
qed

lemma layers_loop_returns:
  assumes "linv indeg fr ls" and "remaining + length (concat ls) = size_n"
  shows "\<exists>out indeg'. layers_loop (dag_edges d) indeg fr remaining ls = Some (out, 0) \<and> linv indeg' [] out"
  using assms
proof (induction remaining arbitrary: indeg fr ls rule: less_induct)
  case (less remaining)
  have k: "kinv indeg fr (concat ls)" using less.prems by (simp add: linv_def)
  show ?case
  proof (cases "fr = []")
    case True
    then show ?thesis
      using less.prems kinv_Nil(2) [of indeg "concat ls"] k by (subst layers_loop.simps) auto
  next
    case False
    have "kinv indeg (fr @ []) (concat ls)" using k by simp
    from relax_layer_returns [OF this] obtain indeg' nxt where
      r: "relax_layer (dag_edges d) fr (indeg, []) = Some (indeg', nxt)"
      and k': "kinv indeg' nxt (concat ls @ fr)" and s: "sorted nxt" by auto
    have le: "length fr \<le> remaining" using kinv_length [OF k] less.prems(2) by simp
    have "linv indeg' nxt (ls @ [fr])" by (rule linv_step [OF less.prems(1) False k' s])
    moreover have "remaining - length fr < remaining" using False le by (cases fr) auto
    moreover have "(remaining - length fr) + length (concat (ls @ [fr])) = size_n"
      using less.prems(2) le by simp
    ultimately have "\<exists>out indeg''. layers_loop (dag_edges d) indeg' nxt (remaining - length fr) (ls @ [fr]) = Some (out, 0)
        \<and> linv indeg'' [] out"
      using less.IH by blast
    then show ?thesis using False r le by (subst layers_loop.simps) simp
  qed
qed

lemma layers_returns:
  "\<exists>ls. dag_layers d = Some (Inr ls) \<and> set (concat ls) = {..<size_n} \<and> distinct (concat ls)
     \<and> layers_closed (dag_edge_set d) ls \<and> layers_linked (dag_edge_set d) ls
     \<and> (\<forall>l \<in> set ls. l \<noteq> [] \<and> sorted l)"
proof -
  have z: "bts_extend [] (zero_nodes (in_degrees d)) = zero_nodes (in_degrees d)"
    unfolding zero_nodes_def
    by (subst bts_extend_eq_sorted_list_of_set) (auto intro!: sorted_list_of_set.idem_if_sorted_distinct
          simp del: set_filter simp: sorted_wrt_filter)
  have "linv (in_degrees d) (zero_nodes (in_degrees d)) []"
    using kinv_init by (auto simp: linv_def layers_closed_def layers_linked_def zero_nodes_def sorted_wrt_filter)
  from layers_loop_returns [OF this, of size_n] obtain out indeg' where
    out: "layers_loop (dag_edges d) (in_degrees d) (zero_nodes (in_degrees d)) size_n [] = Some (out, 0)"
    and l: "linv indeg' [] out" by auto
  have "set (concat out) = {..<size_n}" "distinct (concat out)"
    using kinv_Nil(1) [of indeg' "concat out"] l by (simp_all add: linv_def kinv_def)
  moreover have "layers_linked (dag_edge_set d) out"
    using l by (auto simp: linv_def layers_linked_def nth_append split: if_splits)
  ultimately show ?thesis
    using out l z by (simp add: dag_layers_def Let_def linv_def)
qed

end

section \<open>Layerings are unique\<close>

text \<open>
  A layering of a graph on the nodes below \<open>n\<close>: a partition into non-empty ascending layers, with
  every edge going to a later layer, and no node later than it has to be.
\<close>

definition layering :: "(node_id \<times> node_id) set \<Rightarrow> nat \<Rightarrow> node_id list list \<Rightarrow> bool" where
  "layering es n ls \<longleftrightarrow>
     set (concat ls) = {..<n} \<and> distinct (concat ls) \<and> layers_closed es ls \<and> layers_linked es ls
     \<and> (\<forall>l \<in> set ls. l \<noteq> [] \<and> sorted l)"

definition in_layer :: "node_id list list \<Rightarrow> nat \<Rightarrow> node_id \<Rightarrow> bool" where
  "in_layer ls i v \<longleftrightarrow> i < length ls \<and> v \<in> set (ls ! i)"

lemma in_layer_concat: "v \<in> set (concat ls) \<longleftrightarrow> (\<exists>i. in_layer ls i v)"
  unfolding in_layer_def set_concat by (metis UN_iff in_set_conv_nth)

lemma in_layer_take: "v \<in> set (concat (take i ls)) \<Longrightarrow> \<exists>j < i. in_layer ls j v"
  unfolding in_layer_concat by (auto simp: in_layer_def)

lemma in_layer_unique: "distinct (concat ls) \<Longrightarrow> in_layer ls i v \<Longrightarrow> in_layer ls j v \<Longrightarrow> i = j"
proof (induction ls arbitrary: i j)
  case (Cons l ls)
  have notl: "v \<notin> set l" if "in_layer (l # ls) (Suc k) v" for k
  proof -
    have "v \<in> set (concat ls)"
      using that unfolding in_layer_concat by (auto simp: in_layer_def)
    then show ?thesis using Cons.prems(1) by auto
  qed
  show ?case
    using Cons notl by (cases i; cases j) (auto simp: in_layer_def)
qed (simp add: in_layer_def)

lemma layering_mono:
  assumes L: "layering es n ls" and L': "layering es n ls'"
    and IH: "\<And>j v. j < i \<Longrightarrow> in_layer ls j v \<longleftrightarrow> in_layer ls' j v"
    and v: "in_layer ls i v"
  shows "in_layer ls' i v"
proof -
  have "v \<in> set (concat ls)" using v in_layer_concat by blast
  then have "v \<in> set (concat ls')" using L L' unfolding layering_def by blast
  then obtain j where j: "in_layer ls' j v" using in_layer_concat by blast
  have "\<not> j < i"
    using IH [of j v] j v L in_layer_unique [of ls i v j] by (auto simp: layering_def)
  moreover have "\<not> i < j"
  proof
    assume "i < j"
    then obtain j' where j': "j = Suc j'" "i \<le> j'" by (cases j) auto
    have "layers_linked es ls'" and "layers_closed es ls" using L L' by (simp_all add: layering_def)
    then obtain u where u: "in_layer ls' j' u" "(u, v) \<in> es"
      using j j'(1) unfolding layers_linked_def in_layer_def by (meson Suc_lessD)
    have "{u. (u, v) \<in> es} \<subseteq> set (concat (take i ls))"
      using v \<open>layers_closed es ls\<close> unfolding in_layer_def layers_closed_def by blast
    with u(2) have "u \<in> set (concat (take i ls))" by blast
    then obtain m where m: "m < i" "in_layer ls m u" using in_layer_take by blast
    then have "m = j'"
      using IH [of m u] u L' in_layer_unique [of ls' m u j'] by (auto simp: layering_def)
    with m j' show False by simp
  qed
  ultimately show ?thesis using j by (metis linorder_neqE_nat)
qed

lemma layering_unique:
  assumes L: "layering es n ls" and L': "layering es n ls'"
  shows "ls = ls'"
proof -
  have eq: "in_layer ls i v \<longleftrightarrow> in_layer ls' i v" for i v
  proof (induction i arbitrary: v rule: less_induct)
    case (less i)
    show ?case using layering_mono [OF L L'] layering_mono [OF L' L] less by blast
  qed
  have ne: "\<exists>v. in_layer ls i v" if "layering es n ls" "i < length ls" for i ls
    using that unfolding in_layer_def layering_def by (metis last_in_set nth_mem)
  have "i < length ls \<longleftrightarrow> i < length ls'" for i
    using ne [OF L, of i] ne [OF L', of i] eq by (auto simp: in_layer_def)
  then have len: "length ls = length ls'" by (metis linorder_neqE_nat less_irrefl)
  show ?thesis
  proof (rule nth_equalityI [OF len])
    fix i assume i: "i < length ls"
    have "set (ls ! i) = set (ls' ! i)"
      using eq [of i] i len by (auto simp: in_layer_def)
    moreover have "sorted (ls ! i)" "sorted (ls' ! i)"
      using i len L L' by (auto simp: layering_def)
    moreover have "distinct (ls ! i)" "distinct (ls' ! i)"
      using i len L L' by (auto simp: layering_def distinct_concat_iff)
    ultimately show "ls ! i = ls' ! i" by (simp add: sorted_distinct_set_unique)
  qed
qed

section \<open>The built DAG\<close>

interpretation built: ranked_dag "dag_build order intents" "\<lambda>i. order_key (intents ! i) i"
  for order intents
proof unfold_locales
  note wf = dag_build_wf [of intents order]
  show "length (dag_edges (dag_build order intents)) = length (dag_nodes (dag_build order intents))"
    and "length (dag_rev_edges (dag_build order intents)) = length (dag_nodes (dag_build order intents))"
    using wf by (auto simp: dag_wf_def Let_def)
  fix u v
  show "u < length (dag_nodes (dag_build order intents)) \<Longrightarrow>
      distinct (dag_edges (dag_build order intents) ! u) \<and>
      set (dag_edges (dag_build order intents) ! u) = {v. (u, v) \<in> dag_edge_set (dag_build order intents)}"
    using wf by (auto simp: dag_wf_def Let_def)
  show "v < length (dag_nodes (dag_build order intents)) \<Longrightarrow>
      distinct (dag_rev_edges (dag_build order intents) ! v) \<and>
      set (dag_rev_edges (dag_build order intents) ! v) = {u. (u, v) \<in> dag_edge_set (dag_build order intents)}"
    using wf by (auto simp: dag_wf_def Let_def)
  assume e: "(u, v) \<in> dag_edge_set (dag_build order intents)"
  show "u < length (dag_nodes (dag_build order intents)) \<and> v < length (dag_nodes (dag_build order intents))"
    using wf e by (auto simp: dag_wf_def Let_def)
  show "order_key (intents ! u) u < order_key (intents ! v) v"
    using e by (auto simp: dag_build_edge_set intent_edges_def account_edges_def)
qed

lemma dag_nodes_build [simp]: "dag_nodes (dag_build order intents) = intents"
  using dag_build_wf [of intents order] by (simp add: dag_wf_def Let_def)

lemma dag_layers_build:
  "dag_layers (dag_build order intents) = Some (Inr ls) \<longleftrightarrow>
     layering (intent_edges (set order) intents) (length intents) ls"
proof -
  obtain ls' where ls': "dag_layers (dag_build order intents) = Some (Inr ls')"
    "layering (intent_edges (set order) intents) (length intents) ls'"
    using built.layers_returns [of order intents]
    by (auto simp: layering_def dag_build_edge_set)
  then show ?thesis using layering_unique by auto
qed

section \<open>Properties\<close>

lemma kahn_loop_code [code]:
  "kahn_loop edges indeg [] out = Some out"
  "kahn_loop edges indeg (u # q') out =
     (if succs_ok edges indeg u
      then (case relax_succs (\<lambda>v q. q @ [v]) (edges ! u) (indeg, q') of
              (indeg', q'') \<Rightarrow> kahn_loop edges indeg' q'' (out @ [u]))
      else None)"
  by (subst kahn_loop.simps; simp)+

lemma layers_loop_code [code]:
  "layers_loop edges indeg [] remaining acc = Some (acc, remaining)"
  "layers_loop edges indeg (u # us) remaining acc =
     (case relax_layer edges (u # us) (indeg, []) of
        None \<Rightarrow> None
      | Some (indeg', next_frontier) \<Rightarrow>
          if length (u # us) > remaining then None
          else layers_loop edges indeg' next_frontier (remaining - length (u # us)) (acc @ [u # us]))"
  by (subst layers_loop.simps; simp)+

text \<open>Intents that touch the given accounts, for the concrete runs below.\<close>

definition sample_intent :: "u8 \<Rightarrow> (pubkey \<times> access_kind) list \<Rightarrow> user_intent" where
  "sample_intent priority accesses =
     \<lparr>ui_actor = 0, ui_ix = \<lparr>ix_program_id = 0, ix_accounts = [], ix_data = []\<rparr>,
      ui_accesses = map (\<lambda>(k, a). \<lparr>aa_pubkey = k, aa_access = a\<rparr>) accesses,
      ui_priority = priority, ui_expires_at_slot = None\<rparr>"

text \<open>
  C4: The build makes an edge from one intent to another exactly when the first comes earlier in
  the order (priority descending, then index ascending) and writes an account the second touches.
  Adjacency lists, reverse lists and conflict list describe this same edge set.
\<close>

theorem dag_build_edges:
  assumes "covers_accounts order intents"
  shows "dag_edge_set (dag_build order intents) =
      {(u, v). u < length intents \<and> v < length intents
         \<and> order_key (intents ! u) u < order_key (intents ! v) v
         \<and> (\<exists>k. \<lparr>aa_pubkey = k, aa_access = Writable\<rparr> \<in> set (ui_accesses (intents ! u))
              \<and> k \<in> aa_pubkey ` set (ui_accesses (intents ! v)))}
    \<and> dag_wf intents (dag_build order intents, dag_conflicts (dag_build order intents))"
  using dag_build_wf [of intents order] intent_edges_covers [OF assms]
  by (auto simp: dag_build_edge_set intent_edges_def account_edges_def)

theorem dag_build_edges_witness:
  "(0, 1) \<in> dag_edge_set (dag_build [7] [sample_intent 1 [(7, Writable)], sample_intent 0 [(7, ReadOnly)]])"
  using dag_build_edges [of "[7]" "[sample_intent 1 [(7, Writable)], sample_intent 0 [(7, ReadOnly)]]"]
  by (simp add: covers_accounts_def sample_intent_def order_key_def)

text \<open>
  C5: \<open>topo_order\<close> of a built DAG returns: every node once, each edge's source before its target,
  whatever order the map was walked in. \<open>CycleDetected\<close> never happens.
\<close>

theorem dag_topo_order_correct:
  "\<exists>out. topo_order (dag_build order intents) = Some (Inr out)
     \<and> mset out = mset [0..<length intents]
     \<and> dag_edge_set (dag_build order intents) \<subseteq> {(u, v). before_in out u v}"
proof -
  obtain out where out: "topo_order (dag_build order intents) = Some (Inr out)"
    "set out = {..<length intents}" "distinct out"
    "\<forall>u v. (u, v) \<in> dag_edge_set (dag_build order intents) \<longrightarrow> before_in out u v"
    using built.topo_order_returns [of order intents] by auto
  then have "mset out = mset [0..<length intents]"
    by (metis atLeast_upt distinct_upt set_eq_iff_mset_eq_distinct)
  with out show ?thesis by blast
qed

text \<open>
  C6: \<open>layers\<close> of a built DAG returns the one layering of its edges: a partition of the nodes into
  non-empty ascending layers in which every edge leads to a later layer and every node stands in
  the earliest layer possible.
\<close>

theorem dag_layers_correct:
  "\<exists>ls. dag_layers (dag_build order intents) = Some (Inr ls)
     \<and> Collect (layering (dag_edge_set (dag_build order intents)) (length intents)) = {ls}"
proof -
  obtain ls where "layering (dag_edge_set (dag_build order intents)) (length intents) ls"
    using built.layers_returns [of order intents] by (auto simp: layering_def)
  then show ?thesis
    using layering_unique by (intro exI [of _ ls]) (auto simp: dag_layers_build dag_build_edge_set)
qed

text \<open>
  C8: The layers do not depend on the iteration order of the map.
\<close>

theorem dag_layers_deterministic:
  assumes "covers_accounts order intents" and "covers_accounts order' intents"
  shows "dag_layers (dag_build order intents) = dag_layers (dag_build order' intents)"
proof -
  obtain ls where "dag_layers (dag_build order intents) = Some (Inr ls)"
    using built.layers_returns [of order intents] by blast
  moreover from this have "dag_layers (dag_build order' intents) = Some (Inr ls)"
    using assms by (simp add: dag_layers_build intent_edges_covers)
  ultimately show ?thesis by simp
qed

theorem dag_layers_deterministic_witness:
  "dag_layers (dag_build [7, 8] [sample_intent 1 [(7, Writable), (8, Writable)], sample_intent 0 [(7, ReadOnly), (8, Writable)]])
     = dag_layers (dag_build [8, 7] [sample_intent 1 [(7, Writable), (8, Writable)], sample_intent 0 [(7, ReadOnly), (8, Writable)]])"
  by (rule dag_layers_deterministic) code_simp+

text \<open>
  C7: Within a layer no intent writes an account that another intent of the layer touches and
  that comes later in the order; in particular no two intents of a layer write the same account.
\<close>

theorem dag_layer_conflict_free:
  assumes "covers_accounts order intents" and "dag_layers (dag_build order intents) = Some (Inr ls)"
    and "i < length ls" and "u \<in> set (ls ! i)" and "v \<in> set (ls ! i)"
    and "order_key (intents ! u) u < order_key (intents ! v) v"
    and "k \<in> aa_pubkey ` set (ui_accesses (intents ! v))"
  shows "\<lparr>aa_pubkey = k, aa_access = Writable\<rparr> \<notin> set (ui_accesses (intents ! u))"
proof
  assume w: "\<lparr>aa_pubkey = k, aa_access = Writable\<rparr> \<in> set (ui_accesses (intents ! u))"
  have L: "layering (intent_edges UNIV intents) (length intents) ls"
    using assms(1,2) by (simp add: dag_layers_build intent_edges_covers)
  have "u < length intents" "v < length intents"
    using L assms(3-5) by (auto simp: layering_def dest: nth_mem)
  then have e: "(u, v) \<in> intent_edges UNIV intents"
    using w assms(6,7) by (auto simp: intent_edges_def account_edges_def)
  have "{u. (u, v) \<in> intent_edges UNIV intents} \<subseteq> set (concat (take i ls))"
    using L assms(3,5) unfolding layering_def layers_closed_def by blast
  with e have "u \<in> set (concat (take i ls))" by blast
  then obtain j where "j < i" "in_layer ls j u" using in_layer_take by blast
  moreover have "in_layer ls i u" using assms(3,4) by (simp add: in_layer_def)
  ultimately show False using L in_layer_unique by (auto simp: layering_def)
qed

theorem dag_layer_conflict_free_witness:
  "\<lparr>aa_pubkey = 9, aa_access = Writable\<rparr> \<notin> set (ui_accesses (sample_intent 0 [(7, Writable)]))"
  using dag_layer_conflict_free
    [of "[7, 9]" "[sample_intent 0 [(7, Writable)], sample_intent 0 [(9, Writable)]]" "[[0, 1]]" 0 0 1 9]
  by (simp, code_simp)

text \<open>
  A read that comes before a write of the same account in the order is not sequenced: the two
  accesses conflict, but the build makes no edge and \<open>layers\<close> puts both intents in one layer; when
  the writer has the smaller index, \<open>topo_order\<close> even puts it before the reader of higher priority.
\<close>

lemma dag_read_before_write_unordered:
  "conflicts \<lparr>aa_pubkey = 7, aa_access = ReadOnly\<rparr> \<lparr>aa_pubkey = 7, aa_access = Writable\<rparr>
   \<and> dag_layers (dag_build [7] [sample_intent 5 [(7, ReadOnly)], sample_intent 0 [(7, Writable)]])
       = Some (Inr [[0, 1]])
   \<and> dag_edge_set (dag_build [7] [sample_intent 5 [(7, ReadOnly)], sample_intent 0 [(7, Writable)]]) = {}
   \<and> order_key (sample_intent 5 [(7, ReadOnly)]) 1 < order_key (sample_intent 4 [(7, Writable)]) 0
   \<and> topo_order (dag_build [7] [sample_intent 4 [(7, Writable)], sample_intent 5 [(7, ReadOnly)]])
       = Some (Inr [0, 1])"
  by code_simp

text \<open>
  The order \<open>topo_order\<close> returns does depend on the iteration order of the map.
\<close>

theorem dag_topo_order_map_dependent:
  "topo_order (dag_build [7, 8]
       [sample_intent 0 [(7, Writable), (8, Writable)], sample_intent 0 [(7, ReadOnly)], sample_intent 0 [(8, ReadOnly)]])
     = Some (Inr [0, 1, 2])
   \<and> topo_order (dag_build [8, 7]
       [sample_intent 0 [(7, Writable), (8, Writable)], sample_intent 0 [(7, ReadOnly)], sample_intent 0 [(8, ReadOnly)]])
     = Some (Inr [0, 2, 1])"
  by code_simp
end
