(* ===== verification/Chunking.thy ===== *)
theory Chunking
  imports Dag Estimator "HOL-Library.Code_Target_Nat"
begin

text \<open>
  The greedy chunker of bundler/src/chunking/mod.rs: budgets, the two CU oracles, the footprint of
  an intent, the accumulator of the open chunk and \<open>chunk_layer_with\<close>.

  Counts and costs are natural numbers; \<open>saturating_add\<close> and \<open>saturating_mul\<close> are cut at
  \<open>2 ^ 64 - 1\<close>, plain additions are exact (they overflow only beyond that bound). An out-of-range
  node id and a failed \<open>debug_assert!\<close> are panics, the value \<open>None\<close>; the flag \<open>dbg\<close> says whether
  debug assertions are compiled in.
\<close>

section \<open>Budgets and policies\<close>

record planned_chunk =
  pc_node_ids :: "node_id list"
  pc_est_cu :: nat
  pc_est_message_bytes :: nat
  pc_alt_readonly :: nat
  pc_alt_writable :: nat

record tx_budget =
  tb_max_bytes :: nat
  tb_byte_slack :: nat
  tb_max_unique_accounts :: nat
  tb_max_instructions :: nat
  tb_max_cu :: nat
  tb_default_cu_per_intent :: nat

definition tx_budget_default :: tx_budget where
  "tx_budget_default =
     \<lparr>tb_max_bytes = 1200, tb_byte_slack = 64, tb_max_unique_accounts = 48, tb_max_instructions = 30,
      tb_max_cu = 1200000, tb_default_cu_per_intent = 25000\<rparr>"

record alt_policy =
  ap_enabled :: bool
  ap_reserve_message_keys :: nat
  ap_max_alt_keys :: nat
  ap_table_count_estimate :: nat
  ap_per_table_fixed_bytes :: nat
  ap_per_alt_index_byte :: nat

definition alt_policy_default :: alt_policy where
  "alt_policy_default =
     \<lparr>ap_enabled = False, ap_reserve_message_keys = 32, ap_max_alt_keys = 64, ap_table_count_estimate = 1,
      ap_per_table_fixed_bytes = 34, ap_per_alt_index_byte = 1\<rparr>"

section \<open>Oracles\<close>

text \<open>\<open>BudgetOracle\<close>: its two methods, the bytes of an instruction and the units of an intent.\<close>

type_synonym budget_oracle = "(instruction \<Rightarrow> nat) \<times> (user_intent \<Rightarrow> nat)"

definition sv :: "nat \<Rightarrow> nat" where
  "sv n = (if n < 128 then 1 else if n < 16384 then 2 else 3)"

definition pa_instr_bytes :: "instruction \<Rightarrow> nat" where
  "pa_instr_bytes ix =
     (let accs = length (ix_accounts ix); data = length (ix_data ix)
      in 1 + sv accs + accs + sv data + data)"

fun per_acc_loop :: "account_meta list \<Rightarrow> nat \<Rightarrow> nat" where
  "per_acc_loop [] per_acc = per_acc"
| "per_acc_loop (m # ms) per_acc =
     per_acc_loop ms (per_acc + (if meta_is_writable m then 2500 else 1000))"

definition pa_cu_for_intent :: "user_intent \<Rightarrow> nat" where
  "pa_cu_for_intent intent =
     (let accs = ix_accounts (ui_ix intent);
          data_len = length (ix_data (ui_ix intent));
          base = 12000;
          per_acc = per_acc_loop accs 0;
          data_term = sat_times data_len 30
      in base + per_acc + data_term)"

definition program_aware_oracle :: budget_oracle where
  "program_aware_oracle = (pa_instr_bytes, pa_cu_for_intent)"

definition basic_oracle :: budget_oracle where
  "basic_oracle = (\<lambda>ix. 1 + sv (length (ix_accounts ix)) + length (ix_accounts ix)
                      + sv (length (ix_data ix)) + length (ix_data ix),
                   \<lambda>_. 0)"

section \<open>Footprints\<close>

datatype chunk_error = IntentTooLarge
  (ce_node_id: node_id) (ce_bytes: nat) (ce_message_unique: nat) (ce_alt_unique: nat) (ce_cu_units: nat)

definition BASE_MESSAGE_OVERHEAD :: nat where
  "BASE_MESSAGE_OVERHEAD = 3 + 32"

definition shortvec_len :: "nat \<Rightarrow> nat" where
  "shortvec_len n = (if n < 128 then 1 else if n < 16384 then 2 else 3)"

definition delta_sv :: "nat \<Rightarrow> nat \<Rightarrow> nat" where
  "delta_sv old new = shortvec_len new - shortvec_len old"

record key_meta =
  km_pubkey :: pubkey
  km_writable :: bool

record intent_footprint =
  fp_keys :: "key_meta list"
  fp_instr_bytes :: nat
  fp_intent_cu :: nat

definition from_intent :: "user_intent \<Rightarrow> tx_budget \<Rightarrow> budget_oracle \<Rightarrow> intent_footprint" where
  "from_intent intent budget oracle =
     (let ix = ui_ix intent;
          keys = \<lparr>km_pubkey = ix_program_id ix, km_writable = False\<rparr>
                   # map (\<lambda>m. \<lparr>km_pubkey = meta_pubkey m, km_writable = meta_is_writable m\<rparr>) (ix_accounts ix);
          cu = snd oracle intent;
          cu = (if cu = 0 then tb_default_cu_per_intent budget else cu)
      in \<lparr>fp_keys = keys, fp_instr_bytes = fst oracle ix, fp_intent_cu = cu\<rparr>)"

definition message_unique_len :: "intent_footprint \<Rightarrow> alt_policy \<Rightarrow> nat" where
  "message_unique_len self alt =
     (if \<not> ap_enabled alt then length (fp_keys self)
      else min (length (fp_keys self)) (ap_reserve_message_keys alt))"

definition alt_unique_len :: "intent_footprint \<Rightarrow> alt_policy \<Rightarrow> nat" where
  "alt_unique_len self alt =
     (if \<not> ap_enabled alt then 0 else length (fp_keys self) - ap_reserve_message_keys alt)"

definition fp_cu_estimate :: "intent_footprint \<Rightarrow> nat" where
  "fp_cu_estimate self = fp_intent_cu self"

definition self_bytes :: "intent_footprint \<Rightarrow> alt_policy \<Rightarrow> nat" where
  "self_bytes self alt =
     message_unique_len self alt * 32 + fp_instr_bytes self
       + alt_unique_len self alt * ap_per_alt_index_byte alt"

definition size_if_only_this :: "intent_footprint \<Rightarrow> tx_budget \<Rightarrow> alt_policy \<Rightarrow> nat" where
  "size_if_only_this fp budget alt =
     (let msg_uniq = message_unique_len fp alt;
          alt_uniq = alt_unique_len fp alt;
          sv_keys = shortvec_len msg_uniq;
          sv_instrs = shortvec_len 1;
          table_count = (if ap_enabled alt \<and> alt_uniq > 0 then ap_table_count_estimate alt else 0);
          sv_lookups = shortvec_len table_count
      in BASE_MESSAGE_OVERHEAD + tb_byte_slack budget + sv_keys + sv_lookups + sv_instrs + self_bytes fp alt
           + (if table_count > 0 then table_count * ap_per_table_fixed_bytes alt else 0))"

definition fits_in_empty :: "intent_footprint \<Rightarrow> tx_budget \<Rightarrow> alt_policy \<Rightarrow> bool" where
  "fits_in_empty fp budget alt \<longleftrightarrow>
     size_if_only_this fp budget alt \<le> tb_max_bytes budget
     \<and> message_unique_len fp alt \<le> tb_max_unique_accounts budget
     \<and> alt_unique_len fp alt \<le> ap_max_alt_keys alt
     \<and> 1 \<le> tb_max_instructions budget
     \<and> fp_cu_estimate fp \<le> tb_max_cu budget"

section \<open>The accumulator\<close>

record chunk_acc =
  acc_nodes :: "node_id list"
  acc_message_keys :: "pubkey list"
  acc_alt_keys :: "pubkey list"
  acc_alt_ro_keys :: "pubkey list"
  acc_alt_wr_keys :: "pubkey list"
  acc_bytes :: nat
  acc_cu :: nat
  acc_instrs :: nat
  acc_alt_used :: bool
  acc_budget :: tx_budget
  acc_alt :: alt_policy

definition acc_new :: "tx_budget \<Rightarrow> alt_policy \<Rightarrow> chunk_acc" where
  "acc_new budget alt =
     \<lparr>acc_nodes = [], acc_message_keys = [], acc_alt_keys = [], acc_alt_ro_keys = [], acc_alt_wr_keys = [],
      acc_bytes = BASE_MESSAGE_OVERHEAD + tb_byte_slack budget + shortvec_len 0 + shortvec_len 0 + shortvec_len 0,
      acc_cu = 0, acc_instrs = 0, acc_alt_used = False, acc_budget = budget, acc_alt = alt\<rparr>"

definition acc_reset :: "tx_budget \<Rightarrow> alt_policy \<Rightarrow> chunk_acc \<Rightarrow> chunk_acc" where
  "acc_reset budget alt self =
     self\<lparr>acc_nodes := [], acc_message_keys := [], acc_alt_keys := [], acc_alt_ro_keys := [], acc_alt_wr_keys := [],
          acc_bytes := BASE_MESSAGE_OVERHEAD + tb_byte_slack budget + shortvec_len 0 + shortvec_len 0 + shortvec_len 0,
          acc_cu := 0, acc_instrs := 0, acc_alt_used := False, acc_budget := budget, acc_alt := alt\<rparr>"

definition acc_has :: "chunk_acc \<Rightarrow> pubkey \<Rightarrow> bool" where
  "acc_has self key \<longleftrightarrow> key \<in> set (acc_message_keys self) \<or> key \<in> set (acc_alt_keys self)"

text \<open>
  The loop of \<open>deltas_for\<close>: new static and new table keys. It does not change the accumulator, so a
  key that the footprint lists twice is counted twice.
\<close>

fun count_new_keys :: "chunk_acc \<Rightarrow> key_meta list \<Rightarrow> nat \<Rightarrow> nat \<Rightarrow> nat \<times> nat" where
  "count_new_keys self [] new_message_keys new_alt_keys = (new_message_keys, new_alt_keys)"
| "count_new_keys self (meta # metas) new_message_keys new_alt_keys =
     (if acc_has self (km_pubkey meta) then count_new_keys self metas new_message_keys new_alt_keys
      else if ap_enabled (acc_alt self)
      then if min (length (acc_message_keys self)) (ap_reserve_message_keys (acc_alt self))
                < ap_reserve_message_keys (acc_alt self)
           then count_new_keys self metas (new_message_keys + 1) new_alt_keys
           else count_new_keys self metas new_message_keys (new_alt_keys + 1)
      else count_new_keys self metas (new_message_keys + 1) new_alt_keys)"

definition deltas_for :: "chunk_acc \<Rightarrow> intent_footprint \<Rightarrow> nat \<times> nat \<times> nat \<times> nat \<times> bool" where
  "deltas_for self fp =
     (case count_new_keys self (fp_keys fp) 0 0 of (new_message_keys, new_alt_keys) \<Rightarrow>
       (let old_msg_keys = length (acc_message_keys self);
            alt = acc_alt self;
            alt_will_be_used = ap_enabled alt \<and> acc_alt_keys self = [] \<and> new_alt_keys > 0;
            add_bytes = self_bytes fp alt
              + delta_sv old_msg_keys (old_msg_keys + new_message_keys)
              + delta_sv (acc_instrs self) (acc_instrs self + 1)
              + (if alt_will_be_used
                 then delta_sv 0 (ap_table_count_estimate alt)
                        + ap_table_count_estimate alt * ap_per_table_fixed_bytes alt
                 else 0)
        in (add_bytes, new_message_keys + new_alt_keys, 1, fp_cu_estimate fp, alt_will_be_used)))"

definition can_add :: "chunk_acc \<Rightarrow> intent_footprint \<Rightarrow> bool" where
  "can_add self fp \<longleftrightarrow>
     (case deltas_for self fp of (add_bytes, add_unique_total, add_instrs, add_cu, _) \<Rightarrow>
        let prospective =
              (if ap_enabled (acc_alt self)
               then (case count_new_keys self (fp_keys fp) 0 0 of (new_msg, new_alt) \<Rightarrow>
                       (length (acc_message_keys self) + new_msg, length (acc_alt_keys self) + new_alt))
               else (length (acc_message_keys self) + add_unique_total, length (acc_alt_keys self)))
        in acc_bytes self + add_bytes \<le> tb_max_bytes (acc_budget self)
           \<and> fst prospective \<le> tb_max_unique_accounts (acc_budget self)
           \<and> snd prospective \<le> ap_max_alt_keys (acc_alt self)
           \<and> acc_instrs self + add_instrs \<le> tb_max_instructions (acc_budget self)
           \<and> acc_cu self + add_cu \<le> tb_max_cu (acc_budget self))"

definition insert_key :: "key_meta \<Rightarrow> chunk_acc \<Rightarrow> chunk_acc" where
  "insert_key meta self =
     (let key = km_pubkey meta in
      if acc_has self key then self
      else let used = min (length (acc_message_keys self)) (ap_reserve_message_keys (acc_alt self)) in
        if ap_enabled (acc_alt self) \<and> used \<ge> ap_reserve_message_keys (acc_alt self)
        then (let self = self\<lparr>acc_alt_keys := insort_insert key (acc_alt_keys self)\<rparr>
              in if km_writable meta then self\<lparr>acc_alt_wr_keys := insort_insert key (acc_alt_wr_keys self)\<rparr>
                 else self\<lparr>acc_alt_ro_keys := insort_insert key (acc_alt_ro_keys self)\<rparr>)
        else self\<lparr>acc_message_keys := insort_insert key (acc_message_keys self)\<rparr>)"

fun insert_keys :: "key_meta list \<Rightarrow> chunk_acc \<Rightarrow> chunk_acc" where
  "insert_keys [] self = self"
| "insert_keys (meta # metas) self = insert_keys metas (insert_key meta self)"

definition acc_add :: "node_id \<Rightarrow> intent_footprint \<Rightarrow> chunk_acc \<Rightarrow> chunk_acc" where
  "acc_add nid fp self =
     (let self = insert_keys (fp_keys fp) self
      in case deltas_for self fp of (add_bytes, _, add_instrs, add_cu, alt_first) \<Rightarrow>
           self\<lparr>acc_bytes := sat_plus (acc_bytes self) add_bytes,
                acc_instrs := sat_plus (acc_instrs self) add_instrs,
                acc_cu := sat_plus (acc_cu self) add_cu,
                acc_alt_used := acc_alt_used self \<or> alt_first,
                acc_nodes := acc_nodes self @ [nid]\<rparr>)"

definition take_planned_chunk :: "chunk_acc \<Rightarrow> planned_chunk \<times> chunk_acc" where
  "take_planned_chunk self =
     (\<lparr>pc_node_ids = acc_nodes self, pc_est_cu = acc_cu self, pc_est_message_bytes = acc_bytes self,
       pc_alt_readonly = length (acc_alt_ro_keys self), pc_alt_writable = length (acc_alt_wr_keys self)\<rparr>,
      self\<lparr>acc_nodes := []\<rparr>)"

section \<open>\<open>chunk_layer_with\<close>\<close>

fun chunk_loop ::
    "bool \<Rightarrow> tx_budget \<Rightarrow> alt_policy \<Rightarrow> (node_id \<times> intent_footprint) list \<Rightarrow> chunk_acc
      \<Rightarrow> planned_chunk list \<Rightarrow> (chunk_error + planned_chunk list) option" where
  "chunk_loop dbg budget alt [] cur chunks =
     Some (Inr (if acc_nodes cur \<noteq> [] then chunks @ [fst (take_planned_chunk cur)] else chunks))"
| "chunk_loop dbg budget alt ((nid, fp) # rest) cur chunks =
     (if \<not> fits_in_empty fp budget alt
      then Some (Inl (IntentTooLarge nid (size_if_only_this fp budget alt) (message_unique_len fp alt)
                        (alt_unique_len fp alt) (fp_cu_estimate fp)))
      else let (chunks, cur) =
                 (if \<not> can_add cur fp \<and> acc_nodes cur \<noteq> []
                  then (case take_planned_chunk cur of (chunk, cur) \<Rightarrow> (chunks @ [chunk], acc_reset budget alt cur))
                  else (chunks, cur))
           in if dbg \<and> \<not> can_add cur fp then None
              else chunk_loop dbg budget alt rest (acc_add nid fp cur) chunks)"

definition chunk_layer_with ::
    "bool \<Rightarrow> node_id list \<Rightarrow> user_intent list \<Rightarrow> tx_budget \<Rightarrow> alt_policy \<Rightarrow> budget_oracle
      \<Rightarrow> (chunk_error + planned_chunk list) option" where
  "chunk_layer_with dbg layer intents budget alt oracle =
     (if list_all (\<lambda>nid. nid < length intents) layer
      then let fps = map (\<lambda>nid. from_intent (intents ! nid) budget oracle) layer
           in chunk_loop dbg budget alt (zip layer fps) (acc_new budget alt) []
      else None)"

definition chunk_layer ::
    "bool \<Rightarrow> node_id list \<Rightarrow> user_intent list \<Rightarrow> tx_budget \<Rightarrow> (chunk_error + planned_chunk list) option" where
  "chunk_layer dbg layer intents budget =
     chunk_layer_with dbg layer intents budget alt_policy_default program_aware_oracle"


section \<open>Order and partition\<close>

lemma acc_nodes_insert_keys [simp]: "acc_nodes (insert_keys ks s) = acc_nodes s"
  by (induction ks arbitrary: s) (simp_all add: insert_key_def Let_def)

lemma acc_nodes_add [simp]: "acc_nodes (acc_add nid fp s) = acc_nodes s @ [nid]"
  by (simp add: acc_add_def Let_def split: prod.split)

lemma acc_reset_new [simp]: "acc_reset budget alt s = acc_new budget alt"
  by (cases s) (simp add: acc_reset_def acc_new_def)

lemma acc_nodes_new [simp]: "acc_nodes (acc_new budget alt) = []"
  by (simp add: acc_new_def)

lemma take_planned_chunk_ids [simp]: "pc_node_ids (fst (take_planned_chunk s)) = acc_nodes s"
  by (simp add: take_planned_chunk_def)

lemma chunk_loop_partition:
  "chunk_loop dbg budget alt rest cur chunks = Some (Inr out) \<Longrightarrow>
   \<exists>new. out = chunks @ new \<and> concat (map pc_node_ids new) = acc_nodes cur @ map fst rest
     \<and> list_all (\<lambda>c. pc_node_ids c \<noteq> []) new"
proof (induction rest arbitrary: cur chunks)
  case Nil
  then show ?case by (auto split: if_splits)
next
  case (Cons r rest)
  obtain nid fp where r: "r = (nid, fp)" by (cases r)
  show ?case
  proof (cases "\<not> can_add cur fp \<and> acc_nodes cur \<noteq> []")
    case True
    with Cons.prems have "chunk_loop dbg budget alt rest (acc_add nid fp (acc_new budget alt))
        (chunks @ [fst (take_planned_chunk cur)]) = Some (Inr out)"
      by (simp add: r case_prod_beta split: if_splits)
    from Cons.IH [OF this] obtain new where "out = (chunks @ [fst (take_planned_chunk cur)]) @ new"
      "concat (map pc_node_ids new) = [nid] @ map fst rest" "list_all (\<lambda>c. pc_node_ids c \<noteq> []) new" by auto
    with True show ?thesis
      by (intro exI [of _ "fst (take_planned_chunk cur) # new"]) (simp add: r)
  next
    case False
    with Cons.prems have "chunk_loop dbg budget alt rest (acc_add nid fp cur) chunks = Some (Inr out)"
      by (auto simp: r split: if_splits)
    from Cons.IH [OF this] show ?thesis by (simp add: r)
  qed
qed

section \<open>The accumulator without lookup tables\<close>

definition fp_pubkeys :: "intent_footprint \<Rightarrow> pubkey set" where
  "fp_pubkeys fp = km_pubkey ` set (fp_keys fp)"

definition group_keys :: "(node_id \<times> intent_footprint) list \<Rightarrow> pubkey set" where
  "group_keys xs = (\<Union>x \<in> set xs. fp_pubkeys (snd x))"

definition group_bytes :: "tx_budget \<Rightarrow> (node_id \<times> intent_footprint) list \<Rightarrow> nat" where
  "group_bytes budget xs =
     BASE_MESSAGE_OVERHEAD + tb_byte_slack budget + 2 + shortvec_len (length xs)
       + sum_list (map (\<lambda>x. length (fp_keys (snd x)) * 32 + fp_instr_bytes (snd x)) xs)"

definition group_cu :: "(node_id \<times> intent_footprint) list \<Rightarrow> nat" where
  "group_cu xs = sum_list (map (fp_intent_cu \<circ> snd) xs)"

definition within_limits :: "tx_budget \<Rightarrow> (node_id \<times> intent_footprint) list \<Rightarrow> bool" where
  "within_limits budget xs \<longleftrightarrow>
     group_bytes budget xs \<le> tb_max_bytes budget \<and> card (group_keys xs) \<le> tb_max_unique_accounts budget
     \<and> length xs \<le> tb_max_instructions budget \<and> group_cu xs \<le> tb_max_cu budget"

definition budget_in_range :: "tx_budget \<Rightarrow> bool" where
  "budget_in_range budget \<longleftrightarrow>
     tb_max_bytes budget \<le> usize_max \<and> tb_max_instructions budget \<le> usize_max \<and> tb_max_cu budget \<le> usize_max"

text \<open>The accumulator holds the footprints \<open>xs\<close>, in this order.\<close>

definition acc_holds :: "tx_budget \<Rightarrow> alt_policy \<Rightarrow> (node_id \<times> intent_footprint) list \<Rightarrow> chunk_acc \<Rightarrow> bool" where
  "acc_holds budget alt xs cur \<longleftrightarrow>
     acc_budget cur = budget \<and> acc_alt cur = alt \<and> acc_nodes cur = map fst xs \<and> acc_alt_keys cur = []
     \<and> acc_alt_ro_keys cur = [] \<and> acc_alt_wr_keys cur = []
     \<and> distinct (acc_message_keys cur) \<and> set (acc_message_keys cur) = group_keys xs
     \<and> acc_instrs cur = length xs \<and> acc_cu cur = group_cu xs \<and> acc_bytes cur = group_bytes budget xs"

lemma acc_holds_new [inv_intros]: "acc_holds budget alt [] (acc_new budget alt)"
  by (simp add: acc_holds_def acc_new_def group_keys_def group_cu_def group_bytes_def shortvec_len_def)

lemma delta_sv_same [simp]: "delta_sv n n = 0"
  by (simp add: delta_sv_def)

lemma shortvec_len_Suc: "shortvec_len n + delta_sv n (Suc n) = shortvec_len (Suc n)"
  by (simp add: delta_sv_def shortvec_len_def)

lemma self_bytes_disabled:
  "\<not> ap_enabled alt \<Longrightarrow> self_bytes fp alt = length (fp_keys fp) * 32 + fp_instr_bytes fp"
  by (simp add: self_bytes_def message_unique_len_def alt_unique_len_def)

lemma count_new_disabled:
  "\<not> ap_enabled (acc_alt s) \<Longrightarrow>
   count_new_keys s ks a b = (a + length (filter (\<lambda>k. \<not> acc_has s (km_pubkey k)) ks), b)"
  by (induction ks arbitrary: a) simp_all

lemma insert_keys_disabled:
  assumes "\<not> ap_enabled (acc_alt s)" and "distinct (acc_message_keys s)" and "acc_alt_keys s = []"
  shows "set (acc_message_keys (insert_keys ks s)) = set (acc_message_keys s) \<union> km_pubkey ` set ks
    \<and> distinct (acc_message_keys (insert_keys ks s))
    \<and> insert_keys ks s = s\<lparr>acc_message_keys := acc_message_keys (insert_keys ks s)\<rparr>"
  using assms
proof (induction ks arbitrary: s)
  case (Cons k ks)
  show ?case
  proof (cases "acc_has s (km_pubkey k)")
    case True
    then have "insert_key k s = s" and "km_pubkey k \<in> set (acc_message_keys s)"
      using Cons.prems by (simp_all add: insert_key_def acc_has_def)
    with Cons.IH [OF Cons.prems] show ?thesis by auto
  next
    case False
    then have i: "insert_key k s = s\<lparr>acc_message_keys := insort_insert (km_pubkey k) (acc_message_keys s)\<rparr>"
      using Cons.prems by (simp add: insert_key_def Let_def)
    have "set (acc_message_keys (insert_keys ks (insert_key k s))) =
          insert (km_pubkey k) (set (acc_message_keys s)) \<union> km_pubkey ` set ks
        \<and> distinct (acc_message_keys (insert_keys ks (insert_key k s)))
        \<and> insert_keys ks (insert_key k s) =
            (insert_key k s)\<lparr>acc_message_keys := acc_message_keys (insert_keys ks (insert_key k s))\<rparr>"
      using Cons.IH [of "insert_key k s"] Cons.prems
      by (simp add: i set_insort_insert distinct_insort_insert)
    then show ?thesis by (simp add: i)
  qed
qed simp

lemma acc_has_holds: "acc_holds budget alt xs cur \<Longrightarrow> acc_has cur k \<longleftrightarrow> k \<in> group_keys xs"
  by (auto simp: acc_has_def acc_holds_def)

lemma group_keys_snoc [simp]: "group_keys (xs @ [(n, fp)]) = group_keys xs \<union> fp_pubkeys fp"
  by (auto simp: group_keys_def)

lemma finite_group_keys [simp]: "finite (group_keys xs)" "finite (fp_pubkeys fp)"
  by (simp_all add: group_keys_def fp_pubkeys_def)

lemma group_bytes_snoc:
  "group_bytes budget (xs @ [(n, fp)]) =
     group_bytes budget xs + (length (fp_keys fp) * 32 + fp_instr_bytes fp) + delta_sv (length xs) (Suc (length xs))"
  using shortvec_len_Suc [of "length xs"] by (simp add: group_bytes_def)

lemma card_new_keys:
  "card (group_keys xs \<union> fp_pubkeys fp) \<le>
     card (group_keys xs) + length (filter (\<lambda>k. km_pubkey k \<notin> group_keys xs) (fp_keys fp))"
proof -
  let ?new = "filter (\<lambda>k. km_pubkey k \<notin> group_keys xs) (fp_keys fp)"
  have eq: "group_keys xs \<union> fp_pubkeys fp = group_keys xs \<union> km_pubkey ` set ?new"
    unfolding fp_pubkeys_def by auto
  have "card (group_keys xs \<union> fp_pubkeys fp) \<le> card (group_keys xs) + card (km_pubkey ` set ?new)"
    by (subst eq, rule card_Un_le)
  also have "card (km_pubkey ` set ?new) \<le> length ?new"
    using card_length [of "map km_pubkey ?new"] by simp
  finally show ?thesis by simp
qed

lemma can_add_holds:
  assumes "acc_holds budget alt xs cur" and "\<not> ap_enabled alt"
  shows "can_add cur fp \<longleftrightarrow>
     (let new = length (filter (\<lambda>k. km_pubkey k \<notin> group_keys xs) (fp_keys fp)); used = card (group_keys xs)
      in group_bytes budget (xs @ [(nid, fp)]) + delta_sv used (used + new) \<le> tb_max_bytes budget
         \<and> used + new \<le> tb_max_unique_accounts budget
         \<and> Suc (length xs) \<le> tb_max_instructions budget
         \<and> group_cu xs + fp_intent_cu fp \<le> tb_max_cu budget)"
proof -
  have used: "length (acc_message_keys cur) = card (group_keys xs)"
    using assms(1) distinct_card [of "acc_message_keys cur"] by (simp add: acc_holds_def)
  have c: "count_new_keys cur (fp_keys fp) 0 0 = (length (filter (\<lambda>k. km_pubkey k \<notin> group_keys xs) (fp_keys fp)), 0)"
    using assms acc_has_holds [OF assms(1)] by (simp add: count_new_disabled acc_holds_def)
  have cur: "acc_budget cur = budget" "acc_alt cur = alt" "acc_alt_keys cur = []" "acc_instrs cur = length xs"
    "acc_cu cur = group_cu xs" "acc_bytes cur = group_bytes budget xs"
    using assms(1) by (simp_all add: acc_holds_def)
  show ?thesis
    using assms(2)
    by (simp add: can_add_def deltas_for_def c used cur self_bytes_disabled group_bytes_snoc fp_cu_estimate_def
        Let_def ac_simps)
qed

lemma acc_holds_add:
  assumes "acc_holds budget alt xs cur" and "\<not> ap_enabled alt" and "can_add cur fp" and "budget_in_range budget"
  shows "acc_holds budget alt (xs @ [(nid, fp)]) (acc_add nid fp cur)" and "within_limits budget (xs @ [(nid, fp)])"
proof -
  have cur: "acc_budget cur = budget" "acc_alt cur = alt" "acc_alt_keys cur = []" "acc_instrs cur = length xs"
    "acc_cu cur = group_cu xs" "acc_bytes cur = group_bytes budget xs" "acc_nodes cur = map fst xs"
    "acc_alt_ro_keys cur = []" "acc_alt_wr_keys cur = []" "set (acc_message_keys cur) = group_keys xs"
    "distinct (acc_message_keys cur)"
    using assms(1) by (simp_all add: acc_holds_def)
  obtain mk where s: "insert_keys (fp_keys fp) cur = cur\<lparr>acc_message_keys := mk\<rparr>"
    and mk: "set mk = group_keys xs \<union> fp_pubkeys fp" "distinct mk"
    using insert_keys_disabled [of cur "fp_keys fp"] cur assms(2) by (metis fp_pubkeys_def)
  have new: "filter (\<lambda>k. \<not> acc_has (cur\<lparr>acc_message_keys := mk\<rparr>) (km_pubkey k)) (fp_keys fp) = []"
    using mk(1) by (auto simp: filter_empty_conv acc_has_def fp_pubkeys_def)
  have deltas: "deltas_for (cur\<lparr>acc_message_keys := mk\<rparr>) fp =
      (length (fp_keys fp) * 32 + fp_instr_bytes fp + delta_sv (length xs) (Suc (length xs)), 0, 1, fp_intent_cu fp, False)"
    using assms(2) new by (simp add: deltas_for_def count_new_disabled cur self_bytes_disabled fp_cu_estimate_def)
  have chk: "group_bytes budget (xs @ [(nid, fp)]) \<le> tb_max_bytes budget"
    "card (group_keys xs) + length (filter (\<lambda>k. km_pubkey k \<notin> group_keys xs) (fp_keys fp)) \<le> tb_max_unique_accounts budget"
    "Suc (length xs) \<le> tb_max_instructions budget" "group_cu xs + fp_intent_cu fp \<le> tb_max_cu budget"
    using assms(3) unfolding can_add_holds [OF assms(1,2), of fp nid] Let_def by simp_all
  show "within_limits budget (xs @ [(nid, fp)])"
    using chk card_new_keys [of xs fp] by (simp add: within_limits_def group_cu_def)
  show "acc_holds budget alt (xs @ [(nid, fp)]) (acc_add nid fp cur)"
    using chk assms(4) mk
    by (simp add: acc_holds_def acc_add_def s deltas cur sat_plus_def budget_in_range_def group_cu_def group_bytes_snoc)
qed

text \<open>An intent that fits alone can be added to an empty accumulator.\<close>

lemma fits_can_add_new:
  assumes "\<not> ap_enabled alt" and "fits_in_empty fp budget alt"
  shows "can_add (acc_new budget alt) fp"
  using assms shortvec_len_Suc [of 0]
  unfolding can_add_holds [OF acc_holds_new assms(1), where fp = fp and nid = 0]
  by (simp add: fits_in_empty_def size_if_only_this_def message_unique_len_def fp_cu_estimate_def group_keys_def
      group_cu_def group_bytes_def self_bytes_disabled Let_def delta_sv_def) (simp add: shortvec_len_def)

section \<open>The loop without lookup tables\<close>

definition chunk_of_group :: "tx_budget \<Rightarrow> (node_id \<times> intent_footprint) list \<Rightarrow> planned_chunk" where
  "chunk_of_group budget g =
     \<lparr>pc_node_ids = map fst g, pc_est_cu = group_cu g, pc_est_message_bytes = group_bytes budget g,
      pc_alt_readonly = 0, pc_alt_writable = 0\<rparr>"

definition too_large :: "tx_budget \<Rightarrow> alt_policy \<Rightarrow> node_id \<times> intent_footprint \<Rightarrow> chunk_error" where
  "too_large budget alt x =
     IntentTooLarge (fst x) (size_if_only_this (snd x) budget alt) (message_unique_len (snd x) alt)
       (alt_unique_len (snd x) alt) (fp_cu_estimate (snd x))"

lemma take_planned_holds: "acc_holds budget alt xs cur \<Longrightarrow> fst (take_planned_chunk cur) = chunk_of_group budget xs"
  by (simp add: take_planned_chunk_def chunk_of_group_def acc_holds_def)

lemma chunk_loop_fits:
  assumes "\<not> ap_enabled alt" and "budget_in_range budget"
  shows "acc_holds budget alt xs cur \<Longrightarrow> xs = [] \<or> within_limits budget xs \<Longrightarrow>
    list_all (\<lambda>x. fits_in_empty (snd x) budget alt) rest \<Longrightarrow>
    \<exists>groups. chunk_loop dbg budget alt rest cur chunks = Some (Inr (chunks @ map (chunk_of_group budget) groups))
      \<and> concat groups = xs @ rest \<and> list_all (\<lambda>g. g \<noteq> [] \<and> within_limits budget g) groups"
proof (induction rest arbitrary: xs cur chunks)
  case Nil
  have n: "acc_nodes cur = map fst xs" using Nil.prems(1) by (simp add: acc_holds_def)
  show ?case
  proof (cases "xs = []")
    case True
    with n show ?thesis by (intro exI [of _ "[]"]) simp
  next
    case False
    with n Nil.prems show ?thesis
      by (intro exI [of _ "[xs]"]) (simp add: take_planned_holds)
  qed
next
  case (Cons r rest)
  obtain nid fp where r: "r = (nid, fp)" by (cases r)
  have fit: "fits_in_empty fp budget alt" and rest: "list_all (\<lambda>x. fits_in_empty (snd x) budget alt) rest"
    using Cons.prems(3) by (simp_all add: r)
  have n: "acc_nodes cur = map fst xs" using Cons.prems(1) by (simp add: acc_holds_def)
  show ?case
  proof (cases "can_add cur fp")
    case True
    note h = acc_holds_add [OF Cons.prems(1) assms(1) True assms(2), of nid]
    from Cons.IH [OF h(1) _ rest] h(2) obtain groups where
      "chunk_loop dbg budget alt rest (acc_add nid fp cur) chunks = Some (Inr (chunks @ map (chunk_of_group budget) groups))"
      "concat groups = (xs @ [(nid, fp)]) @ rest" "list_all (\<lambda>g. g \<noteq> [] \<and> within_limits budget g) groups" by blast
    with True fit r show ?thesis by (intro exI [of _ groups]) simp
  next
    case False
    have ca: "can_add (acc_new budget alt) fp" by (rule fits_can_add_new [OF assms(1) fit])
    note h = acc_holds_add [OF acc_holds_new assms(1) ca assms(2), of nid]
    have xs: "xs \<noteq> []"
    proof
      assume "xs = []"
      with Cons.prems(1) False ca show False
        using can_add_holds [OF Cons.prems(1) assms(1), of fp nid]
          can_add_holds [OF acc_holds_new assms(1), of budget fp nid] by simp
    qed
    let ?chunks = "chunks @ [chunk_of_group budget xs]"
    from Cons.IH [OF h(1) _ rest, of ?chunks] h(2) obtain groups where
      "chunk_loop dbg budget alt rest (acc_add nid fp (acc_new budget alt)) ?chunks
         = Some (Inr (?chunks @ map (chunk_of_group budget) groups))"
      "concat groups = [(nid, fp)] @ rest" "list_all (\<lambda>g. g \<noteq> [] \<and> within_limits budget g) groups" by auto
    with False fit r xs n ca Cons.prems(1,2) show ?thesis
      by (intro exI [of _ "xs # groups"]) (simp add: take_planned_holds case_prod_beta)
  qed
qed

lemma chunk_loop_too_large:
  assumes "\<not> ap_enabled alt" and "budget_in_range budget"
  shows "acc_holds budget alt xs cur \<Longrightarrow> list_all (\<lambda>x. fits_in_empty (snd x) budget alt) pre \<Longrightarrow>
    \<not> fits_in_empty (snd x) budget alt \<Longrightarrow>
    chunk_loop dbg budget alt (pre @ x # post) cur chunks = Some (Inl (too_large budget alt x))"
proof (induction pre arbitrary: xs cur chunks)
  case Nil
  then show ?case by (cases x) (simp add: too_large_def)
next
  case (Cons r pre)
  obtain nid fp where r: "r = (nid, fp)" by (cases r)
  have fit: "fits_in_empty fp budget alt" and pre: "list_all (\<lambda>x. fits_in_empty (snd x) budget alt) pre"
    using Cons.prems(2) by (simp_all add: r)
  show ?case
  proof (cases "can_add cur fp")
    case True
    note h = acc_holds_add [OF Cons.prems(1) assms(1) True assms(2), of nid]
    from Cons.IH [OF h(1) pre Cons.prems(3), of chunks] True fit r show ?thesis by simp
  next
    case False
    have ca: "can_add (acc_new budget alt) fp" by (rule fits_can_add_new [OF assms(1) fit])
    note h = acc_holds_add [OF acc_holds_new assms(1) ca assms(2), of nid]
    have "acc_nodes cur \<noteq> []"
    proof
      assume "acc_nodes cur = []"
      then have "xs = []" using Cons.prems(1) by (simp add: acc_holds_def)
      with Cons.prems(1) False ca show False
        using can_add_holds [OF Cons.prems(1) assms(1), of fp nid]
          can_add_holds [OF acc_holds_new assms(1), of budget fp nid] by simp
    qed
    with Cons.IH [OF h(1) pre Cons.prems(3)] False ca fit r show ?thesis
      by (simp add: case_prod_beta)
  qed
qed

lemma card_group_keys: "card (group_keys xs) \<le> sum_list (map (length \<circ> fp_keys \<circ> snd) xs)"
proof (induction xs)
  case (Cons x xs)
  have "group_keys (x # xs) = fp_pubkeys (snd x) \<union> group_keys xs" by (simp add: group_keys_def)
  moreover have "card (fp_pubkeys (snd x)) \<le> length (fp_keys (snd x))"
    unfolding fp_pubkeys_def using card_length [of "map km_pubkey (fp_keys (snd x))"] by simp
  ultimately show ?case
    using Cons card_Un_le [of "fp_pubkeys (snd x)" "group_keys xs"] by simp
qed (simp add: group_keys_def)

section \<open>The loop under any policy\<close>

text \<open>
  With lookup tables the accumulator may hold an intent that \<open>can_add\<close> refused (in a release build, on
  an empty accumulator). Bytes, instructions and compute units stay within the budget all the same,
  because \<open>fits_in_empty\<close> accepted it. \<open>F\<close> gives the footprint of a node.
\<close>

definition sum_cu :: "(node_id \<Rightarrow> intent_footprint) \<Rightarrow> node_id list \<Rightarrow> nat" where
  "sum_cu F nids = sum_list (map (fp_intent_cu \<circ> F) nids)"

definition acc_within :: "tx_budget \<Rightarrow> alt_policy \<Rightarrow> (node_id \<Rightarrow> intent_footprint) \<Rightarrow> chunk_acc \<Rightarrow> bool" where
  "acc_within budget alt F cur \<longleftrightarrow>
     acc_budget cur = budget \<and> acc_alt cur = alt \<and> acc_instrs cur = length (acc_nodes cur)
     \<and> acc_cu cur = sum_cu F (acc_nodes cur)
     \<and> (acc_nodes cur = [] \<longrightarrow> cur = acc_new budget alt)
     \<and> (acc_nodes cur \<noteq> [] \<longrightarrow> acc_bytes cur \<le> tb_max_bytes budget
          \<and> length (acc_nodes cur) \<le> tb_max_instructions budget \<and> acc_cu cur \<le> tb_max_cu budget)"

lemma acc_within_new [inv_intros]: "acc_within budget alt F (acc_new budget alt)"
  by (simp add: acc_within_def acc_new_def sum_cu_def)

definition acc_static :: "chunk_acc \<Rightarrow> nat \<times> nat \<times> nat \<times> tx_budget \<times> alt_policy" where
  "acc_static s = (acc_instrs s, acc_cu s, acc_bytes s, acc_budget s, acc_alt s)"

lemma insert_keys_static [simp]: "acc_static (insert_keys ks s) = acc_static s"
  by (induction ks arbitrary: s) (simp_all add: insert_key_def acc_static_def Let_def)

lemma acc_has_insert_key: "acc_has (insert_key k s) p \<longleftrightarrow> acc_has s p \<or> p = km_pubkey k"
  by (auto simp: insert_key_def acc_has_def Let_def set_insort_insert)

lemma acc_has_insert_keys: "acc_has (insert_keys ks s) p \<longleftrightarrow> acc_has s p \<or> p \<in> km_pubkey ` set ks"
  by (induction ks arbitrary: s) (auto simp: acc_has_insert_key)

lemma count_new_none: "list_all (\<lambda>k. acc_has s (km_pubkey k)) ks \<Longrightarrow> count_new_keys s ks a b = (a, b)"
  by (induction ks) simp_all

text \<open>What \<open>add\<close> adds: the keys are in the sets by then, so only the own bytes and one instruction count.\<close>

lemma acc_add_fields:
  "acc_bytes (acc_add nid fp s) = sat_plus (acc_bytes s) (self_bytes fp (acc_alt s) + delta_sv (acc_instrs s) (Suc (acc_instrs s)))"
  "acc_instrs (acc_add nid fp s) = sat_plus (acc_instrs s) 1"
  "acc_cu (acc_add nid fp s) = sat_plus (acc_cu s) (fp_intent_cu fp)"
  "acc_budget (acc_add nid fp s) = acc_budget s" "acc_alt (acc_add nid fp s) = acc_alt s"
proof -
  let ?s = "insert_keys (fp_keys fp) s"
  have "count_new_keys ?s (fp_keys fp) 0 0 = (0, 0)"
    by (rule count_new_none) (simp add: list_all_iff acc_has_insert_keys)
  moreover have "acc_instrs ?s = acc_instrs s" "acc_cu ?s = acc_cu s" "acc_bytes ?s = acc_bytes s"
    "acc_budget ?s = acc_budget s" "acc_alt ?s = acc_alt s"
    using insert_keys_static [of "fp_keys fp" s] by (simp_all add: acc_static_def)
  ultimately show "acc_bytes (acc_add nid fp s) = sat_plus (acc_bytes s) (self_bytes fp (acc_alt s) + delta_sv (acc_instrs s) (Suc (acc_instrs s)))"
    "acc_instrs (acc_add nid fp s) = sat_plus (acc_instrs s) 1"
    "acc_cu (acc_add nid fp s) = sat_plus (acc_cu s) (fp_intent_cu fp)"
    "acc_budget (acc_add nid fp s) = acc_budget s" "acc_alt (acc_add nid fp s) = acc_alt s"
    by (simp_all add: acc_add_def deltas_for_def fp_cu_estimate_def)
qed

lemma can_add_bounds:
  "can_add s fp \<Longrightarrow>
     acc_bytes s + (self_bytes fp (acc_alt s) + delta_sv (acc_instrs s) (Suc (acc_instrs s))) \<le> tb_max_bytes (acc_budget s)
     \<and> Suc (acc_instrs s) \<le> tb_max_instructions (acc_budget s) \<and> acc_cu s + fp_intent_cu fp \<le> tb_max_cu (acc_budget s)"
  by (auto simp: can_add_def deltas_for_def fp_cu_estimate_def Let_def split: prod.splits)

lemma fits_bounds:
  assumes "fits_in_empty fp budget alt"
  shows "acc_bytes (acc_new budget alt) + (self_bytes fp alt + delta_sv 0 (Suc 0)) \<le> tb_max_bytes budget
     \<and> 1 \<le> tb_max_instructions budget \<and> fp_intent_cu fp \<le> tb_max_cu budget"
proof -
  have "Suc 0 \<le> shortvec_len n" for n by (simp add: shortvec_len_def)
  then have "acc_bytes (acc_new budget alt) + self_bytes fp alt \<le> size_if_only_this fp budget alt"
    unfolding size_if_only_this_def acc_new_def Let_def
    by (simp add: shortvec_len_def)
  with assms show ?thesis by (simp add: fits_in_empty_def fp_cu_estimate_def delta_sv_def shortvec_len_def)
qed

lemma acc_within_add:
  assumes "acc_within budget alt F cur" and "fits_in_empty (F nid) budget alt" and "budget_in_range budget"
    and "can_add cur (F nid) \<or> acc_nodes cur = []"
  shows "acc_within budget alt F (acc_add nid (F nid) cur)"
proof -
  let ?fp = "F nid"
  have cur: "acc_budget cur = budget" "acc_alt cur = alt" "acc_instrs cur = length (acc_nodes cur)"
    "acc_cu cur = sum_cu F (acc_nodes cur)"
    using assms(1) by (simp_all add: acc_within_def)
  have b: "acc_bytes cur + (self_bytes ?fp alt + delta_sv (acc_instrs cur) (Suc (acc_instrs cur))) \<le> tb_max_bytes budget
     \<and> Suc (acc_instrs cur) \<le> tb_max_instructions budget \<and> acc_cu cur + fp_intent_cu ?fp \<le> tb_max_cu budget"
  proof (cases "can_add cur ?fp")
    case True
    from can_add_bounds [OF this] show ?thesis by (simp add: cur)
  next
    case False
    with assms(1,4) have "cur = acc_new budget alt" "acc_nodes cur = []" by (simp_all add: acc_within_def)
    with fits_bounds [OF assms(2)] cur show ?thesis by (simp add: sum_cu_def)
  qed
  then show ?thesis
    using assms(3) cur
    by (simp add: acc_within_def acc_add_fields sat_plus_def budget_in_range_def sum_cu_def)
qed

definition chunk_within :: "tx_budget \<Rightarrow> (node_id \<Rightarrow> intent_footprint) \<Rightarrow> planned_chunk \<Rightarrow> bool" where
  "chunk_within budget F c \<longleftrightarrow>
     pc_est_message_bytes c \<le> tb_max_bytes budget \<and> length (pc_node_ids c) \<le> tb_max_instructions budget
     \<and> pc_est_cu c = sum_cu F (pc_node_ids c) \<and> pc_est_cu c \<le> tb_max_cu budget"

lemma take_within:
  "acc_within budget alt F cur \<Longrightarrow> acc_nodes cur \<noteq> [] \<Longrightarrow> chunk_within budget F (fst (take_planned_chunk cur))"
  by (simp add: acc_within_def chunk_within_def take_planned_chunk_def)

lemma chunk_loop_within:
  assumes "budget_in_range budget"
  shows "chunk_loop dbg budget alt (map (\<lambda>n. (n, F n)) rest) cur chunks = Some (Inr out) \<Longrightarrow>
    acc_within budget alt F cur \<Longrightarrow> list_all (chunk_within budget F) chunks \<Longrightarrow> list_all (chunk_within budget F) out"
proof (induction rest arbitrary: cur chunks)
  case Nil
  then show ?case using take_within [of budget alt F cur] by (auto split: if_splits)
next
  case (Cons nid rest)
  have fit: "fits_in_empty (F nid) budget alt" using Cons.prems(1) by (simp split: if_splits)
  show ?case
  proof (cases "\<not> can_add cur (F nid) \<and> acc_nodes cur \<noteq> []")
    case True
    then have "chunk_loop dbg budget alt (map (\<lambda>n. (n, F n)) rest) (acc_add nid (F nid) (acc_new budget alt))
        (chunks @ [fst (take_planned_chunk cur)]) = Some (Inr out)"
      using Cons.prems(1) fit by (simp add: case_prod_beta split: if_splits)
    then show ?thesis
      using Cons.IH acc_within_add [where F = F, OF acc_within_new fit assms] take_within [OF Cons.prems(2)] True Cons.prems(3)
      by simp
  next
    case False
    then have "chunk_loop dbg budget alt (map (\<lambda>n. (n, F n)) rest) (acc_add nid (F nid) cur) chunks = Some (Inr out)"
      using Cons.prems(1) fit by (simp split: if_splits)
    then show ?thesis
      using Cons.IH acc_within_add [where F = F, OF Cons.prems(2) fit assms] False Cons.prems(3) by blast
  qed
qed

lemma chunk_layer_with_within:
  assumes "chunk_layer_with dbg layer intents budget alt oracle = Some (Inr chunks)" and "budget_in_range budget"
    and "c \<in> set chunks"
  shows "chunk_within budget (\<lambda>n. from_intent (intents ! n) budget oracle) c"
proof -
  let ?F = "\<lambda>n. from_intent (intents ! n) budget oracle"
  have "zip layer (map ?F layer) = map (\<lambda>n. (n, ?F n)) layer"
    by (simp add: zip_map2 zip_same_conv_map)
  then have "chunk_loop dbg budget alt (map (\<lambda>n. (n, ?F n)) layer) (acc_new budget alt) [] = Some (Inr chunks)"
    using assms(1) by (simp add: chunk_layer_with_def split: if_splits)
  from chunk_loop_within [OF assms(2) this acc_within_new] assms(3) show ?thesis by (auto simp: list_all_iff)
qed

text \<open>The keys a message of these instructions needs, each once.\<close>

definition ix_keys :: "instruction list \<Rightarrow> pubkey list" where
  "ix_keys ixs = remdups (concat (map (\<lambda>ix. ix_program_id ix # map meta_pubkey (ix_accounts ix)) ixs))"

definition chunk_ixs :: "user_intent list \<Rightarrow> planned_chunk \<Rightarrow> instruction list" where
  "chunk_ixs intents c = map (\<lambda>n. ui_ix (intents ! n)) (pc_node_ids c)"

lemma set_ix_keys: "set (ix_keys ixs) = (\<Union>ix \<in> set ixs. insert (ix_program_id ix) (meta_pubkey ` set (ix_accounts ix)))"
  unfolding ix_keys_def set_remdups by auto

lemma fp_pubkeys_from_intent:
  "fp_pubkeys (from_intent i budget orc) = set (ix_keys [ui_ix i])"
  by (auto simp: fp_pubkeys_def from_intent_def set_ix_keys Let_def image_image)

section \<open>The oracle interface\<close>

text \<open>
  What the chunker relies on: the bytes an oracle reports cover the compiled instruction. Then the
  estimate of a chunk covers the real message of its intents.
\<close>

locale budget_oracle_spec =
  fixes orc :: budget_oracle
  assumes instr_bytes_cover: "exact_ix_bytes ix \<le> fst orc ix"
begin

definition footprints :: "tx_budget \<Rightarrow> user_intent list \<Rightarrow> node_id list \<Rightarrow> (node_id \<times> intent_footprint) list" where
  "footprints budget intents nids = zip nids (map (\<lambda>n. from_intent (intents ! n) budget orc) nids)"

lemma footprints_append: "footprints budget intents (xs @ ys) = footprints budget intents xs @ footprints budget intents ys"
  by (simp add: footprints_def zip_append)

lemma footprints_fst [simp]: "map fst (footprints budget intents nids) = nids"
  by (simp add: footprints_def)

lemma footprints_sub:
  "footprints budget intents nids = concat groups \<Longrightarrow> g \<in> set groups \<Longrightarrow>
   g = footprints budget intents (map fst g)"
proof -
  assume c: "footprints budget intents nids = concat groups" and g: "g \<in> set groups"
  have "snd x = from_intent (intents ! fst x) budget orc" if "x \<in> set g" for x
  proof -
    have "x \<in> set (footprints budget intents nids)" using c g that by auto
    then show ?thesis by (auto simp: footprints_def in_set_zip)
  qed
  then have "g = map (\<lambda>x. (fst x, from_intent (intents ! fst x) budget orc)) g"
    by (intro map_idI [symmetric]) (auto simp: prod_eq_iff)
  also have "\<dots> = footprints budget intents (map fst g)"
    by (induction g) (simp_all add: footprints_def)
  finally show ?thesis .
qed

lemma sum_instr_bytes:
  "sum_list (map exact_ix_bytes (map (\<lambda>n. ui_ix (intents ! n)) nids)) \<le>
     sum_list (map (fp_instr_bytes \<circ> snd) (footprints budget intents nids))"
proof (induction nids)
  case (Cons n nids)
  then show ?case
    using instr_bytes_cover [of "ui_ix (intents ! n)"] by (simp add: footprints_def from_intent_def Let_def)
qed (simp add: footprints_def)

lemma group_bytes_cover:
  assumes "card (group_keys (footprints budget intents nids)) < 128"
  shows "exact_message_bytes (map (\<lambda>n. ui_ix (intents ! n)) nids)
       \<lparr>vs_message_keys = card (group_keys (footprints budget intents nids)), vs_lookup_tables = [],
        vs_instr_count = length nids\<rparr> + tb_byte_slack budget
     \<le> group_bytes budget (footprints budget intents nids)"
proof -
  let ?fps = "footprints budget intents nids"
  have "length ?fps = length nids" by (metis footprints_fst length_map)
  moreover have "sum_list (map (\<lambda>x. length (fp_keys (snd x)) * 32 + fp_instr_bytes (snd x)) xs) =
      32 * sum_list (map (length \<circ> fp_keys \<circ> snd) xs) + sum_list (map (fp_instr_bytes \<circ> snd) xs)"
    for xs :: "(node_id \<times> intent_footprint) list"
    by (induction xs) simp_all
  ultimately show ?thesis
    using card_group_keys [of ?fps] sum_instr_bytes [of intents nids budget] assms
    by (simp add: exact_message_bytes_def group_bytes_def BASE_MESSAGE_OVERHEAD_def sig_shortvec_len_def
        shortvec_len_def)
qed

lemma chunk_layer_groups:
  assumes "\<not> ap_enabled alt" and "budget_in_range budget"
    and "chunk_layer_with dbg layer intents budget alt orc = Some (Inr chunks)"
  shows "\<exists>groups. chunks = map (\<lambda>nids. chunk_of_group budget (footprints budget intents nids)) groups
     \<and> concat groups = layer
     \<and> list_all (\<lambda>nids. nids \<noteq> [] \<and> within_limits budget (footprints budget intents nids)) groups"
proof -
  let ?rest = "footprints budget intents layer"
  have r: "chunk_layer_with dbg layer intents budget alt orc = chunk_loop dbg budget alt ?rest (acc_new budget alt) []"
    using assms(3) by (simp add: chunk_layer_with_def footprints_def split: if_splits)
  have "list_all (\<lambda>x. fits_in_empty (snd x) budget alt) ?rest"
  proof (rule ccontr)
    assume "\<not> ?thesis"
    then obtain pre x post where "?rest = pre @ x # post" "list_all (\<lambda>x. fits_in_empty (snd x) budget alt) pre"
      "\<not> fits_in_empty (snd x) budget alt"
      using split_list_first_prop [of ?rest "\<lambda>x. \<not> fits_in_empty (snd x) budget alt"] by (auto simp: list_all_iff)
    with chunk_loop_too_large [OF assms(1,2) acc_holds_new] assms(3) show False by (simp add: r)
  qed
  from chunk_loop_fits [OF assms(1,2) acc_holds_new _ this, of dbg "[]"] obtain groups where g:
    "chunk_loop dbg budget alt ?rest (acc_new budget alt) [] = Some (Inr (map (chunk_of_group budget) groups))"
    "concat groups = ?rest" "list_all (\<lambda>g. g \<noteq> [] \<and> within_limits budget g) groups" by auto
  have fp: "footprints budget intents (map fst x) = x" if "x \<in> set groups" for x
    using footprints_sub [OF g(2) [symmetric] that] by simp
  have "chunks = map (chunk_of_group budget) groups" using g(1) assms(3) r by simp
  also have "\<dots> = map (\<lambda>nids. chunk_of_group budget (footprints budget intents nids)) (map (map fst) groups)"
    using fp by simp
  finally show ?thesis
    using g fp by (intro exI [of _ "map (map fst) groups"])
      (auto simp: list_all_iff map_concat [symmetric])
qed

lemma group_keys_ix_keys:
  "card (group_keys (footprints budget intents nids)) = length (ix_keys (map (\<lambda>n. ui_ix (intents ! n)) nids))"
proof -
  have "group_keys (footprints budget intents nids) = set (ix_keys (map (\<lambda>n. ui_ix (intents ! n)) nids))"
  proof (induction nids)
    case (Cons n nids)
    have "group_keys (footprints budget intents (n # nids)) =
        fp_pubkeys (from_intent (intents ! n) budget orc)
          \<union> group_keys (footprints budget intents nids)"
      by (simp add: footprints_def group_keys_def)
    with Cons show ?case by (simp add: fp_pubkeys_from_intent set_ix_keys)
  qed (simp add: footprints_def group_keys_def set_ix_keys)
  then show ?thesis by (simp only: distinct_card ix_keys_def distinct_remdups)
qed

lemma chunk_layer_covers:
  assumes "\<not> ap_enabled alt" and "chunk_layer_with dbg layer intents budget alt orc = Some (Inr chunks)"
    and "budget_in_range budget" and "tb_max_unique_accounts budget < 128" and "c \<in> set chunks"
  shows "exact_message_bytes (chunk_ixs intents c)
        \<lparr>vs_message_keys = length (ix_keys (chunk_ixs intents c)), vs_lookup_tables = [],
         vs_instr_count = length (chunk_ixs intents c)\<rparr> + tb_byte_slack budget \<le> pc_est_message_bytes c
    \<and> length (ix_keys (chunk_ixs intents c)) \<le> tb_max_unique_accounts budget"
proof -
  from chunk_layer_groups [OF assms(1,3,2)] assms(5)
  obtain nids where c: "c = chunk_of_group budget (footprints budget intents nids)"
    and l: "within_limits budget (footprints budget intents nids)"
    by (auto simp: list_all_iff)
  have ids: "pc_node_ids c = nids" by (simp add: c chunk_of_group_def)
  with l assms(4) group_bytes_cover [of budget intents nids] show ?thesis
    unfolding group_keys_ix_keys chunk_ixs_def ids within_limits_def
    by (simp add: c chunk_of_group_def)
qed

end

lemma sv_lens [simp]: "sv n = sig_shortvec_len n" "shortvec_len n = sig_shortvec_len n"
  by (simp_all add: sv_def shortvec_len_def sig_shortvec_len_def)

interpretation program_aware: budget_oracle_spec program_aware_oracle
  by unfold_locales (simp add: program_aware_oracle_def pa_instr_bytes_def exact_ix_bytes_def Let_def)

interpretation basic: budget_oracle_spec basic_oracle
  by unfold_locales (simp add: basic_oracle_def exact_ix_bytes_def)

section \<open>Properties\<close>

text \<open>
  C15: The chunks of a layer, joined in order, are the layer itself: no intent is lost, duplicated or
  moved, and no chunk is empty. This holds with and without lookup tables.
\<close>

theorem chunk_layer_with_partition:
  assumes "chunk_layer_with dbg layer intents budget alt oracle = Some (Inr chunks)"
  shows "concat (map pc_node_ids chunks) = layer \<and> list_all (\<lambda>c. pc_node_ids c \<noteq> []) chunks"
proof -
  have "chunk_loop dbg budget alt (zip layer (map (\<lambda>nid. from_intent (intents ! nid) budget oracle) layer))
      (acc_new budget alt) [] = Some (Inr chunks)"
    using assms by (simp add: chunk_layer_with_def split: if_splits)
  from chunk_loop_partition [OF this] show ?thesis by auto
qed

definition small_budget :: tx_budget where
  "small_budget =
     \<lparr>tb_max_bytes = 300, tb_byte_slack = 0, tb_max_unique_accounts = 4, tb_max_instructions = 1,
      tb_max_cu = 100000, tb_default_cu_per_intent = 25000\<rparr>"

lemma small_run:
  "chunk_layer True [1, 0] [data_intent 0 [], data_intent 0 [1]] small_budget =
     Some (Inr [\<lparr>pc_node_ids = [1], pc_est_cu = 12030, pc_est_message_bytes = 74, pc_alt_readonly = 0, pc_alt_writable = 0\<rparr>,
                \<lparr>pc_node_ids = [0], pc_est_cu = 12000, pc_est_message_bytes = 73, pc_alt_readonly = 0, pc_alt_writable = 0\<rparr>])"
  by code_simp

theorem chunk_layer_with_partition_witness:
  "concat (map pc_node_ids
     [\<lparr>pc_node_ids = [1], pc_est_cu = 12030, pc_est_message_bytes = 74, pc_alt_readonly = 0, pc_alt_writable = 0\<rparr>,
      \<lparr>pc_node_ids = [0], pc_est_cu = 12000, pc_est_message_bytes = 73, pc_alt_readonly = 0, pc_alt_writable = 0\<rparr>])
   = [1, 0 :: node_id]"
  by (rule conjunct1 [OF chunk_layer_with_partition [OF small_run [unfolded chunk_layer_def]]])

text \<open>
  C17: Without lookup tables the chunker never trips its debug assertion and fails exactly when an
  intent of the layer does not fit into an empty transaction: it reports the first such intent.
\<close>

theorem chunk_layer_with_outcome:
  assumes "\<not> ap_enabled alt" and "budget_in_range budget" and "list_all (\<lambda>n. n < length intents) layer"
  shows "case find (\<lambda>n. \<not> fits_in_empty (from_intent (intents ! n) budget oracle) budget alt) layer of
      Some n \<Rightarrow> chunk_layer_with dbg layer intents budget alt oracle =
                  Some (Inl (too_large budget alt (n, from_intent (intents ! n) budget oracle)))
    | None \<Rightarrow> \<exists>chunks. chunk_layer_with dbg layer intents budget alt oracle = Some (Inr chunks)"
proof -
  let ?fp = "\<lambda>n. from_intent (intents ! n) budget oracle"
  let ?fit = "\<lambda>n. fits_in_empty (?fp n) budget alt"
  have zip: "zip xs (map ?fp xs) = map (\<lambda>n. (n, ?fp n)) xs" for xs
    by (induction xs) simp_all
  have r: "chunk_layer_with dbg layer intents budget alt oracle =
      chunk_loop dbg budget alt (map (\<lambda>n. (n, ?fp n)) layer) (acc_new budget alt) []"
    using assms(3) by (simp add: chunk_layer_with_def zip)
  show ?thesis
  proof (cases "find (\<lambda>n. \<not> ?fit n) layer")
    case None
    then have "list_all (\<lambda>x. fits_in_empty (snd x) budget alt) (map (\<lambda>n. (n, ?fp n)) layer)"
      by (auto simp: find_None_iff list_all_iff)
    from chunk_loop_fits [OF assms(1,2) acc_holds_new _ this] None show ?thesis by (auto simp: r)
  next
    case (Some n)
    then obtain i where i: "i < length layer" "\<not> ?fit (layer ! i)" "n = layer ! i" "\<forall>j < i. ?fit (layer ! j)"
      by (auto simp: find_Some_iff)
    have "map (\<lambda>n. (n, ?fp n)) layer =
        map (\<lambda>n. (n, ?fp n)) (take i layer) @ (n, ?fp n) # map (\<lambda>n. (n, ?fp n)) (drop (Suc i) layer)"
      unfolding i(3) by (subst id_take_nth_drop [OF i(1)]) simp
    moreover have "list_all (\<lambda>x. fits_in_empty (snd x) budget alt) (map (\<lambda>n. (n, ?fp n)) (take i layer))"
      using i(1,4) by (auto simp: list_all_iff in_set_conv_nth)
    ultimately show ?thesis
      using chunk_loop_too_large [OF assms(1,2) acc_holds_new, of _ "(n, ?fp n)"] i Some by (simp add: r)
  qed
qed

theorem chunk_layer_with_outcome_witness:
  "\<exists>chunks. chunk_layer_with True [1, 0] [data_intent 0 [], data_intent 0 [1]] small_budget alt_policy_default
     program_aware_oracle = Some (Inr chunks)"
proof -
  have "find (\<lambda>n. \<not> fits_in_empty (from_intent ([data_intent 0 [], data_intent 0 [1]] ! n) small_budget program_aware_oracle)
      small_budget alt_policy_default) [1, 0] = None"
    by code_simp
  then show ?thesis
    using chunk_layer_with_outcome [of alt_policy_default small_budget "[data_intent 0 [], data_intent 0 [1]]" "[1, 0]"
        True program_aware_oracle]
    by (simp add: alt_policy_default_def small_budget_def budget_in_range_def usize_max_def)
qed



definition two_key_intent :: user_intent where
  "two_key_intent =
     \<lparr>ui_actor = 0, ui_ix = \<lparr>ix_program_id = 1, ix_accounts = [\<lparr>meta_pubkey = 2, meta_is_signer = False, meta_is_writable = True\<rparr>],
                          ix_data = []\<rparr>,
      ui_accesses = [], ui_priority = 0, ui_expires_at_slot = None\<rparr>"

definition one_key_alt :: alt_policy where
  "one_key_alt = alt_policy_default\<lparr>ap_enabled := True, ap_reserve_message_keys := 1\<rparr>"

definition one_key_budget :: tx_budget where
  "one_key_budget = small_budget\<lparr>tb_max_unique_accounts := 1\<rparr>"

lemma chunk_layer_with_single:
  "n < length intents \<Longrightarrow> fits_in_empty (from_intent (intents ! n) budget oracle) budget alt \<Longrightarrow>
   chunk_layer_with dbg [n] intents budget alt oracle =
     (if dbg \<and> \<not> can_add (acc_new budget alt) (from_intent (intents ! n) budget oracle) then None
      else Some (Inr [fst (take_planned_chunk (acc_add n (from_intent (intents ! n) budget oracle) (acc_new budget alt)))]))"
  by (simp add: chunk_layer_with_def Let_def)

text \<open>
  With lookup tables enabled the two size checks disagree: this intent fits into an empty
  transaction (one static key, one table key), yet \<open>can_add\<close> refuses it on an empty accumulator, so
  a debug build panics; a release build plans the chunk with more static keys than reserved
  counted, no lookup-table bytes, and an estimate below the size the first check computed.
\<close>

theorem chunk_layer_alt_checks_disagree:
  "fits_in_empty (from_intent two_key_intent one_key_budget program_aware_oracle) one_key_budget one_key_alt
   \<and> chunk_layer_with True [0] [two_key_intent] one_key_budget one_key_alt program_aware_oracle = None
   \<and> size_if_only_this (from_intent two_key_intent one_key_budget program_aware_oracle) one_key_budget one_key_alt = 109
   \<and> chunk_layer_with False [0] [two_key_intent] one_key_budget one_key_alt program_aware_oracle =
       Some (Inr [\<lparr>pc_node_ids = [0], pc_est_cu = 14500, pc_est_message_bytes = 75, pc_alt_readonly = 0, pc_alt_writable = 1\<rparr>])"
proof -
  have fit: "fits_in_empty (from_intent two_key_intent one_key_budget program_aware_oracle) one_key_budget one_key_alt"
    by code_simp
  moreover have "\<not> can_add (acc_new one_key_budget one_key_alt) (from_intent two_key_intent one_key_budget program_aware_oracle)"
    by code_simp
  moreover have "size_if_only_this (from_intent two_key_intent one_key_budget program_aware_oracle) one_key_budget one_key_alt = 109"
    by code_simp
  moreover have "fst (take_planned_chunk (acc_add 0 (from_intent two_key_intent one_key_budget program_aware_oracle)
      (acc_new one_key_budget one_key_alt))) =
      \<lparr>pc_node_ids = [0], pc_est_cu = 14500, pc_est_message_bytes = 75, pc_alt_readonly = 0, pc_alt_writable = 1\<rparr>"
    by code_simp
  ultimately show ?thesis by (simp add: chunk_layer_with_single)
qed
end
