(* ===== verification/Occ.thy ===== *)
theory Occ
  imports Bundles Complex_Main
begin

text \<open>
  Optimistic concurrency capture: bundler/src/occ/mod.rs and the RPC-backed fetcher of
  bundler/src/occ/rpc_fetcher.rs.

  A fetcher is a function on a state of its own (the client, the network), so successive calls may
  answer differently. A capture runs in a world that holds this state, the global counters and the
  sleeps taken so far; the random jitter of each attempt is a parameter. The value \<open>None\<close> is a
  panic. The RPC client is third-party code: \<open>get_slot\<close> and \<open>get_multi\<close> are parameters.
\<close>

section \<open>Data\<close>

record occ_metrics =
  om_captures :: u64
  om_retries :: u64
  om_slot_drift_rejects :: u64
  om_rpc_errors :: u64

record fetched_account =
  fa_key :: pubkey
  fa_lamports :: u64
  fa_owner :: pubkey
  fa_data :: bytes
  fa_slot :: u64

record occ_config =
  oc_max_slot_drift :: u64
  oc_max_retries :: nat
  oc_backoff_ms :: u64
  oc_include_readonly :: bool

definition occ_config_default :: occ_config where
  "occ_config_default =
     \<lparr>oc_max_slot_drift = 20, oc_max_retries = 4, oc_backoff_ms = 80, oc_include_readonly = True\<rparr>"

datatype occ_class = Fatal | Retriable

datatype occ_error =
    OccRpc string
  | MissingAccount pubkey
  | Unauthorized string
  | SlotDrift (sd_min: u64) (sd_max: u64) (sd_drift: u64) (sd_allowed: u64)
  | RetriesExhausted

record occ_snapshot =
  sn_versions :: "account_version list"
  sn_min_slot :: u64
  sn_max_slot :: u64

section \<open>Error classes\<close>

definition auth_message :: "string \<Rightarrow> bool" where
  "auth_message m \<longleftrightarrow>
     contains_str m ''unauthorized'' \<or> contains_str m ''forbidden''
     \<or> contains_str m ''permission denied'' \<or> contains_str m ''access denied''"

definition classify_rpc_message :: "string \<Rightarrow> occ_class" where
  "classify_rpc_message msg =
     (let m = to_ascii_lowercase msg in
      if auth_message m then Fatal
      else if contains_str m ''account not found'' \<or> contains_str m ''could not find account''
              \<or> contains_str m ''no such account''
      then Fatal else Retriable)"

definition occ_is_fatal :: "occ_error \<Rightarrow> bool" where
  "occ_is_fatal e =
     (case e of
        MissingAccount _ \<Rightarrow> True
      | Unauthorized _ \<Rightarrow> True
      | RetriesExhausted \<Rightarrow> True
      | SlotDrift _ _ _ _ \<Rightarrow> False
      | OccRpc msg \<Rightarrow> classify_rpc_message msg = Fatal)"

definition map_rpc_variant :: "occ_error \<Rightarrow> occ_error" where
  "map_rpc_variant e =
     (case e of
        OccRpc msg \<Rightarrow>
          if classify_rpc_message msg = Fatal \<and> auth_message (to_ascii_lowercase msg)
          then Unauthorized msg else OccRpc msg
      | other \<Rightarrow> other)"

section \<open>Fingerprints and targets\<close>

definition from_le_bytes :: "bytes \<Rightarrow> u64" where
  "from_le_bytes bs = foldr (\<lambda>b acc. push_bit 8 acc OR ucast b) bs 0"

definition data_hash64 :: "(bytes \<Rightarrow> hash32) \<Rightarrow> bytes \<Rightarrow> u64" where
  "data_hash64 H data = from_le_bytes (take 8 (key_bytes (H data)))"

definition within_drift :: "occ_snapshot \<Rightarrow> u64 \<Rightarrow> bool" where
  "within_drift self max_drift \<longleftrightarrow> sn_max_slot self - sn_min_slot self \<le> max_drift"

fun collect_accesses :: "bool \<Rightarrow> account_access list \<Rightarrow> pubkey list \<Rightarrow> pubkey list" where
  "collect_accesses include_readonly [] s = s"
| "collect_accesses include_readonly (acc # accs) s =
     collect_accesses include_readonly accs
       (if aa_access acc = Writable \<or> include_readonly then insort_insert (aa_pubkey acc) s else s)"

fun collect_loop :: "bool \<Rightarrow> user_intent list \<Rightarrow> pubkey list \<Rightarrow> pubkey list" where
  "collect_loop include_readonly [] s = s"
| "collect_loop include_readonly (intent # is) s =
     collect_loop include_readonly is (collect_accesses include_readonly (ui_accesses intent) s)"

definition collect_target_accounts :: "user_intent list \<Rightarrow> bool \<Rightarrow> pubkey list" where
  "collect_target_accounts intents include_readonly = collect_loop include_readonly intents []"

section \<open>Capture\<close>

type_synonym fetch_result = "(occ_error + (pubkey \<rightharpoonup> fetched_account)) option"
type_synonym 's fetcher = "'s \<Rightarrow> pubkey list \<Rightarrow> fetch_result \<times> 's"

record 's occ_world =
  ow_fetcher :: 's
  ow_metrics :: occ_metrics
  ow_sleeps :: "u64 list"

fun build_versions ::
    "(bytes \<Rightarrow> hash32) \<Rightarrow> (pubkey \<rightharpoonup> fetched_account) \<Rightarrow> pubkey list \<Rightarrow> account_version list \<Rightarrow> u64 \<Rightarrow> u64
      \<Rightarrow> occ_error + occ_snapshot" where
  "build_versions H m [] versions min_slot max_slot =
     Inr \<lparr>sn_versions = versions, sn_min_slot = min_slot, sn_max_slot = max_slot\<rparr>"
| "build_versions H m (key # keys) versions min_slot max_slot =
     (case m key of
        None \<Rightarrow> Inl (MissingAccount key)
      | Some fa \<Rightarrow>
          build_versions H m keys
            (versions @ [\<lparr>av_key = fa_key fa, av_lamports = fa_lamports fa, av_owner = fa_owner fa,
                          av_data_hash64 = data_hash64 H (fa_data fa), av_slot = fa_slot fa\<rparr>])
            (min min_slot (fa_slot fa)) (max max_slot (fa_slot fa)))"

definition capture_once ::
    "(bytes \<Rightarrow> hash32) \<Rightarrow> 's fetcher \<Rightarrow> pubkey list \<Rightarrow> 's \<Rightarrow> (occ_error + occ_snapshot) option \<times> 's" where
  "capture_once H fetch targets s =
     (case fetch s targets of
        (None, s') \<Rightarrow> (None, s')
      | (Some (Inl e), s') \<Rightarrow> (Some (Inl e), s')
      | (Some (Inr m), s') \<Rightarrow> (Some (build_versions H m targets [] (- 1) 0), s'))"

definition count_capture :: "'s occ_world \<Rightarrow> 's occ_world" where
  "count_capture w = w\<lparr>ow_metrics := (ow_metrics w)\<lparr>om_captures := om_captures (ow_metrics w) + 1\<rparr>\<rparr>"

definition count_drift :: "'s occ_world \<Rightarrow> 's occ_world" where
  "count_drift w =
     w\<lparr>ow_metrics := (ow_metrics w)\<lparr>om_slot_drift_rejects := om_slot_drift_rejects (ow_metrics w) + 1\<rparr>\<rparr>"

definition count_rpc_error :: "'s occ_world \<Rightarrow> 's occ_world" where
  "count_rpc_error w = w\<lparr>ow_metrics := (ow_metrics w)\<lparr>om_rpc_errors := om_rpc_errors (ow_metrics w) + 1\<rparr>\<rparr>"

definition count_retry_and_sleep :: "u64 \<Rightarrow> 's occ_world \<Rightarrow> 's occ_world" where
  "count_retry_and_sleep ms w =
     w\<lparr>ow_metrics := (ow_metrics w)\<lparr>om_retries := om_retries (ow_metrics w) + 1\<rparr>,
       ow_sleeps := ow_sleeps w @ [ms]\<rparr>"

definition next_backoff :: "u64 \<Rightarrow> u64" where
  "next_backoff backoff_ms = min (sat_mul backoff_ms 2) 5000"

function capture_loop ::
    "(bytes \<Rightarrow> hash32) \<Rightarrow> 's fetcher \<Rightarrow> (nat \<Rightarrow> u64) \<Rightarrow> occ_config \<Rightarrow> pubkey list \<Rightarrow> nat \<Rightarrow> u64 \<Rightarrow> 's occ_world
      \<Rightarrow> (occ_error + occ_snapshot) option \<times> 's occ_world" where
  "capture_loop H fetch jitter cfg targets attempt backoff_ms w =
     (case capture_once H fetch targets (ow_fetcher w) of
        (None, s) \<Rightarrow> (None, (count_capture w)\<lparr>ow_fetcher := s\<rparr>)
      | (Some (Inr snap), s) \<Rightarrow>
          (let w = (count_capture w)\<lparr>ow_fetcher := s\<rparr>
           in if within_drift snap (oc_max_slot_drift cfg) then (Some (Inr snap), w)
              else if attempt + 1 \<ge> oc_max_retries cfg
              then (Some (Inl (SlotDrift (sn_min_slot snap) (sn_max_slot snap) (sn_max_slot snap - sn_min_slot snap)
                                 (oc_max_slot_drift cfg))), count_drift w)
              else capture_loop H fetch jitter cfg targets (attempt + 1) (next_backoff backoff_ms)
                     (count_retry_and_sleep (backoff_ms + jitter (attempt + 1)) (count_drift w)))
      | (Some (Inl e0), s) \<Rightarrow>
          (let w = count_rpc_error ((count_capture w)\<lparr>ow_fetcher := s\<rparr>); e = map_rpc_variant e0
           in if occ_is_fatal e then (Some (Inl e), w)
              else if attempt + 1 \<ge> oc_max_retries cfg then (Some (Inl RetriesExhausted), w)
              else capture_loop H fetch jitter cfg targets (attempt + 1) (next_backoff backoff_ms)
                     (count_retry_and_sleep (backoff_ms + jitter (attempt + 1)) w)))"
  by pat_completeness auto
termination
  by (relation "measure (\<lambda>(H, fetch, jitter, cfg, targets, attempt, backoff_ms, w). oc_max_retries cfg - attempt)") auto

declare capture_loop.simps [simp del]

definition capture_with_targets ::
    "(bytes \<Rightarrow> hash32) \<Rightarrow> 's fetcher \<Rightarrow> (nat \<Rightarrow> u64) \<Rightarrow> pubkey list \<Rightarrow> occ_config \<Rightarrow> 's occ_world
      \<Rightarrow> (occ_error + occ_snapshot) option \<times> 's occ_world" where
  "capture_with_targets H fetch jitter targets cfg w =
     (if targets = [] then (Some (Inr \<lparr>sn_versions = [], sn_min_slot = 0, sn_max_slot = 0\<rparr>), w)
      else capture_loop H fetch jitter cfg targets 0 (max (oc_backoff_ms cfg) 1) w)"

definition capture_occ_with_retries ::
    "(bytes \<Rightarrow> hash32) \<Rightarrow> 's fetcher \<Rightarrow> (nat \<Rightarrow> u64) \<Rightarrow> user_intent list \<Rightarrow> occ_config \<Rightarrow> 's occ_world
      \<Rightarrow> (occ_error + occ_snapshot) option \<times> 's occ_world" where
  "capture_occ_with_retries H fetch jitter intents cfg w =
     (let targets = collect_target_accounts intents (oc_include_readonly cfg)
      in capture_with_targets H fetch jitter targets cfg w)"

definition capture_occ_with_retries_on_keys ::
    "(bytes \<Rightarrow> hash32) \<Rightarrow> 's fetcher \<Rightarrow> (nat \<Rightarrow> u64) \<Rightarrow> pubkey list \<Rightarrow> occ_config \<Rightarrow> 's occ_world
      \<Rightarrow> (occ_error + occ_snapshot) option \<times> 's occ_world" where
  "capture_occ_with_retries_on_keys H fetch jitter accounts cfg w =
     capture_with_targets H fetch jitter accounts cfg w"

section \<open>The RPC-backed fetcher (rpc_fetcher.rs)\<close>

record drift_stats =
  ds_window :: "bool list"
  ds_cap :: nat

definition drift_stats_new :: "nat \<Rightarrow> drift_stats" where
  "drift_stats_new cap = \<lparr>ds_window = [], ds_cap = cap\<rparr>"

text \<open>\<open>Vec::remove(0)\<close> of an empty window (capacity 0) panics; the constructors use capacity 256.\<close>

definition drift_record :: "drift_stats \<Rightarrow> bool \<Rightarrow> drift_stats option" where
  "drift_record self ok =
     (if length (ds_window self) = ds_cap self
      then if ds_window self = [] then None
           else Some (self\<lparr>ds_window := tl (ds_window self) @ [ok]\<rparr>)
      else Some (self\<lparr>ds_window := ds_window self @ [ok]\<rparr>))"

text \<open>The percentage goes to the log only; it is exact here where the code rounds to \<open>f64\<close>.\<close>

definition acceptance_pct :: "drift_stats \<Rightarrow> rat" where
  "acceptance_pct self =
     (if ds_window self = [] then 100
      else rat_of_nat (length (filter id (ds_window self))) * 100 / rat_of_nat (length (ds_window self)))"

record rpc_account =
  ra_lamports :: u64
  ra_owner :: pubkey
  ra_data :: bytes

type_synonym 'c get_slot_fn = "'c \<Rightarrow> (string + u64) \<times> 'c"
type_synonym 'c get_multi_fn = "'c \<Rightarrow> pubkey list \<Rightarrow> (string + (u64 \<times> rpc_account option list)) \<times> 'c"

fun stamp_accounts ::
    "u64 \<Rightarrow> pubkey list \<Rightarrow> rpc_account option list \<Rightarrow> (pubkey \<rightharpoonup> fetched_account) \<Rightarrow> fetch_result" where
  "stamp_accounts resp_slot keys [] out = Some (Inr out)"
| "stamp_accounts resp_slot [] (v # vs) out = None"
| "stamp_accounts resp_slot (key # keys) (v # vs) out =
     (case v of
        None \<Rightarrow> Some (Inl (MissingAccount key))
      | Some acc \<Rightarrow>
          stamp_accounts resp_slot keys vs
            (out(key \<mapsto> \<lparr>fa_key = key, fa_lamports = ra_lamports acc, fa_owner = ra_owner acc,
                         fa_data = ra_data acc, fa_slot = resp_slot\<rparr>)))"

definition rpc_fetch_many ::
    "'c get_slot_fn \<Rightarrow> 'c get_multi_fn \<Rightarrow> u64 \<Rightarrow> ('c \<times> drift_stats) fetcher" where
  "rpc_fetch_many get_slot get_multi max_slot_drift s keys =
     (case s of (c, stats) \<Rightarrow>
       (case get_slot c of
          (Inl e, c) \<Rightarrow> (Some (Inl (OccRpc (''get_slot: '' @ e))), (c, stats))
        | (Inr latest_slot, c) \<Rightarrow>
            (case get_multi c keys of
               (Inl e, c) \<Rightarrow> (Some (Inl (OccRpc (''get_multiple_accounts: '' @ e))), (c, stats))
             | (Inr (resp_slot, value), c) \<Rightarrow>
                 (let drift = sat_sub latest_slot resp_slot; ok = (drift \<le> max_slot_drift)
                  in case drift_record stats ok of
                       None \<Rightarrow> (None, (c, stats))
                     | Some stats \<Rightarrow> (stamp_accounts resp_slot keys value Map.empty, (c, stats))))))"


section \<open>Targets\<close>

definition wanted :: "bool \<Rightarrow> user_intent list \<Rightarrow> pubkey set" where
  "wanted include_readonly intents =
     {aa_pubkey a | a i. i \<in> set intents \<and> a \<in> set (ui_accesses i) \<and> (aa_access a = Writable \<or> include_readonly)}"

lemma collect_accesses_extend:
  "collect_accesses ro as s = bts_extend s (map aa_pubkey (filter (\<lambda>a. aa_access a = Writable \<or> ro) as))"
  by (induction as arbitrary: s) auto

lemma collect_loop_extend:
  "collect_loop ro is s =
     bts_extend s (concat (map (\<lambda>i. map aa_pubkey (filter (\<lambda>a. aa_access a = Writable \<or> ro) (ui_accesses i))) is))"
  by (induction "is" arbitrary: s) (simp_all add: collect_accesses_extend)

lemma collect_target_accounts_eq: "collect_target_accounts intents ro = sorted_list_of_set (wanted ro intents)"
proof -
  have "wanted ro intents =
      set (concat (map (\<lambda>i. map aa_pubkey (filter (\<lambda>a. aa_access a = Writable \<or> ro) (ui_accesses i))) intents))"
    by (auto simp: wanted_def)
  then show ?thesis
    by (simp add: collect_target_accounts_def collect_loop_extend bts_extend_eq_sorted_list_of_set)
qed

section \<open>A successful capture\<close>

text \<open>The versions a map of fetched accounts gives for the targets.\<close>

definition version_of :: "(bytes \<Rightarrow> hash32) \<Rightarrow> fetched_account \<Rightarrow> account_version" where
  "version_of H fa =
     \<lparr>av_key = fa_key fa, av_lamports = fa_lamports fa, av_owner = fa_owner fa,
      av_data_hash64 = data_hash64 H (fa_data fa), av_slot = fa_slot fa\<rparr>"

lemma build_versions_Inr:
  "build_versions H m keys vs lo hi = Inr snap \<Longrightarrow>
   \<exists>fas. map m keys = map Some fas \<and> sn_versions snap = vs @ map (version_of H) fas
     \<and> sn_min_slot snap = fold min (map fa_slot fas) lo \<and> sn_max_slot snap = fold max (map fa_slot fas) hi"
proof (induction keys arbitrary: vs lo hi)
  case (Cons k keys)
  then obtain fa where fa: "m k = Some fa" by (auto split: option.splits)
  let ?v = "version_of H fa"
  have "build_versions H m keys (vs @ [?v]) (min lo (fa_slot fa)) (max hi (fa_slot fa)) = Inr snap"
    using Cons.prems fa by (simp add: version_of_def)
  from Cons.IH [OF this] obtain fas where
    "map m keys = map Some fas" "sn_versions snap = (vs @ [?v]) @ map (version_of H) fas"
    "sn_min_slot snap = fold min (map fa_slot fas) (min lo (fa_slot fa))"
    "sn_max_slot snap = fold max (map fa_slot fas) (max hi (fa_slot fa))" by blast
  with fa show ?case
    by (intro exI [of _ "fa # fas"]) (simp add: min.commute max.commute)
qed auto

lemma build_versions_Inl: "build_versions H m keys vs lo hi = Inl e \<Longrightarrow> \<exists>k. e = MissingAccount k"
  by (induction keys arbitrary: vs lo hi) (auto split: option.splits)

lemma fold_min_le: "fold min xs (lo :: 'a::linorder) \<le> lo"
  by (induction xs arbitrary: lo) (simp_all, meson min.boundedE)

lemma fold_max_ge: "(lo :: 'a::linorder) \<le> fold max xs lo"
  by (induction xs arbitrary: lo) (simp_all, meson max.boundedE)

lemma fold_min_le_mem: "x \<in> set xs \<Longrightarrow> fold min xs (lo :: 'a::linorder) \<le> x"
proof (induction xs arbitrary: lo)
  case (Cons y xs)
  then show ?case using fold_min_le [of xs "min y lo"] by auto
qed simp

lemma fold_max_ge_mem: "x \<in> set xs \<Longrightarrow> (x :: 'a::linorder) \<le> fold max xs lo"
proof (induction xs arbitrary: lo)
  case (Cons y xs)
  then show ?case using fold_max_ge [of "max y lo" xs] by auto
qed simp

text \<open>What one attempt that the loop accepted says about the snapshot.\<close>

definition snapshot_ok :: "(bytes \<Rightarrow> hash32) \<Rightarrow> pubkey list \<Rightarrow> occ_config \<Rightarrow> (pubkey \<rightharpoonup> fetched_account) \<Rightarrow> occ_snapshot \<Rightarrow> bool" where
  "snapshot_ok H targets cfg m snap \<longleftrightarrow>
     build_versions H m targets [] (- 1) 0 = Inr snap \<and> within_drift snap (oc_max_slot_drift cfg)"

lemma snapshot_ok_slots:
  assumes "snapshot_ok H targets cfg m snap" and "targets \<noteq> []"
  shows "list_all (\<lambda>v. sn_min_slot snap \<le> av_slot v \<and> av_slot v \<le> sn_max_slot snap) (sn_versions snap)"
    and "unat (sn_max_slot snap) - unat (sn_min_slot snap) \<le> unat (oc_max_slot_drift cfg)"
    and "sn_min_slot snap \<le> sn_max_slot snap"
proof -
  from assms(1) obtain fas where f: "map m targets = map Some fas" "sn_versions snap = map (version_of H) fas"
    "sn_min_slot snap = fold min (map fa_slot fas) (- 1)" "sn_max_slot snap = fold max (map fa_slot fas) 0"
    using build_versions_Inr [of H m targets "[]" "- 1" 0 snap] by (auto simp: snapshot_ok_def)
  show l: "list_all (\<lambda>v. sn_min_slot snap \<le> av_slot v \<and> av_slot v \<le> sn_max_slot snap) (sn_versions snap)"
    by (auto simp: f list_all_iff version_of_def intro!: fold_min_le_mem fold_max_ge_mem)
  have "sn_versions snap \<noteq> []" using f(1,2) assms(2) by (cases fas) auto
  then show le: "sn_min_slot snap \<le> sn_max_slot snap"
    using l by (cases "sn_versions snap") (auto intro: order_trans)
  then have "unat (sn_max_slot snap - sn_min_slot snap) = unat (sn_max_slot snap) - unat (sn_min_slot snap)"
    by (simp add: unat_sub)
  with assms(1) show "unat (sn_max_slot snap) - unat (sn_min_slot snap) \<le> unat (oc_max_slot_drift cfg)"
    by (simp add: snapshot_ok_def within_drift_def word_le_nat_alt)
qed

lemma capture_loop_Ok:
  "capture_loop H fetch jitter cfg targets attempt backoff_ms w = (Some (Inr snap), w') \<Longrightarrow>
   \<exists>s m s'. fetch s targets = (Some (Inr m), s') \<and> snapshot_ok H targets cfg m snap"
proof (induction "oc_max_retries cfg - attempt" arbitrary: attempt backoff_ms w rule: less_induct)
  case less
  have fetched: "\<exists>m. fetch (ow_fetcher w) targets = (Some (Inr m), s) \<and> build_versions H m targets [] (- 1) 0 = Inr sn"
    if "capture_once H fetch targets (ow_fetcher w) = (Some (Inr sn), s)" for sn s
    using that by (auto simp: capture_once_def split: prod.splits option.splits sum.splits)
  have IH: "\<exists>s m s'. fetch s targets = (Some (Inr m), s') \<and> snapshot_ok H targets cfg m snap"
    if "capture_loop H fetch jitter cfg targets (Suc attempt) b v = (Some (Inr snap), w')"
      and "\<not> oc_max_retries cfg \<le> Suc attempt" for b v
    using less.hyps [OF _ that(1)] that(2) by simp
  obtain r s where c: "capture_once H fetch targets (ow_fetcher w) = (r, s)" by fastforce
  consider "r = None" | e0 where "r = Some (Inl e0)" | sn where "r = Some (Inr sn)"
    by (metis option.exhaust sum.exhaust)
  then show ?case
  proof cases
    case 1
    with c less.prems show ?thesis by (simp add: capture_loop.simps [of H fetch])
  next
    case (2 e0)
    with c less.prems IH show ?thesis
      by (auto simp: capture_loop.simps [of H fetch jitter cfg targets attempt] Let_def split: if_splits)
  next
    case (3 sn)
    show ?thesis
    proof (cases "within_drift sn (oc_max_slot_drift cfg)")
      case True
      with c 3 less.prems have "sn = snap" by (simp add: capture_loop.simps [of H fetch] Let_def)
      with fetched [of sn s] c 3 True show ?thesis by (auto simp: snapshot_ok_def)
    next
      case False
      with c 3 less.prems IH show ?thesis
        by (auto simp: capture_loop.simps [of H fetch jitter cfg targets attempt] Let_def split: if_splits)
    qed
  qed
qed

section \<open>Attempts and counters\<close>

definition err_count :: "occ_metrics \<Rightarrow> u64" where
  "err_count m = om_slot_drift_rejects m + om_rpc_errors m"

definition is_err :: "(occ_error + occ_snapshot) option \<Rightarrow> bool" where
  "is_err r \<longleftrightarrow> (\<exists>e. r = Some (Inl e))"

text \<open>
  After \<open>k\<close> retries: the counters have moved by the attempts made, one sleep lies between two
  attempts, and an error that is not fatal is given up only when no attempt is left.
\<close>

definition after_retries ::
    "occ_config \<Rightarrow> nat \<Rightarrow> 's occ_world \<Rightarrow> nat \<Rightarrow> (occ_error + occ_snapshot) option \<Rightarrow> 's occ_world \<Rightarrow> bool" where
  "after_retries cfg attempt w k r w' \<longleftrightarrow>
     attempt + k + 1 \<le> max (attempt + 1) (oc_max_retries cfg)
     \<and> length (ow_sleeps w') = length (ow_sleeps w) + k
     \<and> om_captures (ow_metrics w') = om_captures (ow_metrics w) + of_nat (k + 1)
     \<and> om_retries (ow_metrics w') = om_retries (ow_metrics w) + of_nat k
     \<and> err_count (ow_metrics w') = err_count (ow_metrics w) + of_nat (if is_err r then k + 1 else k)
     \<and> (\<forall>e. r = Some (Inl e) \<longrightarrow> occ_is_fatal e \<or> oc_max_retries cfg \<le> attempt + k + 1)"

lemmas world_defs = count_capture_def count_drift_def count_rpc_error_def count_retry_and_sleep_def err_count_def is_err_def

lemma capture_loop_attempts:
  "capture_loop H fetch jitter cfg targets attempt backoff_ms w = (r, w') \<Longrightarrow> \<exists>k. after_retries cfg attempt w k r w'"
proof (induction "oc_max_retries cfg - attempt" arbitrary: attempt backoff_ms w rule: less_induct)
  case less
  have step: "\<exists>k. after_retries cfg attempt w k r w'"
    if "capture_loop H fetch jitter cfg targets (Suc attempt) b v = (r, w')" and "\<not> oc_max_retries cfg \<le> Suc attempt"
      and "length (ow_sleeps v) = Suc (length (ow_sleeps w))"
      and "om_captures (ow_metrics v) = om_captures (ow_metrics w) + 1"
      and "om_retries (ow_metrics v) = om_retries (ow_metrics w) + 1"
      and "err_count (ow_metrics v) = err_count (ow_metrics w) + 1" for b v
  proof -
    note p = that
    have lt: "oc_max_retries cfg - Suc attempt < oc_max_retries cfg - attempt" using p(2) by linarith
    obtain k where "after_retries cfg (Suc attempt) v k r w'" using less.hyps [OF lt p(1)] by blast
    with p show ?thesis by (intro exI [of _ "Suc k"]) (auto simp: after_retries_def)
  qed
  obtain c s where c: "capture_once H fetch targets (ow_fetcher w) = (c, s)" by fastforce
  consider "c = None" | e0 where "c = Some (Inl e0)" | sn where "c = Some (Inr sn)"
    by (metis option.exhaust sum.exhaust)
  then show ?case
  proof cases
    case 1
    with c less.prems show ?thesis
      by (intro exI [of _ 0]) (auto simp: capture_loop.simps [of H fetch] after_retries_def world_defs)
  next
    case (2 e0)
    show ?thesis
    proof (cases "\<not> occ_is_fatal (map_rpc_variant e0) \<and> \<not> oc_max_retries cfg \<le> Suc attempt")
      case True
      with c 2 less.prems show ?thesis
        by (intro step) (auto simp: capture_loop.simps [of H fetch jitter cfg targets attempt] Let_def world_defs)
    next
      case False
      with c 2 less.prems show ?thesis
        by (intro exI [of _ 0]) (auto simp: capture_loop.simps [of H fetch] Let_def after_retries_def world_defs
            occ_is_fatal_def split: if_splits)
    qed
  next
    case (3 sn)
    show ?thesis
    proof (cases "\<not> within_drift sn (oc_max_slot_drift cfg) \<and> \<not> oc_max_retries cfg \<le> Suc attempt")
      case True
      with c 3 less.prems show ?thesis
        by (intro step) (auto simp: capture_loop.simps [of H fetch jitter cfg targets attempt] Let_def world_defs)
    next
      case False
      with c 3 less.prems show ?thesis
        by (intro exI [of _ 0]) (auto simp: capture_loop.simps [of H fetch] Let_def after_retries_def world_defs
            split: if_splits)
    qed
  qed
qed

section \<open>The fetcher interface\<close>

text \<open>What a capture needs of \<open>AccountFetcher\<close>: an entry is filed under the key it holds.\<close>

locale account_fetcher =
  fixes fetch :: "'s fetcher"
  assumes entry_key: "fst (fetch s keys) = Some (Inr m) \<Longrightarrow> m k = Some fa \<Longrightarrow> fa_key fa = k"
begin

lemma capture_loop_keys:
  assumes "capture_loop H fetch jitter cfg targets attempt backoff_ms w = (Some (Inr snap), w')"
  shows "map av_key (sn_versions snap) = targets"
proof -
  obtain s m s' where f: "fetch s targets = (Some (Inr m), s')" and ok: "snapshot_ok H targets cfg m snap"
    using capture_loop_Ok [OF assms] by blast
  then obtain fas where fas: "map m targets = map Some fas" "sn_versions snap = map (version_of H) fas"
    using build_versions_Inr [of H m targets "[]" "- 1" 0 snap] by (auto simp: snapshot_ok_def)
  have len: "length fas = length targets" using fas(1) by (metis length_map)
  have "fa_key (fas ! i) = targets ! i" if "i < length targets" for i
    using entry_key [of s targets m "targets ! i" "fas ! i"] f that arg_cong [OF fas(1), of "\<lambda>xs. xs ! i"] len by simp
  then have "map fa_key fas = targets" using len by (intro nth_equalityI) simp_all
  moreover have "map av_key (map (version_of H) fas) = map fa_key fas"
    by (simp add: version_of_def)
  ultimately show ?thesis by (simp add: fas(2))
qed

end

text \<open>A fetcher that reads all accounts of one call at one slot.\<close>

locale snapshot_fetcher = account_fetcher +
  assumes one_slot: "fst (fetch s keys) = Some (Inr m) \<Longrightarrow> \<exists>sl. \<forall>k fa. m k = Some fa \<longrightarrow> fa_slot fa = sl"
    and no_drift_error: "fst (fetch s keys) = Some (Inl e) \<Longrightarrow> \<not> (\<exists>a b c d. e = SlotDrift a b c d)"
begin

lemma build_versions_one_slot:
  "\<forall>k fa. m k = Some fa \<longrightarrow> fa_slot fa = sl \<Longrightarrow> build_versions H m keys vs lo hi = Inr snap \<Longrightarrow> keys \<noteq> [] \<Longrightarrow>
   sn_min_slot snap = min lo sl \<and> sn_max_slot snap = max hi sl"
proof (induction keys arbitrary: vs lo hi)
  case (Cons k keys)
  then obtain fa where fa: "m k = Some fa" "fa_slot fa = sl" by (auto split: option.splits)
  show ?case
  proof (cases "keys = []")
    case True
    with Cons.prems fa show ?thesis by auto
  next
    case False
    with Cons.prems fa obtain vs' where "build_versions H m keys vs' (min lo sl) (max hi sl) = Inr snap" by auto
    from Cons.IH [OF Cons.prems(1) this False] show ?thesis
      by (metis max.right_idem min.right_idem)
  qed
qed simp

lemma capture_once_no_drift:
  assumes "capture_once H fetch targets s = (Some (Inr snap), s')" and "targets \<noteq> []"
  shows "sn_min_slot snap = sn_max_slot snap"
proof -
  obtain m where f: "fst (fetch s targets) = Some (Inr m)" and b: "build_versions H m targets [] (- 1) 0 = Inr snap"
    using assms(1) by (auto simp: capture_once_def split: prod.splits option.splits sum.splits)
  obtain sl where sl: "\<forall>k fa. m k = Some fa \<longrightarrow> fa_slot fa = sl" using one_slot [OF f] by blast
  have "sl \<le> - 1" by (rule word_order.extremum)
  with build_versions_one_slot [OF sl b assms(2)] show ?thesis by (simp add: min_def max_def)
qed

lemma map_rpc_variant_no_drift: "\<not> (\<exists>a b c d. e = SlotDrift a b c d) \<Longrightarrow> map_rpc_variant e \<noteq> SlotDrift a b c d"
  by (cases e) (auto simp: map_rpc_variant_def)

lemma capture_loop_no_drift:
  "targets \<noteq> [] \<Longrightarrow> fst (capture_loop H fetch jitter cfg targets attempt backoff_ms w) \<noteq> Some (Inl (SlotDrift a b c d))"
proof (induction "oc_max_retries cfg - attempt" arbitrary: attempt backoff_ms w rule: less_induct)
  case less
  have IH: "fst (capture_loop H fetch jitter cfg targets (Suc attempt) bo v) \<noteq> Some (Inl (SlotDrift a b c d))"
    if "\<not> oc_max_retries cfg \<le> Suc attempt" for bo v
  proof -
    have "oc_max_retries cfg - Suc attempt < oc_max_retries cfg - attempt" using that by linarith
    from less.hyps [OF this less.prems] show ?thesis .
  qed
  obtain r s where c: "capture_once H fetch targets (ow_fetcher w) = (r, s)" by fastforce
  have drift: "within_drift sn (oc_max_slot_drift cfg)" if "r = Some (Inr sn)" for sn
    using capture_once_no_drift [of H targets "ow_fetcher w" sn s] c that less.prems by (simp add: within_drift_def)
  have err: "map_rpc_variant e \<noteq> SlotDrift a b c d" if "r = Some (Inl e)" for e
    using c that no_drift_error [of "ow_fetcher w" targets e] build_versions_Inl [of H _ targets "[]" "- 1" 0 e]
    by (intro map_rpc_variant_no_drift) (fastforce simp: capture_once_def split: prod.splits option.splits sum.splits)
  show ?case
    using c IH drift err
    by (auto simp: capture_loop.simps [of H fetch jitter cfg targets attempt] Let_def split: option.splits sum.splits)
qed

end

definition stamped :: "u64 \<Rightarrow> (pubkey \<rightharpoonup> fetched_account) \<Rightarrow> bool" where
  "stamped sl m \<longleftrightarrow> (\<forall>k fa. m k = Some fa \<longrightarrow> fa_key fa = k \<and> fa_slot fa = sl)"

lemma stamped_update [intro]:
  "stamped sl m \<Longrightarrow> fa_key fa = k \<Longrightarrow> fa_slot fa = sl \<Longrightarrow> stamped sl (m(k \<mapsto> fa))"
  by (simp add: stamped_def)

lemma stamp_accounts_entries:
  "stamp_accounts sl keys vs out = Some (Inr m) \<Longrightarrow> stamped sl out \<Longrightarrow> stamped sl m"
proof (induction vs arbitrary: keys out)
  case (Cons v vs)
  obtain key keys' where keys: "keys = key # keys'" using Cons.prems(1) by (cases keys) auto
  obtain acc where v: "v = Some acc" using Cons.prems(1) keys by (cases v) auto
  let ?out = "out(key \<mapsto> \<lparr>fa_key = key, fa_lamports = ra_lamports acc, fa_owner = ra_owner acc,
                         fa_data = ra_data acc, fa_slot = sl\<rparr>)"
  have "stamp_accounts sl keys' vs ?out = Some (Inr m)" using Cons.prems(1) keys v by simp
  moreover have "stamped sl ?out" by (rule stamped_update [OF Cons.prems(2)]) simp_all
  ultimately show ?case by (rule Cons.IH)
qed simp

lemma stamp_accounts_error: "stamp_accounts sl keys vs out = Some (Inl e) \<Longrightarrow> \<exists>k. e = MissingAccount k"
  by (induction sl keys vs out rule: stamp_accounts.induct) (auto split: option.splits)

lemma rpc_fetch_many_Inr:
  "fst (rpc_fetch_many get_slot get_multi d s keys) = Some (Inr m) \<Longrightarrow>
   \<exists>sl. stamped sl m"
  by (auto simp: rpc_fetch_many_def Let_def stamped_def dest!: stamp_accounts_entries
      split: prod.splits sum.splits option.splits)

lemma rpc_fetch_many_Inl:
  "fst (rpc_fetch_many get_slot get_multi d s keys) = Some (Inl e) \<Longrightarrow>
   (\<exists>msg. e = OccRpc msg) \<or> (\<exists>k. e = MissingAccount k)"
  by (auto simp: rpc_fetch_many_def Let_def dest: stamp_accounts_error split: prod.splits sum.splits option.splits)

interpretation rpc: snapshot_fetcher "rpc_fetch_many get_slot get_multi d" for get_slot get_multi d
proof unfold_locales
  fix s keys m k fa e
  show "fst (rpc_fetch_many get_slot get_multi d s keys) = Some (Inr m) \<Longrightarrow> m k = Some fa \<Longrightarrow> fa_key fa = k"
    by (drule rpc_fetch_many_Inr) (auto simp: stamped_def)
  show "fst (rpc_fetch_many get_slot get_multi d s keys) = Some (Inr m) \<Longrightarrow>
      \<exists>sl. \<forall>k fa. m k = Some fa \<longrightarrow> fa_slot fa = sl"
    by (drule rpc_fetch_many_Inr) (auto simp: stamped_def)
  show "fst (rpc_fetch_many get_slot get_multi d s keys) = Some (Inl e) \<Longrightarrow> \<not> (\<exists>a b c d. e = SlotDrift a b c d)"
    using rpc_fetch_many_Inl by blast
qed

section \<open>Properties\<close>

text \<open>
  The targets of a capture are exactly the accounts the intents write (and read, when
  \<open>include_readonly\<close> is set), each once, in ascending order.
\<close>

theorem collect_target_accounts_exact:
  "set (collect_target_accounts intents include_readonly) =
     {aa_pubkey a | a i. i \<in> set intents \<and> a \<in> set (ui_accesses i) \<and> (aa_access a = Writable \<or> include_readonly)}
   \<and> sorted_wrt (<) (collect_target_accounts intents include_readonly)"
proof -
  have "wanted include_readonly intents \<subseteq> aa_pubkey ` (\<Union>i \<in> set intents. set (ui_accesses i))"
    by (auto simp: wanted_def)
  then have "finite (wanted include_readonly intents)" by (rule finite_subset) simp
  then show ?thesis
    unfolding collect_target_accounts_eq by (simp add: strict_sorted_iff) (simp add: wanted_def)
qed

text \<open>
  A capture over RPC that succeeds returns the version of every target, in the order of the
  targets, with all slots inside the reported window, and the window inside the allowed drift;
  the subtraction that computes the drift does not wrap.
\<close>

theorem capture_rpc_success:
  assumes "capture_with_targets H (rpc_fetch_many get_slot get_multi d) jitter targets cfg w = (Some (Inr snap), w')"
  shows "map av_key (sn_versions snap) = targets
    \<and> list_all (\<lambda>v. sn_min_slot snap \<le> av_slot v \<and> av_slot v \<le> sn_max_slot snap) (sn_versions snap)
    \<and> sn_min_slot snap \<le> sn_max_slot snap
    \<and> unat (sn_max_slot snap) - unat (sn_min_slot snap) \<le> unat (oc_max_slot_drift cfg)"
proof (cases "targets = []")
  case True
  with assms show ?thesis by (auto simp: capture_with_targets_def)
next
  case False
  with assms have l: "capture_loop H (rpc_fetch_many get_slot get_multi d) jitter cfg targets 0 (max (oc_backoff_ms cfg) 1) w
      = (Some (Inr snap), w')" by (simp add: capture_with_targets_def)
  obtain m where ok: "snapshot_ok H targets cfg m snap" using capture_loop_Ok [OF l] by blast
  from rpc.capture_loop_keys [OF l] snapshot_ok_slots [OF ok False] show ?thesis by blast
qed

text \<open>A client with one account per key, for the concrete runs.\<close>

definition one_slot_rpc :: "u64 \<Rightarrow> unit get_multi_fn" where
  "one_slot_rpc sl c keys =
     (Inr (sl, map (\<lambda>k. Some \<lparr>ra_lamports = 5, ra_owner = 1, ra_data = []\<rparr>) keys), c)"

definition start_world :: "(unit \<times> drift_stats) occ_world" where
  "start_world =
     \<lparr>ow_fetcher = ((), drift_stats_new 256),
      ow_metrics = \<lparr>om_captures = 0, om_retries = 0, om_slot_drift_rejects = 0, om_rpc_errors = 0\<rparr>, ow_sleeps = []\<rparr>"

lemma sample_capture:
  "fst (capture_with_targets (\<lambda>_. 0) (rpc_fetch_many (\<lambda>c. (Inr 900, c)) (one_slot_rpc 100) 150) (\<lambda>_. 0) [3, 4]
       occ_config_default start_world)
   = Some (Inr \<lparr>sn_versions =
        [\<lparr>av_key = 3, av_lamports = 5, av_owner = 1, av_data_hash64 = 0, av_slot = 100\<rparr>,
         \<lparr>av_key = 4, av_lamports = 5, av_owner = 1, av_data_hash64 = 0, av_slot = 100\<rparr>],
        sn_min_slot = 100, sn_max_slot = 100\<rparr>)"
  by code_simp

theorem capture_rpc_success_witness:
  "sn_min_slot \<lparr>sn_versions =
        [\<lparr>av_key = 3, av_lamports = 5, av_owner = 1, av_data_hash64 = 0, av_slot = 100\<rparr>,
         \<lparr>av_key = 4, av_lamports = 5, av_owner = 1, av_data_hash64 = 0, av_slot = 100\<rparr>],
        sn_min_slot = 100, sn_max_slot = 100\<rparr> \<le> (100 :: u64)"
proof -
  obtain r w' where c: "capture_with_targets (\<lambda>_. 0) (rpc_fetch_many (\<lambda>c. (Inr 900, c)) (one_slot_rpc 100) 150) (\<lambda>_. 0) [3, 4]
       occ_config_default start_world = (r, w')" by fastforce
  with sample_capture have "r = Some (Inr \<lparr>sn_versions =
        [\<lparr>av_key = 3, av_lamports = 5, av_owner = 1, av_data_hash64 = 0, av_slot = 100\<rparr>,
         \<lparr>av_key = 4, av_lamports = 5, av_owner = 1, av_data_hash64 = 0, av_slot = 100\<rparr>],
        sn_min_slot = 100, sn_max_slot = 100\<rparr>)" by simp
  from capture_rpc_success [OF c [unfolded this]] show ?thesis by simp
qed

text \<open>
  A capture makes at most \<open>max_retries\<close> attempts (but at least one), sleeps exactly between two
  attempts, and counts attempts, retries and failed attempts exactly; an error that is not fatal is
  returned only when all attempts are used.
\<close>

theorem capture_attempts_bounded:
  assumes "capture_with_targets H fetch jitter targets cfg w = (r, w')" and "targets \<noteq> []"
  shows "\<exists>k. k + 1 \<le> max 1 (oc_max_retries cfg)
    \<and> length (ow_sleeps w') = length (ow_sleeps w) + k
    \<and> om_captures (ow_metrics w') = om_captures (ow_metrics w) + of_nat (k + 1)
    \<and> om_retries (ow_metrics w') = om_retries (ow_metrics w) + of_nat k
    \<and> err_count (ow_metrics w') = err_count (ow_metrics w) + of_nat (if is_err r then k + 1 else k)
    \<and> (\<forall>e. r = Some (Inl e) \<longrightarrow> occ_is_fatal e \<or> oc_max_retries cfg \<le> k + 1)"
  using capture_loop_attempts [of H fetch jitter cfg targets 0 "max (oc_backoff_ms cfg) 1" w r w'] assms
  by (auto simp: capture_with_targets_def after_retries_def)

theorem capture_attempts_bounded_witness:
  "\<exists>k. k + 1 \<le> max 1 (oc_max_retries occ_config_default)
    \<and> length (ow_sleeps (snd (capture_with_targets (\<lambda>_. 0) (rpc_fetch_many (\<lambda>c. (Inr 900, c)) (one_slot_rpc 100) 150)
        (\<lambda>_. 0) [3] occ_config_default start_world))) = k"
  using capture_attempts_bounded [of "\<lambda>_. 0" "rpc_fetch_many (\<lambda>c. (Inr 900, c)) (one_slot_rpc 100) 150" "\<lambda>_. 0" "[3]"
      occ_config_default start_world, OF prod.collapse [symmetric]]
  by (auto simp: start_world_def)

text \<open>
  The drift check never rejects a capture over RPC: all accounts of a response carry one slot, so
  \<open>SlotDrift\<close> is never returned, and a response that lies any number of slots behind the latest slot
  (here 800, with 150 allowed) is accepted, because the comparison with the latest slot only feeds
  the statistics.
\<close>

theorem capture_rpc_ignores_drift:
  "fst (capture_with_targets H (rpc_fetch_many get_slot get_multi d) jitter targets cfg w) \<noteq> Some (Inl (SlotDrift a b c e))
   \<and> fst (capture_with_targets (\<lambda>_. 0) (rpc_fetch_many (\<lambda>c. (Inr 900, c)) (one_slot_rpc 100) 150) (\<lambda>_. 0) [3, 4]
       occ_config_default start_world)
     = Some (Inr \<lparr>sn_versions =
        [\<lparr>av_key = 3, av_lamports = 5, av_owner = 1, av_data_hash64 = 0, av_slot = 100\<rparr>,
         \<lparr>av_key = 4, av_lamports = 5, av_owner = 1, av_data_hash64 = 0, av_slot = 100\<rparr>],
        sn_min_slot = 100, sn_max_slot = 100\<rparr>)"
  using rpc.capture_loop_no_drift [of targets H get_slot get_multi d jitter cfg 0 "max (oc_backoff_ms cfg) 1" w a b c e]
    sample_capture
  by (simp add: capture_with_targets_def)
end
