(* ===== verification/Alt.thy ===== *)
theory Alt
  imports Chunking
begin

text \<open>
  Address lookup tables: the catalog of bundler/src/alt/table_catalog.rs and the caching manager of
  bundler/src/alt.rs.

  The iteration order of the usage map is the parameter \<open>order\<close>; the two clock readings of a
  resolution are the parameters \<open>now\<close> and \<open>now'\<close> (milliseconds). The mutexes are taken to be
  available (they are only poisoned by a panic of another thread). The RPC client and the decoder
  of table accounts are third-party: \<open>get_account\<close> and \<open>decode\<close> are parameters.
\<close>

section \<open>The table catalog\<close>

record lookup_table =
  lt_key :: pubkey
  lt_addresses :: "pubkey list"

record table_catalog =
  tc_tables :: "lookup_table list"
  tc_reverse :: "pubkey \<rightharpoonup> pubkey \<times> u8"

text \<open>The inner loop stops at index 255 (\<open>u8::MAX\<close>), so it does not enter that index.\<close>

fun index_addresses :: "pubkey \<Rightarrow> nat \<Rightarrow> pubkey list \<Rightarrow> (pubkey \<rightharpoonup> pubkey \<times> u8) \<Rightarrow> (pubkey \<rightharpoonup> pubkey \<times> u8)" where
  "index_addresses tkey i [] reverse = reverse"
| "index_addresses tkey i (pk # pks) reverse =
     (if i \<ge> 255 then reverse
      else index_addresses tkey (Suc i) pks (reverse(pk \<mapsto> (tkey, word_of_nat i))))"

fun index_tables :: "lookup_table list \<Rightarrow> (pubkey \<rightharpoonup> pubkey \<times> u8) \<Rightarrow> (pubkey \<rightharpoonup> pubkey \<times> u8)" where
  "index_tables [] reverse = reverse"
| "index_tables (t # ts) reverse = index_tables ts (index_addresses (lt_key t) 0 (lt_addresses t) reverse)"

definition from_tables :: "lookup_table list \<Rightarrow> table_catalog" where
  "from_tables tables = \<lparr>tc_tables = tables, tc_reverse = index_tables tables Map.empty\<rparr>"

type_synonym account_reader = "pubkey \<Rightarrow> string + (pubkey \<times> bytes)"

fun fetch_tables ::
    "account_reader \<Rightarrow> (bytes \<Rightarrow> string + pubkey list) \<Rightarrow> pubkey \<Rightarrow> pubkey list \<Rightarrow> lookup_table list" where
  "fetch_tables get_account decode alt_program [] = []"
| "fetch_tables get_account decode alt_program (tpk # tpks) =
     (let rest = fetch_tables get_account decode alt_program tpks
      in case get_account tpk of
           Inl _ \<Rightarrow> rest
         | Inr (acc_owner, acc_data) \<Rightarrow>
             if acc_owner \<noteq> alt_program then rest
             else (case decode acc_data of
                     Inl _ \<Rightarrow> rest
                   | Inr addresses \<Rightarrow>
                       if addresses = [] then rest
                       else \<lparr>lt_key = tpk, lt_addresses = addresses\<rparr> # rest))"

definition from_rpc ::
    "account_reader \<Rightarrow> (bytes \<Rightarrow> string + pubkey list) \<Rightarrow> pubkey \<Rightarrow> pubkey list \<Rightarrow> string + table_catalog" where
  "from_rpc get_account decode alt_program table_pubkeys =
     (let tables = fetch_tables get_account decode alt_program table_pubkeys
      in if tables = [] then Inl ''no LUTs fetched; provide at least one valid table''
         else Inr (from_tables tables))"

fun resolve_desired :: "table_catalog \<Rightarrow> pubkey list \<Rightarrow> pubkey list \<times> pubkey list \<Rightarrow> pubkey list \<times> pubkey list" where
  "resolve_desired self [] s = s"
| "resolve_desired self (k # ks) (used_tables, resolvable) =
     resolve_desired self ks
       (case tc_reverse self k of
          Some (table, _) \<Rightarrow> (insort_insert table used_tables, resolvable @ [k])
        | None \<Rightarrow> (used_tables, resolvable))"

definition tables_for :: "table_catalog \<Rightarrow> pubkey list \<Rightarrow> lookup_table list \<times> pubkey list" where
  "tables_for self desired =
     (case resolve_desired self desired ([], []) of (used_tables, resolvable) \<Rightarrow>
        if used_tables = [] then ([], [])
        else (filter (\<lambda>t. lt_key t \<in> set used_tables) (tc_tables self), resolvable))"

definition catalog_lookup :: "table_catalog \<Rightarrow> pubkey \<Rightarrow> (pubkey \<times> u8) option" where
  "catalog_lookup self key = tc_reverse self key"

definition catalog_all :: "table_catalog \<Rightarrow> lookup_table list" where
  "catalog_all self = tc_tables self"

section \<open>The manager's data\<close>

record alt_usage_stats =
  us_keys_offloaded :: nat
  us_readonly_offloaded :: nat
  us_writable_offloaded :: nat
  us_estimated_saved_bytes :: nat

record alt_resolution =
  ar_tables :: "lookup_table list"
  ar_stats :: alt_usage_stats
  ar_cache_hit :: bool

definition stats_default :: alt_usage_stats where
  "stats_default =
     \<lparr>us_keys_offloaded = 0, us_readonly_offloaded = 0, us_writable_offloaded = 0, us_estimated_saved_bytes = 0\<rparr>"

definition resolution_default :: alt_resolution where
  "resolution_default = \<lparr>ar_tables = [], ar_stats = stats_default, ar_cache_hit = False\<rparr>"

record alt_metrics =
  am_total_resolutions :: u64
  am_cache_hits :: u64
  am_keys_offloaded :: u64
  am_readonly_offloaded :: u64
  am_writable_offloaded :: u64
  am_estimated_saved_bytes :: u64

definition alt_metrics_default :: alt_metrics where
  "alt_metrics_default =
     \<lparr>am_total_resolutions = 0, am_cache_hits = 0, am_keys_offloaded = 0, am_readonly_offloaded = 0,
      am_writable_offloaded = 0, am_estimated_saved_bytes = 0\<rparr>"

definition no_alt_resolve_tables :: "pubkey \<Rightarrow> user_intent list \<Rightarrow> alt_resolution" where
  "no_alt_resolve_tables payer intents = resolution_default"

definition no_alt_metrics :: alt_metrics where
  "no_alt_metrics = alt_metrics_default"

record cache_entry =
  en_resolution :: alt_resolution
  en_expires_at :: nat

record key_usage =
  ku_pubkey :: pubkey
  ku_writable :: bool
  ku_signer :: bool
  ku_freq :: u32

record alt_manager =
  mg_policy :: alt_policy
  mg_ttl :: nat
  mg_cache :: "bytes \<rightharpoonup> cache_entry"
  mg_metrics :: alt_metrics
  mg_catalog :: "table_catalog option"

definition alt_manager_new :: "alt_policy \<Rightarrow> nat \<Rightarrow> alt_manager" where
  "alt_manager_new policy ttl =
     \<lparr>mg_policy = policy, mg_ttl = ttl, mg_cache = Map.empty, mg_metrics = alt_metrics_default, mg_catalog = None\<rparr>"

definition with_catalog :: "table_catalog \<Rightarrow> alt_manager \<Rightarrow> alt_manager" where
  "with_catalog catalog self = self\<lparr>mg_catalog := Some catalog\<rparr>"

section \<open>Key usage\<close>

fun count_accounts :: "account_meta list \<Rightarrow> (pubkey \<rightharpoonup> key_usage) \<Rightarrow> (pubkey \<rightharpoonup> key_usage)" where
  "count_accounts [] usage = usage"
| "count_accounts (account # accounts) usage =
     (let entry = (case usage (meta_pubkey account) of
                     Some e \<Rightarrow> e
                   | None \<Rightarrow> \<lparr>ku_pubkey = meta_pubkey account, ku_writable = False, ku_signer = False, ku_freq = 0\<rparr>);
          entry = entry\<lparr>ku_freq := sat_add (ku_freq entry) 1,
                        ku_writable := ku_writable entry \<or> meta_is_writable account,
                        ku_signer := ku_signer entry \<or> meta_is_signer account\<rparr>
      in count_accounts accounts (usage(meta_pubkey account \<mapsto> entry)))"

fun count_intents :: "user_intent list \<Rightarrow> (pubkey \<rightharpoonup> key_usage) \<Rightarrow> (pubkey \<rightharpoonup> key_usage)" where
  "count_intents [] usage = usage"
| "count_intents (intent # is) usage = count_intents is (count_accounts (ix_accounts (ui_ix intent)) usage)"

definition build_key_usage :: "pubkey \<Rightarrow> user_intent list \<Rightarrow> (pubkey \<rightharpoonup> key_usage)" where
  "build_key_usage payer intents = (count_intents intents Map.empty)(payer := None)"

definition key_cost :: "nat \<Rightarrow> key_usage \<Rightarrow> int" where
  "key_cost per_index_byte usage =
     (let static_cost = 32 * int (unat (ku_freq usage));
          alt_cost = int per_index_byte * int (unat (ku_freq usage))
      in static_cost - alt_cost + (if ku_writable usage then 8 else 0))"

definition estimate_saved_bytes :: "alt_policy \<Rightarrow> key_usage list \<Rightarrow> nat" where
  "estimate_saved_bytes policy offload =
     (let static_bytes = 32 * length offload;
          index_bytes = ap_per_alt_index_byte policy * length offload;
          table_bytes = ap_per_table_fixed_bytes policy
      in static_bytes - (index_bytes + table_bytes))"

definition derive_table_key :: "(bytes \<Rightarrow> hash32) \<Rightarrow> pubkey list \<Rightarrow> pubkey" where
  "derive_table_key H addresses = H (concat (map key_bytes addresses))"

definition cache_key_from :: "key_usage list \<Rightarrow> bytes" where
  "cache_key_from entries =
     concat (map (\<lambda>e. key_bytes (ku_pubkey e) @ [if ku_writable e then 1 else 0]) entries)"

definition cache_key_from_pubkeys :: "pubkey list \<Rightarrow> bytes" where
  "cache_key_from_pubkeys pks = concat (map key_bytes pks)"

section \<open>Resolution\<close>

text \<open>
  The keys to offload: what remains after signers and reserved slots, cut at the maximum; \<open>None\<close> is
  one of the early returns. The cut comes after the test for an empty list, so a maximum of 0 gives
  an empty list that is not an early return.
\<close>

definition offload_keys :: "alt_policy \<Rightarrow> key_usage list \<Rightarrow> key_usage list option" where
  "offload_keys policy entries =
     (let must_keep = filter ku_signer entries;
          entries = filter (\<lambda>u. \<not> ku_signer u) entries;
          reserved_slots = ap_reserve_message_keys policy
      in if entries = [] \<and> must_keep = [] then None
         else if reserved_slots \<le> length must_keep then None
         else let reserved_slots = reserved_slots - length must_keep
              in if length entries \<le> reserved_slots then None
                 else let entries = sort_key (\<lambda>u. - key_cost (ap_per_alt_index_byte policy) u) entries;
                          offload = drop reserved_slots entries
                      in if offload = [] then None
                         else Some (if length offload > ap_max_alt_keys policy
                                    then take (ap_max_alt_keys policy) offload else offload))"

definition catalog_resolution :: "alt_policy \<Rightarrow> table_catalog \<Rightarrow> key_usage list \<Rightarrow> (alt_resolution \<times> pubkey list) option" where
  "catalog_resolution policy catalog offload =
     (let desired = map ku_pubkey offload
      in case tables_for catalog desired of (tables, resolvable) \<Rightarrow>
           if tables = [] \<or> resolvable = [] then None
           else let hits = filter (\<lambda>u. ku_pubkey u \<in> set resolvable) offload
                in Some (\<lparr>ar_tables = tables,
                          ar_stats = \<lparr>us_keys_offloaded = length resolvable,
                                      us_readonly_offloaded = length (filter (\<lambda>u. \<not> ku_writable u) hits),
                                      us_writable_offloaded = length (filter ku_writable hits),
                                      us_estimated_saved_bytes = estimate_saved_bytes policy hits\<rparr>,
                          ar_cache_hit = False\<rparr>, resolvable))"

definition synthetic_resolution :: "(bytes \<Rightarrow> hash32) \<Rightarrow> alt_policy \<Rightarrow> key_usage list \<Rightarrow> alt_resolution" where
  "synthetic_resolution H policy offload =
     (let addresses = map ku_pubkey offload
      in \<lparr>ar_tables = [\<lparr>lt_key = derive_table_key H addresses, lt_addresses = addresses\<rparr>],
          ar_stats = \<lparr>us_keys_offloaded = length addresses,
                      us_readonly_offloaded = length (filter (\<lambda>u. \<not> ku_writable u) offload),
                      us_writable_offloaded = length (filter ku_writable offload),
                      us_estimated_saved_bytes = estimate_saved_bytes policy offload\<rparr>,
          ar_cache_hit = False\<rparr>)"

definition usage_entries :: "pubkey list \<Rightarrow> (pubkey \<rightharpoonup> key_usage) \<Rightarrow> key_usage list" where
  "usage_entries order usage = map (\<lambda>k. the (usage k)) (filter (\<lambda>k. usage k \<noteq> None) order)"

definition compute_offload_plan ::
    "(bytes \<Rightarrow> hash32) \<Rightarrow> pubkey list \<Rightarrow> nat \<Rightarrow> nat \<Rightarrow> pubkey \<Rightarrow> user_intent list \<Rightarrow> alt_manager
      \<Rightarrow> alt_resolution \<times> alt_manager" where
  "compute_offload_plan H order now now' payer intents self =
     (if \<not> ap_enabled (mg_policy self) then (resolution_default, self)
      else (case offload_keys (mg_policy self) (usage_entries order (build_key_usage payer intents)) of
              None \<Rightarrow> (resolution_default, self)
            | Some offload \<Rightarrow>
              (case mg_catalog self of
                Some catalog \<Rightarrow>
                  (case catalog_resolution (mg_policy self) catalog offload of
                     None \<Rightarrow> (resolution_default, self)
                   | Some (resolution, resolvable) \<Rightarrow>
                       (let cache_key = cache_key_from_pubkeys (sort_key id resolvable);
                            entry = \<lparr>en_resolution = resolution, en_expires_at = now' + mg_ttl self\<rparr>
                        in (resolution, self\<lparr>mg_cache := (mg_cache self)(cache_key \<mapsto> entry)\<rparr>)))
              | None \<Rightarrow>
                  (let offload = sort_key ku_pubkey offload;
                       cache_key = cache_key_from offload;
                       fresh = (\<lambda>cache.
                         let resolution = synthetic_resolution H (mg_policy self) offload;
                             entry = \<lparr>en_resolution = resolution, en_expires_at = now' + mg_ttl self\<rparr>
                         in (resolution, self\<lparr>mg_cache := cache(cache_key \<mapsto> entry)\<rparr>))
                   in case mg_cache self cache_key of
                        Some entry \<Rightarrow>
                          if en_expires_at entry > now
                          then ((en_resolution entry)\<lparr>ar_cache_hit := True\<rparr>, self)
                          else fresh ((mg_cache self)(cache_key := None))
                      | None \<Rightarrow> fresh (mg_cache self)))))"

definition resolve_tables ::
    "(bytes \<Rightarrow> hash32) \<Rightarrow> pubkey list \<Rightarrow> nat \<Rightarrow> nat \<Rightarrow> pubkey \<Rightarrow> user_intent list \<Rightarrow> alt_manager
      \<Rightarrow> alt_resolution \<times> alt_manager" where
  "resolve_tables H order now now' payer intents self =
     (case compute_offload_plan H order now now' payer intents self of (resolution, self) \<Rightarrow>
        let m = mg_metrics self; st = ar_stats resolution;
            m = \<lparr>am_total_resolutions = am_total_resolutions m + 1,
                 am_cache_hits = am_cache_hits m + (if ar_cache_hit resolution then 1 else 0),
                 am_keys_offloaded = am_keys_offloaded m + of_nat (us_keys_offloaded st),
                 am_readonly_offloaded = am_readonly_offloaded m + of_nat (us_readonly_offloaded st),
                 am_writable_offloaded = am_writable_offloaded m + of_nat (us_writable_offloaded st),
                 am_estimated_saved_bytes = am_estimated_saved_bytes m + of_nat (us_estimated_saved_bytes st)\<rparr>
        in (resolution, self\<lparr>mg_metrics := m\<rparr>))"

definition alt_manager_metrics :: "alt_manager \<Rightarrow> alt_metrics" where
  "alt_manager_metrics self = mg_metrics self"


section \<open>What the usage map records\<close>

definition usage_exact :: "account_meta list \<Rightarrow> (pubkey \<rightharpoonup> key_usage) \<Rightarrow> bool" where
  "usage_exact ms usage \<longleftrightarrow>
     (\<forall>k. (usage k = None \<longleftrightarrow> k \<notin> meta_pubkey ` set ms)
        \<and> (\<forall>e. usage k = Some e \<longrightarrow> ku_pubkey e = k
               \<and> (ku_signer e \<longleftrightarrow> (\<exists>m \<in> set ms. meta_pubkey m = k \<and> meta_is_signer m))
               \<and> (ku_writable e \<longleftrightarrow> (\<exists>m \<in> set ms. meta_pubkey m = k \<and> meta_is_writable m))))"

lemma usage_exact_Nil [inv_intros]: "usage_exact [] Map.empty"
  by (simp add: usage_exact_def)

lemma count_accounts_exact: "usage_exact ms usage \<Longrightarrow> usage_exact (ms @ as) (count_accounts as usage)"
proof (induction as arbitrary: ms usage)
  case (Cons a as)
  let ?old = "case usage (meta_pubkey a) of Some e \<Rightarrow> e
      | None \<Rightarrow> \<lparr>ku_pubkey = meta_pubkey a, ku_writable = False, ku_signer = False, ku_freq = 0\<rparr>"
  let ?new = "?old\<lparr>ku_freq := sat_add (ku_freq ?old) 1, ku_writable := ku_writable ?old \<or> meta_is_writable a,
                ku_signer := ku_signer ?old \<or> meta_is_signer a\<rparr>"
  have none: "\<forall>m \<in> set ms. meta_pubkey m \<noteq> meta_pubkey a" if "usage (meta_pubkey a) = None"
    using Cons.prems [unfolded usage_exact_def, rule_format, of "meta_pubkey a"] that by (simp add: image_iff) metis
  have some: "ku_pubkey e = meta_pubkey a
      \<and> (ku_signer e \<longleftrightarrow> (\<exists>m \<in> set ms. meta_pubkey m = meta_pubkey a \<and> meta_is_signer m))
      \<and> (ku_writable e \<longleftrightarrow> (\<exists>m \<in> set ms. meta_pubkey m = meta_pubkey a \<and> meta_is_writable m))"
    if "usage (meta_pubkey a) = Some e" for e
    using Cons.prems [unfolded usage_exact_def, rule_format, of "meta_pubkey a"] that by simp
  have old: "ku_pubkey ?old = meta_pubkey a
      \<and> (ku_signer ?old \<longleftrightarrow> (\<exists>m \<in> set ms. meta_pubkey m = meta_pubkey a \<and> meta_is_signer m))
      \<and> (ku_writable ?old \<longleftrightarrow> (\<exists>m \<in> set ms. meta_pubkey m = meta_pubkey a \<and> meta_is_writable m))"
    using none some by (cases "usage (meta_pubkey a)") simp_all
  have "usage_exact (ms @ [a]) (usage(meta_pubkey a \<mapsto> ?new))"
    unfolding usage_exact_def
  proof (rule allI, rule conjI)
    fix k
    show "(usage(meta_pubkey a \<mapsto> ?new)) k = None \<longleftrightarrow> k \<notin> meta_pubkey ` set (ms @ [a])"
      using Cons.prems by (auto simp: usage_exact_def)
    show "\<forall>e. (usage(meta_pubkey a \<mapsto> ?new)) k = Some e \<longrightarrow> ku_pubkey e = k
        \<and> (ku_signer e \<longleftrightarrow> (\<exists>m \<in> set (ms @ [a]). meta_pubkey m = k \<and> meta_is_signer m))
        \<and> (ku_writable e \<longleftrightarrow> (\<exists>m \<in> set (ms @ [a]). meta_pubkey m = k \<and> meta_is_writable m))"
    proof (cases "k = meta_pubkey a")
      case True
      then show ?thesis using old by auto
    next
      case False
      then show ?thesis using Cons.prems by (auto simp: usage_exact_def)
    qed
  qed
  from Cons.IH [OF this] show ?case by (simp add: Let_def del: fun_upd_apply)
qed simp

lemma count_intents_exact:
  "usage_exact ms usage \<Longrightarrow> usage_exact (ms @ concat (map (ix_accounts \<circ> ui_ix) is)) (count_intents is usage)"
proof (induction "is" arbitrary: ms usage)
  case (Cons i "is")
  from Cons.IH [OF count_accounts_exact [OF Cons.prems, of "ix_accounts (ui_ix i)"]] show ?case by simp
qed simp

definition all_metas :: "user_intent list \<Rightarrow> account_meta list" where
  "all_metas intents = concat (map (ix_accounts \<circ> ui_ix) intents)"

text \<open>What is known of an entry of the usage list, and of a key that may be offloaded.\<close>

definition offloadable :: "pubkey \<Rightarrow> user_intent list \<Rightarrow> pubkey \<Rightarrow> bool" where
  "offloadable payer intents k \<longleftrightarrow>
     k \<noteq> payer \<and> k \<in> meta_pubkey ` set (all_metas intents)
     \<and> \<not> (\<exists>m \<in> set (all_metas intents). meta_pubkey m = k \<and> meta_is_signer m)"

lemma usage_entry:
  assumes "build_key_usage payer intents k = Some e"
  shows "ku_pubkey e = k" and "\<not> ku_signer e \<Longrightarrow> offloadable payer intents k"
    and "ku_writable e \<longleftrightarrow> (\<exists>m \<in> set (all_metas intents). meta_pubkey m = k \<and> meta_is_writable m)"
proof -
  have x: "usage_exact (all_metas intents) (count_intents intents Map.empty)"
    using count_intents_exact [OF usage_exact_Nil, of intents] by (simp add: all_metas_def)
  have e: "count_intents intents Map.empty k = Some e" and "k \<noteq> payer"
    using assms by (auto simp: build_key_usage_def split: if_splits)
  then show "ku_pubkey e = k" "\<not> ku_signer e \<Longrightarrow> offloadable payer intents k"
    "ku_writable e \<longleftrightarrow> (\<exists>m \<in> set (all_metas intents). meta_pubkey m = k \<and> meta_is_writable m)"
    using x [unfolded usage_exact_def, rule_format, of k] by (simp_all add: offloadable_def)
qed

lemma usage_entries_keys:
  "map ku_pubkey (usage_entries order (build_key_usage payer intents)) =
     filter (\<lambda>k. build_key_usage payer intents k \<noteq> None) order"
  by (induction order) (auto simp: usage_entries_def usage_entry(1))

lemma usage_entries_offloadable:
  "u \<in> set (usage_entries order (build_key_usage payer intents)) \<Longrightarrow> \<not> ku_signer u \<Longrightarrow>
   offloadable payer intents (ku_pubkey u)"
  using usage_entry by (fastforce simp: usage_entries_def)

section \<open>The offload list\<close>

lemma distinct_map_sort_key: "distinct (map f xs) \<Longrightarrow> distinct (map f (sort_key g xs))"
  by (metis distinct_map distinct_sort set_sort)

lemma offload_keys_Some:
  assumes "offload_keys policy entries = Some off"
  defines "sorted_entries \<equiv> sort_key (\<lambda>u. - key_cost (ap_per_alt_index_byte policy) u) (filter (\<lambda>u. \<not> ku_signer u) entries)"
  defines "slots \<equiv> ap_reserve_message_keys policy - length (filter ku_signer entries)"
  shows "off = take (ap_max_alt_keys policy) (drop slots sorted_entries)"
  using assms(1) unfolding sorted_entries_def slots_def
  by (auto simp: offload_keys_def Let_def split: if_splits)

lemma offload_keys_members:
  assumes "offload_keys policy entries = Some off"
  shows "set off \<subseteq> {u \<in> set entries. \<not> ku_signer u}" and "length off \<le> ap_max_alt_keys policy"
    and "distinct (map ku_pubkey entries) \<Longrightarrow> distinct (map ku_pubkey off)"
proof -
  let ?s = "sort_key (\<lambda>u. - key_cost (ap_per_alt_index_byte policy) u) (filter (\<lambda>u. \<not> ku_signer u) entries)"
  note off = offload_keys_Some [OF assms]
  show "set off \<subseteq> {u \<in> set entries. \<not> ku_signer u}"
    using set_take_subset set_drop_subset [of _ ?s] by (fastforce simp: off)
  show "length off \<le> ap_max_alt_keys policy" by (simp add: off)
  assume "distinct (map ku_pubkey entries)"
  then have "distinct (map ku_pubkey ?s)"
    by (intro distinct_map_sort_key) (simp add: distinct_map_filter)
  then show "distinct (map ku_pubkey off)"
    by (simp add: off flip: take_map drop_map)
qed

section \<open>The cache\<close>

definition usage_bytes :: "pubkey \<times> bool \<Rightarrow> bytes" where
  "usage_bytes p = key_bytes (fst p) @ [if snd p then 1 else 0]"

interpretation usage_code: fixed_code usage_bytes 33
  by unfold_locales (auto simp: usage_bytes_def split: if_splits)

definition usage_id :: "key_usage \<Rightarrow> pubkey \<times> bool" where
  "usage_id u = (ku_pubkey u, ku_writable u)"

lemma cache_key_from_ids: "cache_key_from off = concat (map usage_bytes (map usage_id off))"
  by (simp add: cache_key_from_def usage_bytes_def usage_id_def o_def)

lemma cache_key_inject:
  assumes "cache_key_from a = cache_key_from b"
  shows "map usage_id a = map usage_id b"
proof -
  have "length (cache_key_from xs) = 33 * length xs" for xs
    unfolding cache_key_from_ids by (induction xs) (simp_all add: usage_code.enc_width)
  then have "length (map usage_id a) = length (map usage_id b)"
    using assms by (metis length_map mult_cancel1 zero_neq_numeral)
  from usage_code.enc_list_split [OF this, of "[]" "[]"] assms show ?thesis
    by (simp add: cache_key_from_ids list_all_iff)
qed

lemma synthetic_resolution_ids:
  assumes "map usage_id a = map usage_id b"
  shows "synthetic_resolution H policy a = synthetic_resolution H policy b"
proof -
  have len: "length a = length b" using assms by (metis length_map)
  have "length (filter ku_writable xs) = length (filter snd (map usage_id xs))"
    "length (filter (\<lambda>u. \<not> ku_writable u) xs) = length (filter (\<lambda>p. \<not> snd p) (map usage_id xs))"
    "map ku_pubkey xs = map fst (map usage_id xs)" for xs
    by (induction xs) (simp_all add: usage_id_def)
  then show ?thesis
    unfolding synthetic_resolution_def estimate_saved_bytes_def Let_def by (simp only: assms len)
qed

text \<open>Every entry of the cache is the resolution of the key list it is filed under.\<close>

definition cache_ok :: "(bytes \<Rightarrow> hash32) \<Rightarrow> alt_manager \<Rightarrow> bool" where
  "cache_ok H self \<longleftrightarrow>
     (\<forall>off entry. mg_cache self (cache_key_from off) = Some entry \<longrightarrow>
        en_resolution entry = synthetic_resolution H (mg_policy self) off)"

lemma cache_ok_new [inv_intros]: "cache_ok H (alt_manager_new policy ttl)"
  by (simp add: cache_ok_def alt_manager_new_def)

lemma cache_ok_insert:
  assumes "cache_ok H self" and "r = synthetic_resolution H (mg_policy self) off"
    and "\<forall>k. cache k = mg_cache self k \<or> cache k = None"
  shows "cache_ok H (self\<lparr>mg_cache := cache(cache_key_from off \<mapsto> \<lparr>en_resolution = r, en_expires_at = t\<rparr>)\<rparr>)"
  unfolding cache_ok_def
proof (intro allI impI)
  fix o' entry
  assume e: "mg_cache (self\<lparr>mg_cache := cache(cache_key_from off \<mapsto> \<lparr>en_resolution = r, en_expires_at = t\<rparr>)\<rparr>)
      (cache_key_from o') = Some entry"
  show "en_resolution entry = synthetic_resolution H
      (mg_policy (self\<lparr>mg_cache := cache(cache_key_from off \<mapsto> \<lparr>en_resolution = r, en_expires_at = t\<rparr>)\<rparr>)) o'"
  proof (cases "cache_key_from o' = cache_key_from off")
    case True
    with e assms(2) synthetic_resolution_ids [OF cache_key_inject [OF True]] show ?thesis by auto
  next
    case False
    with e have "cache (cache_key_from o') = Some entry" by simp
    with assms(3) have "mg_cache self (cache_key_from o') = Some entry" by (metis option.distinct(1))
    with assms(1) show ?thesis by (simp add: cache_ok_def)
  qed
qed

text \<open>
  What a resolution without a catalog returns: the default, or the synthetic resolution of the
  sorted offload list, marked as a hit when it comes from the cache.
\<close>

definition plan_of :: "(bytes \<Rightarrow> hash32) \<Rightarrow> pubkey list \<Rightarrow> pubkey \<Rightarrow> user_intent list \<Rightarrow> alt_policy \<Rightarrow> alt_resolution" where
  "plan_of H order payer intents policy =
     (if \<not> ap_enabled policy then resolution_default
      else case offload_keys policy (usage_entries order (build_key_usage payer intents)) of
             None \<Rightarrow> resolution_default
           | Some off \<Rightarrow> synthetic_resolution H policy (sort_key ku_pubkey off))"

lemma compute_offload_plan_plan:
  assumes "cache_ok H self" and "mg_catalog self = None"
    and "compute_offload_plan H order now now' payer intents self = (r, self')"
  shows "r\<lparr>ar_cache_hit := False\<rparr> = plan_of H order payer intents (mg_policy self)" and "cache_ok H self'"
    and "mg_policy self' = mg_policy self" and "mg_catalog self' = None" and "mg_metrics self' = mg_metrics self"
proof -
  have "r\<lparr>ar_cache_hit := False\<rparr> = plan_of H order payer intents (mg_policy self) \<and> cache_ok H self'
    \<and> mg_policy self' = mg_policy self \<and> mg_catalog self' = None \<and> mg_metrics self' = mg_metrics self"
  proof (cases "ap_enabled (mg_policy self)")
    case False
    with assms show ?thesis by (auto simp: compute_offload_plan_def plan_of_def resolution_default_def)
  next
    case enabled: True
    show ?thesis
    proof (cases "offload_keys (mg_policy self) (usage_entries order (build_key_usage payer intents))")
      case None
      with enabled assms show ?thesis by (auto simp: compute_offload_plan_def plan_of_def resolution_default_def)
    next
      case (Some off)
      let ?off = "sort_key ku_pubkey off"
      let ?r = "synthetic_resolution H (mg_policy self) ?off"
      have nohit: "?r\<lparr>ar_cache_hit := False\<rparr> = ?r" by (simp add: synthetic_resolution_def Let_def)
      show ?thesis
      proof (cases "\<exists>entry. mg_cache self (cache_key_from ?off) = Some entry \<and> en_expires_at entry > now")
        case True
        then obtain entry where entry: "mg_cache self (cache_key_from ?off) = Some entry" "en_expires_at entry > now" by blast
        then have "en_resolution entry = ?r" using assms(1) by (simp add: cache_ok_def)
        with entry enabled Some assms nohit show ?thesis
          by (auto simp: compute_offload_plan_def plan_of_def)
      next
        case False
        with enabled Some assms obtain cache where
          "r = ?r" "self' = self\<lparr>mg_cache := cache(cache_key_from ?off \<mapsto> \<lparr>en_resolution = ?r, en_expires_at = now' + mg_ttl self\<rparr>)\<rparr>"
          "\<forall>k. cache k = mg_cache self k \<or> cache k = None"
          by (auto simp: compute_offload_plan_def Let_def split: option.splits)
        with cache_ok_insert [OF assms(1) refl this(3)] nohit enabled Some assms(2) show ?thesis
          by (simp add: plan_of_def)
      qed
    qed
  qed
  then show "r\<lparr>ar_cache_hit := False\<rparr> = plan_of H order payer intents (mg_policy self)" "cache_ok H self'"
    "mg_policy self' = mg_policy self" "mg_catalog self' = None" "mg_metrics self' = mg_metrics self" by blast+
qed

section \<open>The catalog index\<close>

definition indexed :: "lookup_table list \<Rightarrow> pubkey \<Rightarrow> pubkey \<times> u8 \<Rightarrow> bool" where
  "indexed tables k p \<longleftrightarrow>
     (\<exists>t \<in> set tables. lt_key t = fst p \<and> unat (snd p) < 255 \<and> unat (snd p) < length (lt_addresses t)
        \<and> lt_addresses t ! unat (snd p) = k)"

lemma index_addresses_miss: "k \<notin> set (take (255 - i) pks) \<Longrightarrow> index_addresses tkey i pks r k = r k"
proof (induction pks arbitrary: i r)
  case (Cons pk pks)
  show ?case
  proof (cases "i \<ge> 255")
    case False
    then have "255 - i = Suc (255 - Suc i)" by simp
    with Cons.prems have "k \<noteq> pk" and "k \<notin> set (take (255 - Suc i) pks)" by auto
    with False Cons.IH [of "Suc i" "r(pk \<mapsto> (tkey, word_of_nat i))"] show ?thesis by (simp add: fun_upd_def)
  qed simp
qed simp

lemma index_addresses_hit:
  "k \<in> set (take (255 - i) pks) \<Longrightarrow>
   \<exists>j. j < length pks \<and> i + j < 255 \<and> pks ! j = k \<and> index_addresses tkey i pks r k = Some (tkey, word_of_nat (i + j))"
proof (induction pks arbitrary: i r)
  case (Cons pk pks)
  from Cons.prems have i: "i < 255" by (cases "255 - i") auto
  then have s: "255 - i = Suc (255 - Suc i)" by simp
  let ?r = "r(pk \<mapsto> (tkey, word_of_nat i))"
  have step: "index_addresses tkey i (pk # pks) r k = index_addresses tkey (Suc i) pks ?r k" using i by simp
  show ?case
  proof (cases "k \<in> set (take (255 - Suc i) pks)")
    case True
    from Cons.IH [OF this, of ?r] obtain j where "j < length pks" "Suc i + j < 255" "pks ! j = k"
      "index_addresses tkey (Suc i) pks ?r k = Some (tkey, word_of_nat (Suc i + j))" by blast
    with step show ?thesis by (intro exI [of _ "Suc j"]) simp
  next
    case False
    with Cons.prems s have "k = pk" by auto
    with step index_addresses_miss [OF False, of tkey ?r] i show ?thesis by (intro exI [of _ 0]) simp
  qed
qed simp

lemma indexed_mono: "indexed ts k p \<Longrightarrow> set ts \<subseteq> set ts' \<Longrightarrow> indexed ts' k p"
  by (auto simp: indexed_def)

lemma index_tables_spec:
  "case index_tables ts r k of
     None \<Rightarrow> r k = None \<and> (\<forall>t \<in> set ts. k \<notin> set (take 255 (lt_addresses t)))
   | Some p \<Rightarrow> indexed ts k p \<or> r k = Some p"
proof (induction ts arbitrary: r)
  case (Cons t ts)
  let ?r = "index_addresses (lt_key t) 0 (lt_addresses t) r"
  show ?case
  proof (cases "k \<in> set (take 255 (lt_addresses t))")
    case True
    then obtain j where j: "j < length (lt_addresses t)" "j < 255" "lt_addresses t ! j = k"
      "?r k = Some (lt_key t, word_of_nat j)"
      using index_addresses_hit [of k 0 "lt_addresses t" "lt_key t" r] by auto
    have "unat (word_of_nat j :: u8) = j" using j(2) by (simp add: unat_of_nat)
    with j have "indexed (t # ts) k (lt_key t, word_of_nat j)" by (auto simp: indexed_def)
    with Cons.IH [of ?r] j(4) show ?thesis
      by (auto split: option.splits intro: indexed_mono)
  next
    case False
    then have "?r k = r k" using index_addresses_miss [of k 0 "lt_addresses t" "lt_key t" r] by simp
    with Cons.IH [of ?r] False show ?thesis
      by (auto split: option.splits intro: indexed_mono)
  qed
qed (simp split: option.split)

lemma resolve_desired_eq:
  "resolve_desired c ks (used, res) =
     (bts_extend used (map (\<lambda>k. fst (the (tc_reverse c k))) (filter (\<lambda>k. tc_reverse c k \<noteq> None) ks)),
      res @ filter (\<lambda>k. tc_reverse c k \<noteq> None) ks)"
  by (induction ks arbitrary: used res) (auto split: option.split)

section \<open>Properties\<close>

text \<open>
  C23: The manager never offloads a key that has to stay in the message: without a catalog, every key
  of a returned table is an account of the intents, is not the payer and signs in none of them;
  there are at most \<open>max_alt_keys\<close> of them, each once and in ascending order, and the statistics
  add up. The cache stays consistent.
\<close>

theorem alt_offload_safe:
  assumes "cache_ok H self" and "mg_catalog self = None" and "distinct order"
    and "resolve_tables H order now now' payer intents self = (r, self')"
  shows "length (ar_tables r) \<le> 1
    \<and> list_all (\<lambda>t. sorted_wrt (<) (lt_addresses t) \<and> list_all (offloadable payer intents) (lt_addresses t)
          \<and> length (lt_addresses t) = us_keys_offloaded (ar_stats r)) (ar_tables r)
    \<and> us_keys_offloaded (ar_stats r) \<le> ap_max_alt_keys (mg_policy self)
    \<and> us_readonly_offloaded (ar_stats r) + us_writable_offloaded (ar_stats r) = us_keys_offloaded (ar_stats r)
    \<and> cache_ok H self' \<and> mg_catalog self' = None"
proof -
  obtain s' where c: "compute_offload_plan H order now now' payer intents self = (r, s')"
    and self': "cache_ok H s' \<Longrightarrow> cache_ok H self'" "mg_catalog self' = mg_catalog s'"
    using assms(4) by (auto simp: resolve_tables_def Let_def cache_ok_def split: prod.splits)
  note plan = compute_offload_plan_plan [OF assms(1,2) c]
  have fields: "ar_tables r = ar_tables (plan_of H order payer intents (mg_policy self))"
    "ar_stats r = ar_stats (plan_of H order payer intents (mg_policy self))"
    using plan(1) by (metis alt_resolution.select_convs(1,2) alt_resolution.surjective alt_resolution.update_convs(3))+
  let ?es = "usage_entries order (build_key_usage payer intents)"
  have "distinct (map ku_pubkey ?es)" using assms(3) by (simp add: usage_entries_keys)
  then have off: "length off \<le> ap_max_alt_keys (mg_policy self)" "distinct (map ku_pubkey off)"
    "list_all (offloadable payer intents) (map ku_pubkey off)" if "offload_keys (mg_policy self) ?es = Some off" for off
    using offload_keys_members [OF that] usage_entries_offloadable [of _ order payer intents]
    by (auto simp: list_all_iff)
  have "length (filter (\<lambda>u. \<not> ku_writable u) (sort_key ku_pubkey xs)) + length (filter ku_writable (sort_key ku_pubkey xs))
      = length xs" for xs
    using sum_length_filter_compl [of ku_writable "sort_key ku_pubkey xs"] by simp
  then show ?thesis
    using plan(2,4) self' off
    by (auto simp: fields plan_of_def resolution_default_def stats_default_def synthetic_resolution_def Let_def
        strict_sorted_iff list_all_iff distinct_map_sort_key split: option.splits)
qed

definition alt_sample_policy :: alt_policy where
  "alt_sample_policy = alt_policy_default\<lparr>ap_enabled := True, ap_reserve_message_keys := 1\<rparr>"

definition alt_sample_intent :: user_intent where
  "alt_sample_intent =
     \<lparr>ui_actor = 0,
      ui_ix = \<lparr>ix_program_id = 1,
               ix_accounts = map (\<lambda>k. \<lparr>meta_pubkey = k, meta_is_signer = False, meta_is_writable = True\<rparr>) [2, 2, 3],
               ix_data = []\<rparr>,
      ui_accesses = [], ui_priority = 0, ui_expires_at_slot = None\<rparr>"

lemma alt_sample_run:
  "fst (resolve_tables len_hash [3, 2] 0 0 9 [alt_sample_intent] (alt_manager_new alt_sample_policy 10)) =
     \<lparr>ar_tables = [\<lparr>lt_key = 32, lt_addresses = [3]\<rparr>],
      ar_stats = \<lparr>us_keys_offloaded = 1, us_readonly_offloaded = 0, us_writable_offloaded = 1,
                  us_estimated_saved_bytes = 0\<rparr>,
      ar_cache_hit = False\<rparr>"
  by (simp add: resolve_tables_def compute_offload_plan_def alt_manager_new_def alt_sample_policy_def
      alt_policy_default_def build_key_usage_def alt_sample_intent_def usage_entries_def offload_keys_def
      synthetic_resolution_def derive_table_key_def len_hash_def estimate_saved_bytes_def key_cost_def
      sat_add_def Let_def)

theorem alt_offload_safe_witness: "offloadable 9 [alt_sample_intent] 3"
proof -
  let ?m = "alt_manager_new alt_sample_policy 10"
  obtain r m' where run: "resolve_tables len_hash [3, 2] 0 0 9 [alt_sample_intent] ?m = (r, m')" by fastforce
  have "mg_catalog ?m = None" "distinct [3, 2 :: pubkey]" by (simp_all add: alt_manager_new_def)
  from alt_offload_safe [OF cache_ok_new this run] alt_sample_run run show ?thesis by simp
qed

text \<open>
  C24: The cache is transparent: whatever it holds and whenever it expires, a resolution without a
  catalog returns the tables and statistics that a fresh computation would, and only the flag
  \<open>cache_hit\<close> tells the difference.
\<close>

theorem alt_cache_transparent:
  assumes "cache_ok H self" and "mg_catalog self = None"
  shows "(fst (resolve_tables H order now now' payer intents self))\<lparr>ar_cache_hit := False\<rparr> =
    fst (resolve_tables H order t t' payer intents (alt_manager_new (mg_policy self) ttl))"
proof -
  have res: "fst (resolve_tables H order a b payer intents m) = fst (compute_offload_plan H order a b payer intents m)" for a b m
    by (simp add: resolve_tables_def Let_def case_prod_beta)
  let ?m = "alt_manager_new (mg_policy self) ttl"
  have "mg_catalog ?m = None" "mg_policy ?m = mg_policy self" "mg_cache ?m = Map.empty"
    by (simp_all add: alt_manager_new_def)
  moreover from this have "fst (compute_offload_plan H order t t' payer intents ?m) =
      plan_of H order payer intents (mg_policy self)"
    by (simp add: compute_offload_plan_def plan_of_def Let_def split: option.split)
  ultimately show ?thesis
    using compute_offload_plan_plan(1) [OF assms prod.collapse [symmetric]] by (simp add: res)
qed

theorem alt_cache_transparent_witness:
  "(fst (resolve_tables len_hash [3, 2] 5 6 9 [alt_sample_intent]
      (snd (resolve_tables len_hash [3, 2] 0 0 9 [alt_sample_intent] (alt_manager_new alt_sample_policy 10)))))
     \<lparr>ar_cache_hit := False\<rparr>
   = fst (resolve_tables len_hash [3, 2] 5 6 9 [alt_sample_intent] (alt_manager_new alt_sample_policy 10))"
proof -
  let ?m = "alt_manager_new alt_sample_policy 10"
  obtain r m' where run: "resolve_tables len_hash [3, 2] 0 0 9 [alt_sample_intent] ?m = (r, m')" by fastforce
  obtain s' where c: "compute_offload_plan len_hash [3, 2] 0 0 9 [alt_sample_intent] ?m = (r, s')"
    and m': "m' = s'\<lparr>mg_metrics := mg_metrics m'\<rparr>"
    using run by (auto simp: resolve_tables_def Let_def split: prod.splits)
  have "mg_catalog ?m = None" by (simp add: alt_manager_new_def)
  note plan = compute_offload_plan_plan [OF cache_ok_new this c]
  have "cache_ok len_hash m'" "mg_catalog m' = None" "mg_policy m' = alt_sample_policy"
    using plan by (subst m', simp add: cache_ok_def alt_manager_new_def)+
  from alt_cache_transparent [OF this(1,2), of "[3, 2]" 5 6 9 "[alt_sample_intent]" 5 6 10] run this(3)
  show ?thesis by simp
qed

text \<open>
  A catalog resolves exactly the desired keys that one of its tables lists among the first 255
  addresses, in the order they are asked for; each is listed by a returned table at the index that
  \<open>lookup\<close> gives. The last possible index, 255, is never resolved.
\<close>

theorem catalog_tables_for_exact:
  "snd (tables_for (from_tables tables) desired) =
     filter (\<lambda>k. \<exists>t \<in> set tables. k \<in> set (take 255 (lt_addresses t))) desired
   \<and> list_all (\<lambda>k. \<exists>p. catalog_lookup (from_tables tables) k = Some p
        \<and> indexed (fst (tables_for (from_tables tables) desired)) k p) (snd (tables_for (from_tables tables) desired))
   \<and> set (fst (tables_for (from_tables tables) desired)) \<subseteq> set tables"
proof -
  let ?c = "from_tables tables"
  have rev: "tc_reverse ?c k \<noteq> None \<longleftrightarrow> (\<exists>t \<in> set tables. k \<in> set (take 255 (lt_addresses t)))"
    and hit: "tc_reverse ?c k = Some p \<Longrightarrow> indexed tables k p" for k p
  proof -
    have "k \<in> set (take 255 (lt_addresses t))" if "t \<in> set tables" "indexed [t] k q" for t q
      using that by (force simp: indexed_def in_set_conv_nth)
    moreover have "\<exists>t \<in> set tables. indexed [t] k q" if "indexed tables k q" for q
      using that by (auto simp: indexed_def)
    ultimately show "tc_reverse ?c k \<noteq> None \<longleftrightarrow> (\<exists>t \<in> set tables. k \<in> set (take 255 (lt_addresses t)))"
      using index_tables_spec [where ts = tables and r = Map.empty and k = k] by (fastforce simp: from_tables_def split: option.splits)
    show "tc_reverse ?c k = Some p \<Longrightarrow> indexed tables k p"
      using index_tables_spec [where ts = tables and r = Map.empty and k = k] by (simp add: from_tables_def)
  qed
  let ?rs = "filter (\<lambda>k. tc_reverse ?c k \<noteq> None) desired"
  let ?used = "(\<lambda>k. fst (the (tc_reverse ?c k))) ` set ?rs"
  have tf: "tables_for ?c desired = (if ?rs = [] then ([], []) else (filter (\<lambda>t. lt_key t \<in> ?used) tables, ?rs))"
  proof -
    have "set (bts_extend [] (map (\<lambda>k. fst (the (tc_reverse ?c k))) ?rs)) = ?used" by simp
    moreover from this have "bts_extend [] (map (\<lambda>k. fst (the (tc_reverse ?c k))) ?rs) = [] \<longleftrightarrow> ?rs = []"
      by (metis image_is_empty set_empty)
    ultimately show ?thesis by (simp add: tables_for_def resolve_desired_eq from_tables_def)
  qed
  have "\<exists>p. catalog_lookup ?c k = Some p \<and> indexed (filter (\<lambda>t. lt_key t \<in> ?used) tables) k p" if "k \<in> set ?rs" for k
  proof -
    from that obtain p where p: "tc_reverse ?c k = Some p" by auto
    have "fst p \<in> ?used" using that p by force
    obtain t where t: "t \<in> set tables" "lt_key t = fst p" "unat (snd p) < 255" "unat (snd p) < length (lt_addresses t)"
      "lt_addresses t ! unat (snd p) = k"
      using hit [OF p] unfolding indexed_def by blast
    with \<open>fst p \<in> ?used\<close> have "t \<in> set (filter (\<lambda>t. lt_key t \<in> ?used) tables)" by simp
    with t have "indexed (filter (\<lambda>t. lt_key t \<in> ?used) tables) k p" unfolding indexed_def by blast
    with p show ?thesis by (auto simp: catalog_lookup_def)
  qed
  then show ?thesis using rev by (auto simp: tf list_all_iff intro!: filter_cong)
qed

lemma catalog_never_hits:
  assumes "mg_catalog self = Some catalog"
  shows "\<not> ar_cache_hit (fst (resolve_tables H order now now' payer intents self))"
proof -
  have "\<not> ar_cache_hit r" if "catalog_resolution policy catalog off = Some (r, ks)" for policy off r ks
    using that by (auto simp: catalog_resolution_def Let_def split: prod.splits if_splits)
  then have "\<not> ar_cache_hit (fst (compute_offload_plan H order now now' payer intents self))"
    using assms by (auto simp: compute_offload_plan_def resolution_default_def Let_def split: option.split)
  then show ?thesis by (simp add: resolve_tables_def Let_def case_prod_beta)
qed

lemma sorted_take_drop:
  assumes "sorted (map f xs)" and "v \<in> set (take n xs)" and "u \<in> set (drop n xs)"
  shows "f v \<le> f u"
proof -
  have "sorted (map f (take n xs) @ map f (drop n xs))"
    using assms(1) by (simp flip: map_append)
  with assms(2,3) show ?thesis by (simp add: sorted_append)
qed

text \<open>
  The keys that stay static are the costliest: an offloaded key never has a larger \<open>key_cost\<close>,
  the bytes its offloading would save, than a key that is kept. And resolutions with a catalog
  write the cache but never read it: they are never hits.
\<close>

theorem alt_offloads_cheapest:
  assumes "offload_keys policy entries = Some off" and "u \<in> set off"
    and "v \<in> set (take (ap_reserve_message_keys policy - length (filter ku_signer entries))
           (sort_key (\<lambda>u. - key_cost (ap_per_alt_index_byte policy) u) (filter (\<lambda>u. \<not> ku_signer u) entries)))"
  shows "key_cost (ap_per_alt_index_byte policy) u \<le> key_cost (ap_per_alt_index_byte policy) v
    \<and> (mg_catalog self \<noteq> None \<longrightarrow> \<not> ar_cache_hit (fst (resolve_tables H order now now' payer intents self)))"
proof -
  let ?f = "\<lambda>u. - key_cost (ap_per_alt_index_byte policy) u"
  let ?s = "sort_key ?f (filter (\<lambda>u. \<not> ku_signer u) entries)"
  let ?n = "ap_reserve_message_keys policy - length (filter ku_signer entries)"
  have "u \<in> set (drop ?n ?s)"
    using assms(2) unfolding offload_keys_Some [OF assms(1)] by (rule in_set_takeD)
  then have "?f v \<le> ?f u" by (rule sorted_take_drop [OF sorted_sort_key assms(3)])
  moreover have "\<not> ar_cache_hit (fst (resolve_tables H order now now' payer intents self))" if some: "mg_catalog self \<noteq> None"
  proof -
    obtain c where "mg_catalog self = Some c" using some by auto
    then show ?thesis by (rule catalog_never_hits)
  qed
  ultimately show ?thesis by simp
qed

theorem alt_offloads_cheapest_witness:
  "key_cost 1 \<lparr>ku_pubkey = 3, ku_writable = True, ku_signer = False, ku_freq = 1\<rparr>
     \<le> key_cost 1 \<lparr>ku_pubkey = 2, ku_writable = True, ku_signer = False, ku_freq = 2\<rparr>"
  using alt_offloads_cheapest [of alt_sample_policy
      "[\<lparr>ku_pubkey = 3, ku_writable = True, ku_signer = False, ku_freq = 1\<rparr>,
        \<lparr>ku_pubkey = 2, ku_writable = True, ku_signer = False, ku_freq = 2\<rparr>]"
      "[\<lparr>ku_pubkey = 3, ku_writable = True, ku_signer = False, ku_freq = 1\<rparr>]"
      "\<lparr>ku_pubkey = 3, ku_writable = True, ku_signer = False, ku_freq = 1\<rparr>"
      "\<lparr>ku_pubkey = 2, ku_writable = True, ku_signer = False, ku_freq = 2\<rparr>"]
  by (simp add: offload_keys_def alt_sample_policy_def alt_policy_default_def key_cost_def)
end
