(* ===== verification/Metrics.thy ===== *)
theory Metrics
  imports Prelude
begin

text \<open>
  The global RPC counters of bundler/src/sender.rs and the functions that other modules use to
  count their own calls. A counter is an \<open>AtomicU64\<close>: \<open>fetch_add\<close> wraps.
\<close>

record rpc_metrics =
  rm_simulate :: u64
  rm_is_blockhash_valid :: u64
  rm_get_latest_blockhash :: u64
  rm_send_transaction :: u64
  rm_get_recent_prioritization_fees :: u64

definition rpc_metrics_zero :: rpc_metrics where
  "rpc_metrics_zero =
     \<lparr>rm_simulate = 0, rm_is_blockhash_valid = 0, rm_get_latest_blockhash = 0, rm_send_transaction = 0,
      rm_get_recent_prioritization_fees = 0\<rparr>"

definition track_simulate :: "rpc_metrics \<Rightarrow> rpc_metrics" where
  "track_simulate m = m\<lparr>rm_simulate := rm_simulate m + 1\<rparr>"

definition track_send_transaction :: "rpc_metrics \<Rightarrow> rpc_metrics" where
  "track_send_transaction m = m\<lparr>rm_send_transaction := rm_send_transaction m + 1\<rparr>"

definition track_get_latest_blockhash :: "rpc_metrics \<Rightarrow> rpc_metrics" where
  "track_get_latest_blockhash m = m\<lparr>rm_get_latest_blockhash := rm_get_latest_blockhash m + 1\<rparr>"

definition track_is_blockhash_valid :: "rpc_metrics \<Rightarrow> rpc_metrics" where
  "track_is_blockhash_valid m = m\<lparr>rm_is_blockhash_valid := rm_is_blockhash_valid m + 1\<rparr>"

definition track_get_recent_prioritization_fees :: "rpc_metrics \<Rightarrow> rpc_metrics" where
  "track_get_recent_prioritization_fees m =
     m\<lparr>rm_get_recent_prioritization_fees := rm_get_recent_prioritization_fees m + 1\<rparr>"

end
