(* ===== verification/Fee.thy ===== *)
theory Fee
  imports Metrics Complex_Main "HOL-Library.Log_Nat"
begin

text \<open>
  Fee plans and oracles: bundler/src/fee.rs and bundler/src/fee_oracles/recent.rs.

  The recent-fees oracle computes in \<open>f64\<close>. A finite \<open>f64\<close> is a rational number here, and every
  operation rounds its exact result to 53 significant bits, to nearest with ties to even, as IEEE
  754 does; infinities, NaN and subnormal numbers do not arise from the prices and factors of the
  oracle. The RPC answer is a parameter. \<open>Ord::clamp\<close> and \<open>f64::clamp\<close> panic when the bounds are in the
  wrong order; that is \<open>None\<close>.
\<close>

section \<open>Binary floating point\<close>

definition half_even :: "rat \<Rightarrow> int" where
  "half_even x =
     (let f = \<lfloor>x\<rfloor>; d = x - of_int f
      in if d < 1 / 2 then f else if d > 1 / 2 then f + 1 else if even f then f else f + 1)"

definition pow2 :: "int \<Rightarrow> rat" where
  "pow2 e = (if e \<ge> 0 then 2 ^ nat e else 1 / 2 ^ nat (- e))"

definition f64_round_pos :: "rat \<Rightarrow> rat" where
  "f64_round_pos x =
     (case quotient_of x of (a, b) \<Rightarrow>
        let e = int (floorlog 2 (nat a)) - int (floorlog 2 (nat b)) - 53;
            e = (if x / pow2 e \<ge> 2 ^ 53 then e + 1 else e)
        in of_int (half_even (x / pow2 e)) * pow2 e)"

definition f64_round :: "rat \<Rightarrow> rat" where
  "f64_round x = (if x = 0 then 0 else if x > 0 then f64_round_pos x else - f64_round_pos (- x))"

definition f64_mul :: "rat \<Rightarrow> rat \<Rightarrow> rat" where "f64_mul a b = f64_round (a * b)"
definition f64_add :: "rat \<Rightarrow> rat \<Rightarrow> rat" where "f64_add a b = f64_round (a + b)"
definition f64_sub :: "rat \<Rightarrow> rat \<Rightarrow> rat" where "f64_sub a b = f64_round (a - b)"
definition f64_of_nat :: "nat \<Rightarrow> rat" where "f64_of_nat n = f64_round (of_nat n)"

text \<open>\<open>f64::round\<close> (half away from zero), \<open>f64::clamp\<close>, and \<open>as u64\<close> (saturating).\<close>

definition f64_round_int :: "rat \<Rightarrow> rat" where
  "f64_round_int x = (if x \<ge> 0 then of_int \<lfloor>x + 1 / 2\<rfloor> else - of_int \<lfloor>- x + 1 / 2\<rfloor>)"

definition f64_clamp :: "rat \<Rightarrow> rat \<Rightarrow> rat \<Rightarrow> rat option" where
  "f64_clamp x lo hi = (if lo \<le> hi then Some (min (max x lo) hi) else None)"

definition f64_as_u64 :: "rat \<Rightarrow> u64" where
  "f64_as_u64 x = (if x \<le> 0 then 0 else if x \<ge> 2 ^ 64 then - 1 else of_int \<lfloor>x\<rfloor>)"

section \<open>fee.rs\<close>

record fee_plan =
  pl_cu_limit :: u64
  pl_cu_price :: u64

record basic_fee_oracle =
  bo_max_cu_limit :: u64
  bo_min_cu_price :: u64
  bo_max_cu_price :: u64

definition basic_fee_oracle_default :: basic_fee_oracle where
  "basic_fee_oracle_default = \<lparr>bo_max_cu_limit = 1400000, bo_min_cu_price = 100, bo_max_cu_price = 5000\<rparr>"

definition basic_suggest :: "basic_fee_oracle \<Rightarrow> fee_plan" where
  "basic_suggest self = \<lparr>pl_cu_limit = bo_max_cu_limit self, pl_cu_price = bo_min_cu_price self\<rparr>"

definition basic_clamp :: "basic_fee_oracle \<Rightarrow> fee_plan \<Rightarrow> fee_plan" where
  "basic_clamp self p =
     (let p = (if pl_cu_limit p > bo_max_cu_limit self then p\<lparr>pl_cu_limit := bo_max_cu_limit self\<rparr> else p);
          p = (if pl_cu_price p < bo_min_cu_price self then p\<lparr>pl_cu_price := bo_min_cu_price self\<rparr> else p)
      in if pl_cu_price p > bo_max_cu_price self then p\<lparr>pl_cu_price := bo_max_cu_price self\<rparr> else p)"

section \<open>recent.rs\<close>

record oracle_state =
  os_ema_price :: "rat option"
  os_last_output :: "u64 option"

record recent_fees_oracle =
  ro_max_cu_limit :: u64
  ro_min_cu_price :: u64
  ro_max_cu_price :: u64
  ro_p_primary :: rat
  ro_p_fallback :: rat
  ro_ema_alpha :: rat
  ro_hysteresis_bps :: u64
  ro_state :: oracle_state

definition recent_fees_oracle_new :: recent_fees_oracle where
  "recent_fees_oracle_new =
     \<lparr>ro_max_cu_limit = 1400000, ro_min_cu_price = 100, ro_max_cu_price = 5000,
      ro_p_primary = f64_round (3 / 4), ro_p_fallback = f64_round (9 / 10), ro_ema_alpha = f64_round (1 / 5),
      ro_hysteresis_bps = 300, ro_state = \<lparr>os_ema_price = None, os_last_output = None\<rparr>\<rparr>"

text \<open>The RPC answer: an error, or the list of recent fees.\<close>

definition fetch_fees :: "string + u64 list \<Rightarrow> u64 list" where
  "fetch_fees answer = (case answer of Inr list \<Rightarrow> (if list \<noteq> [] then list else []) | Inl _ \<Rightarrow> [])"

definition pct_index :: "nat \<Rightarrow> rat \<Rightarrow> nat" where
  "pct_index n p =
     min (nat \<lceil>f64_mul (min (max p 0) 1) (f64_sub (f64_of_nat n) 1)\<rceil>) (n - 1)"

definition pct :: "u64 list \<Rightarrow> rat \<Rightarrow> u64 option" where
  "pct sorted_fees p = (if sorted_fees = [] then None else Some (sorted_fees ! pct_index (length sorted_fees) p))"

definition hysteresis :: "u64 \<Rightarrow> u64 \<Rightarrow> u64 \<Rightarrow> bool" where
  "hysteresis bps candidate prev =
     (let bigger = max candidate prev; smaller = min candidate prev;
          delta_bps = (if bigger = 0 then 0 else ((bigger - smaller) * 10000) div bigger)
      in delta_bps < bps)"

type_synonym recent_world = "recent_fees_oracle \<times> rpc_metrics"

definition pick_price_with_ema :: "string + u64 list \<Rightarrow> recent_world \<Rightarrow> (u64 \<times> recent_world) option" where
  "pick_price_with_ema answer w =
     (case w of (self, metrics) \<Rightarrow>
      let metrics = track_get_recent_prioritization_fees metrics; fees = fetch_fees answer in
      if fees = [] then Some (ro_min_cu_price self, self, metrics)
      else let fees = sort_key id fees;
               raw = f64_of_nat (unat (case (pct fees (ro_p_primary self), pct fees (ro_p_fallback self)) of
                                         (Some x, _) \<Rightarrow> x
                                       | (None, Some y) \<Rightarrow> y
                                       | (None, None) \<Rightarrow> ro_min_cu_price self));
               st = ro_state self;
               ema = (case os_ema_price st of
                        None \<Rightarrow> raw
                      | Some prev \<Rightarrow> f64_add (f64_mul (ro_ema_alpha self) raw)
                                       (f64_mul (f64_sub 1 (ro_ema_alpha self)) prev));
               st = st\<lparr>os_ema_price := Some ema\<rparr>
           in case f64_clamp (f64_round_int ema) (f64_of_nat (unat (ro_min_cu_price self)))
                     (f64_of_nat (unat (ro_max_cu_price self))) of
                None \<Rightarrow> None
              | Some c \<Rightarrow>
                  (let candidate = f64_as_u64 c
                   in case os_last_output st of
                        None \<Rightarrow> Some (candidate, self\<lparr>ro_state := st\<lparr>os_last_output := Some candidate\<rparr>\<rparr>, metrics)
                      | Some prev \<Rightarrow>
                          if hysteresis (ro_hysteresis_bps self) candidate prev
                          then Some (prev, self\<lparr>ro_state := st\<rparr>, metrics)
                          else Some (candidate, self\<lparr>ro_state := st\<lparr>os_last_output := Some candidate\<rparr>\<rparr>, metrics)))"

definition recent_suggest :: "string + u64 list \<Rightarrow> recent_world \<Rightarrow> (fee_plan \<times> recent_world) option" where
  "recent_suggest answer w =
     (case pick_price_with_ema answer w of
        None \<Rightarrow> None
      | Some (price, self, metrics) \<Rightarrow>
          if ro_min_cu_price self \<le> ro_max_cu_price self
          then Some (\<lparr>pl_cu_limit = ro_max_cu_limit self,
                      pl_cu_price = min (max price (ro_min_cu_price self)) (ro_max_cu_price self)\<rparr>, self, metrics)
          else None)"

definition recent_clamp :: "recent_fees_oracle \<Rightarrow> fee_plan \<Rightarrow> fee_plan" where
  "recent_clamp self plan =
     (let plan = (if pl_cu_limit plan > ro_max_cu_limit self then plan\<lparr>pl_cu_limit := ro_max_cu_limit self\<rparr> else plan);
          plan = (if pl_cu_price plan < ro_min_cu_price self then plan\<lparr>pl_cu_price := ro_min_cu_price self\<rparr> else plan)
      in if pl_cu_price plan > ro_max_cu_price self then plan\<lparr>pl_cu_price := ro_max_cu_price self\<rparr> else plan)"

section \<open>The oracle interface\<close>

text \<open>What a sender relies on: suggestions and clamped plans respect one limit and one price range.\<close>

locale fee_oracle =
  fixes suggest :: "'o \<Rightarrow> (fee_plan \<times> 'o) option" and clamp :: "'o \<Rightarrow> fee_plan \<Rightarrow> fee_plan"
    and max_limit :: "'o \<Rightarrow> u64" and max_price :: "'o \<Rightarrow> u64"
  assumes clamp_limit: "pl_cu_limit (clamp o' p) = min (pl_cu_limit p) (max_limit o')"
    and clamp_price: "pl_cu_price (clamp o' p) \<le> max_price o'"
    and clamp_idem: "clamp o' (clamp o' p) = clamp o' p"
    and suggest_bounds: "suggest o1 = Some (p, o2) \<Longrightarrow> max_limit o2 = max_limit o1 \<and> max_price o2 = max_price o1"
    and clamp_keeps_price: "suggest o1 = Some (p, o2) \<Longrightarrow> pl_cu_price (clamp o2 q) = pl_cu_price (clamp o1 q)"
begin

lemma clamp_limit_le: "pl_cu_limit (clamp o' p) \<le> max_limit o'"
  by (simp add: clamp_limit)

lemma clamp_lowered: "pl_cu_limit q \<le> pl_cu_limit (clamp o' p) \<Longrightarrow> pl_cu_limit (clamp o' q) = pl_cu_limit q"
  by (simp add: clamp_limit)

end

definition range_clamp :: "u64 \<Rightarrow> u64 \<Rightarrow> u64 \<Rightarrow> fee_plan \<Rightarrow> fee_plan" where
  "range_clamp limit lo hi p =
     p\<lparr>pl_cu_limit := min (pl_cu_limit p) limit, pl_cu_price := min (max (pl_cu_price p) lo) hi\<rparr>"

lemma basic_clamp_range: "basic_clamp self = range_clamp (bo_max_cu_limit self) (bo_min_cu_price self) (bo_max_cu_price self)"
  by (rule ext) (auto simp: basic_clamp_def range_clamp_def Let_def min_def max_def not_less intro!: fee_plan.equality)

lemma recent_clamp_range: "recent_clamp self = range_clamp (ro_max_cu_limit self) (ro_min_cu_price self) (ro_max_cu_price self)"
  by (rule ext) (auto simp: recent_clamp_def range_clamp_def Let_def min_def max_def not_less intro!: fee_plan.equality)

lemma range_clamp_idem: "range_clamp l lo hi (range_clamp l lo hi p) = range_clamp l lo hi p"
  by (auto simp: range_clamp_def min_def max_def intro!: fee_plan.equality)

lemma range_clamp_limit: "pl_cu_limit (range_clamp l lo hi p) = min (pl_cu_limit p) l"
  by (simp add: range_clamp_def)

lemma range_clamp_price: "pl_cu_price (range_clamp l lo hi p) = min (max (pl_cu_price p) lo) hi"
  by (simp add: range_clamp_def)

lemma pick_price_keeps:
  "pick_price_with_ema answer (self, m) = Some (x, self', m') \<Longrightarrow>
   ro_max_cu_limit self' = ro_max_cu_limit self \<and> ro_min_cu_price self' = ro_min_cu_price self
   \<and> ro_max_cu_price self' = ro_max_cu_price self"
  by (auto simp: pick_price_with_ema_def Let_def split: option.splits if_splits)

lemma recent_suggest_keeps:
  "recent_suggest answer (self, m) = Some (p, self', m') \<Longrightarrow>
   ro_max_cu_limit self' = ro_max_cu_limit self \<and> ro_min_cu_price self' = ro_min_cu_price self
   \<and> ro_max_cu_price self' = ro_max_cu_price self"
  by (auto simp: recent_suggest_def dest!: pick_price_keeps split: option.splits if_splits)

interpretation basic_fee: fee_oracle "\<lambda>o'. Some (basic_suggest o', o')" basic_clamp bo_max_cu_limit bo_max_cu_price
  by unfold_locales (auto simp: basic_clamp_range range_clamp_idem range_clamp_limit range_clamp_price)

interpretation recent_fee: fee_oracle "recent_suggest answer" "\<lambda>w. recent_clamp (fst w)"
    "\<lambda>w. ro_max_cu_limit (fst w)" "\<lambda>w. ro_max_cu_price (fst w)" for answer
  by unfold_locales (auto simp: recent_clamp_range range_clamp_idem range_clamp_limit range_clamp_price
      dest: recent_suggest_keeps)


section \<open>Exact arithmetic below \<open>2 ^ 53\<close>\<close>

lemma half_even_of_int [simp]: "half_even (of_int k) = k"
  by (simp add: half_even_def Let_def)

lemma f64_of_nat_exact:
  assumes "n < 2 ^ 53"
  shows "f64_of_nat n = of_nat n"
proof (cases "n = 0")
  case True
  then show ?thesis by (simp add: f64_of_nat_def f64_round_def)
next
  case False
  let ?L = "floorlog 2 n"
  have b: "2 ^ (?L - 1) \<le> n" "n < 2 ^ ?L" using floorlog_bounds [of n 2] False by simp_all
  have L1: "1 \<le> ?L" using False by (simp add: floorlog_def)
  have "(2 :: nat) ^ (?L - 1) < 2 ^ 53" using b(1) assms by simp
  then have "?L - 1 < 53" by (rule power_less_imp_less_exp [rotated]) simp
  then have L: "?L \<le> 53" by simp
  have q: "quotient_of (of_nat n) = (int n, 1)"
    by (simp add: of_nat_rat quotient_of_Fract Rat.normalize_def)
  have one: "floorlog 2 (nat 1) = 1" by (simp add: floorlog_def)
  have p0: "pow2 (int ?L - 1 - 53) = 1 / 2 ^ (54 - ?L)"
  proof -
    have "nat (- (int ?L - 1 - 53)) = 54 - ?L" using L by simp
    then show ?thesis using L by (simp add: pow2_def)
  qed
  have p1: "pow2 (int ?L - 1 - 53 + 1) = 1 / 2 ^ (53 - ?L)"
  proof -
    have "nat (- (int ?L - 1 - 53 + 1)) = 53 - ?L" using L by simp
    then show ?thesis using L by (cases "?L = 53") (simp_all add: pow2_def)
  qed
  have "(2 :: nat) ^ 53 = 2 ^ (?L - 1) * 2 ^ (54 - ?L)"
    using L L1 by (simp flip: power_add)
  also have "\<dots> \<le> n * 2 ^ (54 - ?L)" using b(1) by simp
  finally have "of_nat (2 ^ 53) \<le> (of_nat (n * 2 ^ (54 - ?L)) :: rat)" by (rule of_nat_mono)
  then have big: "(2 :: rat) ^ 53 \<le> of_nat n * 2 ^ (54 - ?L)" by simp
  let ?e = "int ?L - 1 - 53"
  have "of_nat n / pow2 ?e \<ge> (2 :: rat) ^ 53" using big by (simp only: p0) simp
  moreover have div: "of_nat n / pow2 (?e + 1) = (of_int (int n * 2 ^ (53 - ?L)) :: rat)" by (simp only: p1) simp
  ultimately have "f64_round_pos (of_nat n) = of_int (int n * 2 ^ (53 - ?L)) * pow2 (?e + 1)"
    by (simp only: f64_round_pos_def q prod.case one nat_int of_nat_1 if_True Let_def div
        half_even_of_int)
  then have "f64_round_pos (of_nat n) = of_nat n"
    by (simp only: p1) simp
  with False show ?thesis by (simp add: f64_of_nat_def f64_round_def)
qed

section \<open>The rounding error\<close>

lemma pow2_powi: "pow2 e = 2 powi e"
  by (simp add: pow2_def power_int_def field_simps)

lemma pow2_pos [simp]: "0 < pow2 e"
  by (simp add: pow2_def)

lemma pow2_add: "pow2 (a + b) = pow2 a * pow2 b"
  by (simp add: pow2_powi power_int_add)

lemma pow2_of_nat: "pow2 (int n) = 2 ^ n"
  by (simp add: pow2_def)

lemma pow2_52: "pow2 52 = 2 ^ 52" and pow2_54: "pow2 54 = 2 ^ 54"
  by (simp_all add: pow2_def)

lemma half_even_near: "\<bar>of_int (half_even y) - y\<bar> \<le> 1 / 2"
proof -
  have "of_int \<lfloor>y\<rfloor> \<le> y" "y < of_int \<lfloor>y\<rfloor> + 1" by linarith+
  then show ?thesis by (auto simp: half_even_def Let_def abs_le_iff)
qed

lemma half_even_le: "y \<le> of_int m \<Longrightarrow> half_even y \<le> m"
  by (auto simp: half_even_def Let_def) linarith+

text \<open>Every positive number is scaled to 53 significant bits before it is rounded.\<close>

lemma f64_round_scaled:
  assumes "0 < x"
  shows "\<exists>e. f64_round x = of_int (half_even (x / pow2 e)) * pow2 e \<and> 2 ^ 52 \<le> x / pow2 e \<and> x / pow2 e < 2 ^ 53"
proof -
  obtain a b where q: "quotient_of x = (a, b)" by (cases "quotient_of x")
  have b: "0 < b" using quotient_of_denom_pos [OF q] .
  have x: "x = of_int a / of_int b" using quotient_of_div [OF q] .
  have a: "0 < a" using assms b by (simp add: x zero_less_divide_iff)
  define la where "la = floorlog 2 (nat a)"
  define lb where "lb = floorlog 2 (nat b)"
  have bounds: "pow2 (int (floorlog 2 (nat c)) - 1) \<le> of_int c \<and> of_int c < pow2 (int (floorlog 2 (nat c)))"
    if c: "0 < c" for c
  proof -
    have f: "2 ^ (floorlog 2 (nat c) - 1) \<le> nat c \<and> nat c < 2 ^ floorlog 2 (nat c)"
      using c floorlog_bounds [of "nat c" 2] by simp
    have "floorlog 2 (nat c) \<noteq> 0" using c by (simp add: floorlog_def)
    then obtain k where k: "floorlog 2 (nat c) = Suc k" by (metis not0_implies_Suc)
    have "(2 :: nat) ^ k \<le> nat c" "nat c < 2 ^ Suc k" using f by (simp_all add: k)
    then have "of_nat (2 ^ k) \<le> (of_nat (nat c) :: rat)" "of_nat (nat c) < (of_nat (2 ^ Suc k) :: rat)"
      by (simp_all only: of_nat_le_iff of_nat_less_iff)
    then have "2 ^ k \<le> (of_int c :: rat)" "of_int c < (2 ^ Suc k :: rat)" using c by simp_all
    moreover have "int (Suc k) - 1 = int k" by simp
    ultimately show ?thesis by (simp only: k pow2_of_nat)
  qed
  have scale: "pow2 i * pow2 j * pow2 k = pow2 (i + j + k)" for i j k by (simp only: pow2_add)
  let ?e = "int la - int lb - 53"
  have "pow2 ?e * 2 ^ 52 * of_int b < pow2 ?e * 2 ^ 52 * pow2 (int lb)"
    using bounds [OF b] by (simp add: lb_def)
  also have "\<dots> = pow2 (int la - 1)" using scale [of ?e 52 "int lb"] by (simp only: pow2_52) (simp add: algebra_simps)
  also have "\<dots> \<le> of_int a" using bounds [OF a] by (simp add: la_def)
  finally have lo: "2 ^ 52 \<le> x / pow2 ?e" using b by (simp add: x field_simps)
  have "of_int a < pow2 (int la)" using bounds [OF a] by (simp add: la_def)
  also have "\<dots> = pow2 ?e * 2 ^ 54 * pow2 (int lb - 1)" using scale [of ?e 54 "int lb - 1"] by (simp only: pow2_54) (simp add: algebra_simps)
  also have "\<dots> \<le> pow2 ?e * 2 ^ 54 * of_int b" using bounds [OF b] by (simp add: lb_def)
  finally have hi: "x / pow2 ?e < 2 ^ 54" using b by (simp add: x field_simps)
  have "pow2 1 = 2" by (simp add: pow2_def)
  then have half: "x / pow2 (?e + 1) = x / pow2 ?e / 2" by (simp only: pow2_add [of ?e 1]) simp
  let ?f = "if x / pow2 ?e \<ge> 2 ^ 53 then ?e + 1 else ?e"
  have "f64_round x = of_int (half_even (x / pow2 ?f)) * pow2 ?f"
    using assms by (simp add: f64_round_def f64_round_pos_def q la_def lb_def Let_def)
  moreover have "2 ^ 52 \<le> x / pow2 ?f \<and> x / pow2 ?f < 2 ^ 53"
  proof (cases "x / pow2 ?e \<ge> 2 ^ 53")
    case True
    then show ?thesis using hi by (simp only: if_True half) simp
  next
    case False
    then show ?thesis using lo by (simp only: if_False) simp
  qed
  ultimately show ?thesis by blast
qed

lemma f64_round_error:
  assumes "0 < x"
  shows "\<bar>f64_round x - x\<bar> \<le> x / 2 ^ 53"
proof -
  obtain e where e: "f64_round x = of_int (half_even (x / pow2 e)) * pow2 e" "2 ^ 52 \<le> x / pow2 e"
    using f64_round_scaled [OF assms] by blast
  have "\<bar>f64_round x - x\<bar> = \<bar>of_int (half_even (x / pow2 e)) - x / pow2 e\<bar> * pow2 e"
  proof -
    have "f64_round x - x = (of_int (half_even (x / pow2 e)) - x / pow2 e) * pow2 e"
      by (simp add: e(1) left_diff_distrib less_imp_neq [symmetric])
    then show ?thesis by (simp add: abs_mult less_imp_le)
  qed
  also have "\<dots> \<le> 1 / 2 * pow2 e"
    by (rule mult_right_mono [OF half_even_near]) (simp add: less_imp_le)
  also have "\<dots> \<le> x / 2 ^ 53" using e(2) by (simp add: field_simps)
  finally show ?thesis .
qed

lemma f64_round_le_int:
  assumes "0 < x" and "x \<le> of_int m" and "x < 2 ^ 52"
  shows "f64_round x \<le> of_int m"
proof -
  obtain e where e: "f64_round x = of_int (half_even (x / pow2 e)) * pow2 e" "2 ^ 52 \<le> x / pow2 e"
    using f64_round_scaled [OF assms(1)] by blast
  have "pow2 e < 1"
  proof (rule ccontr)
    assume "\<not> pow2 e < 1"
    then have "x / pow2 e \<le> x" using assms(1) by (simp add: divide_le_eq mult_le_cancel_left1)
    with e(2) assms(3) show False by simp
  qed
  then have "e < 0" by (rule contrapos_pp) (simp add: pow2_def not_less)
  then have p: "pow2 e = 1 / 2 ^ nat (- e)" by (simp add: pow2_def)
  have "x / pow2 e \<le> of_int (m * 2 ^ nat (- e))" using assms(2) by (simp add: p)
  then have "half_even (x / pow2 e) \<le> m * 2 ^ nat (- e)" by (rule half_even_le)
  then have "(of_int (half_even (x / pow2 e)) :: rat) \<le> of_int (m * 2 ^ nat (- e))" by (rule of_int_le_iff [THEN iffD2])
  then show ?thesis by (simp add: e(1) p field_simps)
qed

section \<open>Properties\<close>

text \<open>
  With ordered price bounds below \<open>2 ^ 53\<close> the recent-fees oracle always suggests a plan, whatever
  the RPC answers and whatever its average and its last output are: the limit is the configured
  one, the price lies within the bounds, and \<open>clamp\<close> leaves the plan as it is.
\<close>

theorem recent_suggest_in_bounds:
  assumes "ro_min_cu_price self \<le> ro_max_cu_price self" and "unat (ro_max_cu_price self) < 2 ^ 53"
  shows "\<exists>p self' m'. recent_suggest answer (self, m) = Some (p, self', m')
    \<and> pl_cu_limit p = ro_max_cu_limit self
    \<and> ro_min_cu_price self \<le> pl_cu_price p \<and> pl_cu_price p \<le> ro_max_cu_price self
    \<and> recent_clamp self' p = p"
proof -
  have "unat (ro_min_cu_price self) \<le> unat (ro_max_cu_price self)"
    using assms(1) by (simp add: word_le_nat_alt)
  then have "f64_of_nat (unat (ro_min_cu_price self)) \<le> f64_of_nat (unat (ro_max_cu_price self))"
    using assms(2) by (simp add: f64_of_nat_exact del: of_nat_unat)
  then have "pick_price_with_ema answer (self, m) \<noteq> None"
    by (simp add: pick_price_with_ema_def Let_def f64_clamp_def split: option.split)
  then obtain x self' m' where p: "pick_price_with_ema answer (self, m) = Some (x, self', m')" by auto
  note k = pick_price_keeps [OF p]
  let ?p = "\<lparr>pl_cu_limit = ro_max_cu_limit self, pl_cu_price = min (max x (ro_min_cu_price self)) (ro_max_cu_price self)\<rparr>"
  have "recent_suggest answer (self, m) = Some (?p, self', m')"
    using assms(1) k by (simp add: recent_suggest_def p)
  moreover have "recent_clamp self' ?p = ?p"
    using assms(1) k by (simp add: recent_clamp_range range_clamp_def)
  ultimately show ?thesis
    using assms(1) by (intro exI [of _ ?p] exI [of _ self'] exI [of _ m']) simp
qed

theorem recent_suggest_in_bounds_witness:
  "\<exists>p self' m'. recent_suggest (Inr [200, 9000, 50]) (recent_fees_oracle_new, rpc_metrics_zero) = Some (p, self', m')
    \<and> 100 \<le> pl_cu_price p \<and> pl_cu_price p \<le> 5000"
  using recent_suggest_in_bounds [of recent_fees_oracle_new "Inr [200, 9000, 50]" rpc_metrics_zero]
  by (auto simp: recent_fees_oracle_new_def)
end
