(* ===== verification/Serializer.thy ===== *)
theory Serializer
  imports Alt Fee
begin

text \<open>
  Building an unsigned v0 message: bundler/src/serializer.rs and its precheck
  (bundler/src/serializer/precheck.rs).

  The two compute-budget instructions, the v0 compiler and the bincode size are Solana's: they are
  the fields of \<open>message_api\<close>, for an abstract type \<open>'m\<close> of messages.
\<close>

section \<open>precheck.rs\<close>

datatype build_error =
    NoIntents
  | AltNoAddresses nat pubkey
  | AltDuplicate pubkey pubkey
  | CompileError string
  | SerializeError string
  | MessageTooLarge nat nat nat

fun find_duplicate :: "pubkey list \<Rightarrow> pubkey list \<Rightarrow> pubkey option" where
  "find_duplicate s [] = None"
| "find_duplicate s (pk # pks) = (if pk \<in> set s then Some pk else find_duplicate (insort_insert pk s) pks)"

fun validate_tables :: "nat \<Rightarrow> lookup_table list \<Rightarrow> build_error option" where
  "validate_tables i [] = None"
| "validate_tables i (t # ts) =
     (if lt_addresses t = [] then Some (AltNoAddresses i (lt_key t))
      else case find_duplicate [] (lt_addresses t) of
             Some pk \<Rightarrow> Some (AltDuplicate (lt_key t) pk)
           | None \<Rightarrow> validate_tables (Suc i) ts)"

definition validate_alt_resolution :: "alt_resolution \<Rightarrow> build_error option" where
  "validate_alt_resolution alts = validate_tables 0 (ar_tables alts)"

definition prune_empty_tables :: "lookup_table list \<Rightarrow> lookup_table list" where
  "prune_empty_tables tables = filter (\<lambda>t. lt_addresses t \<noteq> []) tables"

section \<open>serializer.rs\<close>

record build_tx_ctx =
  bc_payer :: pubkey
  bc_blockhash :: hash32
  bc_fee :: fee_plan
  bc_alts :: alt_resolution
  bc_safety :: safety_margins

text \<open>The loop of \<open>shortvec_len\<close>: \<open>bytes\<close> counts the groups of seven bits.\<close>

function shortvec_loop :: "nat \<Rightarrow> nat \<Rightarrow> nat" where
  "shortvec_loop x bytes = (if x < 0x80 then bytes + 1 else shortvec_loop (x div 128) (bytes + 1))"
  by pat_completeness auto
termination by (relation "measure fst") auto

declare shortvec_loop.simps [simp del]

definition ser_shortvec_len :: "nat \<Rightarrow> nat" where
  "ser_shortvec_len n = shortvec_loop n 0"

definition signatures_section_len :: "nat \<Rightarrow> nat" where
  "signatures_section_len required_signers = ser_shortvec_len required_signers + required_signers * 64"

record 'm message_api =
  ma_set_cu_limit :: "u32 \<Rightarrow> instruction"
  ma_set_cu_price :: "u64 \<Rightarrow> instruction"
  ma_try_compile :: "pubkey \<Rightarrow> instruction list \<Rightarrow> lookup_table list \<Rightarrow> hash32 \<Rightarrow> string + 'm"
  ma_bincode_len :: "'m \<Rightarrow> string + nat"
  ma_num_required_signatures :: "'m \<Rightarrow> u8"

definition message_instructions :: "'m message_api \<Rightarrow> fee_plan \<Rightarrow> user_intent list \<Rightarrow> instruction list" where
  "message_instructions api fee intents =
     [ma_set_cu_limit api (ucast (pl_cu_limit fee)), ma_set_cu_price api (pl_cu_price fee)] @ map ui_ix intents"

definition build_v0_message :: "'m message_api \<Rightarrow> build_tx_ctx \<Rightarrow> user_intent list \<Rightarrow> build_error + 'm" where
  "build_v0_message api ctx intents =
     (if intents = [] then Inl NoIntents
      else case validate_alt_resolution (bc_alts ctx) of
        Some e \<Rightarrow> Inl e
      | None \<Rightarrow>
          (case ma_try_compile api (bc_payer ctx) (message_instructions api (bc_fee ctx) intents)
                  (ar_tables (bc_alts ctx)) (bc_blockhash ctx) of
             Inl e \<Rightarrow> Inl (CompileError e)
           | Inr msg \<Rightarrow>
               (case ma_bincode_len api msg of
                  Inl e \<Rightarrow> Inl (SerializeError e)
                | Inr message_bytes \<Rightarrow>
                    (let required_signers = unat (ma_num_required_signatures api msg);
                         max_msg = max_message_bytes_with_signers (bc_safety ctx) required_signers
                     in if message_bytes > max_msg
                        then Inl (MessageTooLarge message_bytes max_msg required_signers)
                        else Inr msg))))"

section \<open>Lemmas\<close>

lemma find_duplicate_None: "find_duplicate s pks = None \<longleftrightarrow> distinct pks \<and> set s \<inter> set pks = {}"
  by (induction pks arbitrary: s) (auto simp: set_insort_insert)

lemma validate_tables_None:
  "validate_tables i ts = None \<longleftrightarrow> list_all (\<lambda>t. lt_addresses t \<noteq> [] \<and> distinct (lt_addresses t)) ts"
proof (induction ts arbitrary: i)
  case (Cons t ts)
  then show ?case
    using find_duplicate_None [of "[]" "lt_addresses t"] by (cases "find_duplicate [] (lt_addresses t)") auto
qed simp

lemma shortvec_loop_eq:
  "n < 2097152 \<Longrightarrow> shortvec_loop n b = b + sig_shortvec_len n"
proof -
  assume n: "n < 2097152"
  consider "n < 128" | "128 \<le> n" "n < 16384" | "16384 \<le> n" by linarith
  then show ?thesis
  proof cases
    case 1
    then show ?thesis by (simp add: shortvec_loop.simps [of n] sig_shortvec_len_def)
  next
    case 2
    then have "n div 128 < 128" by (simp add: div_less_iff_less_mult)
    with 2 show ?thesis
      by (simp add: shortvec_loop.simps [of n] shortvec_loop.simps [of "n div 128"] sig_shortvec_len_def)
  next
    case 3
    then have d: "128 \<le> n div 128" by (simp add: less_eq_div_iff_mult_less_eq)
    have "n div 128 < 16384" using n by (simp add: div_less_iff_less_mult)
    then have "n div 128 div 128 < 128" by (simp add: div_less_iff_less_mult)
    with 3 d show ?thesis
      by (simp add: shortvec_loop.simps [of n] shortvec_loop.simps [of "n div 128"]
          shortvec_loop.simps [of "n div 128 div 128"] sig_shortvec_len_def)
  qed
qed

section \<open>Properties\<close>

text \<open>
  A message that \<open>build_v0_message\<close> returns is the compilation of the two compute-budget
  instructions followed by the intents' instructions in order, and fits into one packet together
  with its signature section and the byte slack; it is never built for an empty intent list or
  for tables that are empty or list an address twice.
\<close>

theorem build_v0_message_correct:
  assumes "build_v0_message api ctx intents = Inr msg" and "ma_bincode_len api msg = Inr n" and "0 < n"
  shows "ma_try_compile api (bc_payer ctx)
        ([ma_set_cu_limit api (ucast (pl_cu_limit (bc_fee ctx))), ma_set_cu_price api (pl_cu_price (bc_fee ctx))]
          @ map ui_ix intents) (ar_tables (bc_alts ctx)) (bc_blockhash ctx) = Inr msg
    \<and> intents \<noteq> []
    \<and> list_all (\<lambda>t. lt_addresses t \<noteq> [] \<and> distinct (lt_addresses t)) (ar_tables (bc_alts ctx))
    \<and> signatures_section_len (unat (ma_num_required_signatures api msg)) + n + unat (sm_bytes_slack (bc_safety ctx))
        \<le> PACKET_DATA_SIZE"
proof -
  let ?k = "unat (ma_num_required_signatures api msg)"
  have parts: "intents \<noteq> []" "validate_alt_resolution (bc_alts ctx) = None"
    "ma_try_compile api (bc_payer ctx) (message_instructions api (bc_fee ctx) intents)
       (ar_tables (bc_alts ctx)) (bc_blockhash ctx) = Inr msg"
    "n \<le> max_message_bytes_with_signers (bc_safety ctx) ?k"
    using assms(1,2) by (auto simp: build_v0_message_def Let_def split: if_splits option.splits sum.splits)
  have "?k < 2097152" using unsigned_less [of "ma_num_required_signatures api msg", where ?'a = nat] by simp
  then have "signatures_section_len ?k = sig_shortvec_len ?k + 64 * ?k"
    by (simp add: signatures_section_len_def ser_shortvec_len_def shortvec_loop_eq)
  with parts assms(3) show ?thesis
    by (simp add: message_instructions_def validate_alt_resolution_def validate_tables_None
        max_message_bytes_with_signers_def Let_def)
qed

definition sample_api :: "instruction list message_api" where
  "sample_api =
     \<lparr>ma_set_cu_limit = (\<lambda>l. \<lparr>ix_program_id = 77, ix_accounts = [], ix_data = [2]\<rparr>),
      ma_set_cu_price = (\<lambda>p. \<lparr>ix_program_id = 77, ix_accounts = [], ix_data = [3]\<rparr>),
      ma_try_compile = (\<lambda>payer ixs tables bh. Inr ixs),
      ma_bincode_len = (\<lambda>m. Inr (length m)), ma_num_required_signatures = (\<lambda>_. 1)\<rparr>"

definition sample_ctx :: build_tx_ctx where
  "sample_ctx =
     \<lparr>bc_payer = 0, bc_blockhash = 0, bc_fee = \<lparr>pl_cu_limit = 100000, pl_cu_price = 0\<rparr>,
      bc_alts = resolution_default, bc_safety = safety_margins_default\<rparr>"

theorem build_v0_message_correct_witness:
  "signatures_section_len 1 + 3 + 64 \<le> PACKET_DATA_SIZE"
proof -
  let ?m = "message_instructions sample_api (bc_fee sample_ctx) [data_intent 0 []]"
  have "build_v0_message sample_api sample_ctx [data_intent 0 []] = Inr ?m"
    by (simp add: build_v0_message_def sample_ctx_def sample_api_def validate_alt_resolution_def
        resolution_default_def message_instructions_def max_message_bytes_with_signers_def PACKET_DATA_SIZE_def
        safety_margins_default_def sig_shortvec_len_def)
  from build_v0_message_correct [OF this, of 3] show ?thesis
    by (simp add: sample_api_def message_instructions_def sample_ctx_def safety_margins_default_def)
qed

text \<open>
  What the manager resolves without a catalog passes the precheck as long as \<open>max_alt_keys\<close> is not
  0. With a maximum of 0 the manager returns a table without addresses, which the precheck
  rejects, so no message can be built.
\<close>

theorem alt_resolution_passes_precheck:
  assumes "cache_ok H self" and "mg_catalog self = None" and "distinct order"
  shows "validate_alt_resolution (fst (resolve_tables H order now now' payer intents self)) = None
    \<longleftrightarrow> 0 < ap_max_alt_keys (mg_policy self)
        \<or> ar_tables (fst (resolve_tables H order now now' payer intents self)) = []"
proof -
  let ?r = "fst (resolve_tables H order now now' payer intents self)"
  have res: "?r = fst (compute_offload_plan H order now now' payer intents self)"
    by (simp add: resolve_tables_def Let_def case_prod_beta)
  have plan: "?r\<lparr>ar_cache_hit := False\<rparr> = plan_of H order payer intents (mg_policy self)"
    unfolding res by (rule compute_offload_plan_plan(1) [OF assms(1,2) prod.collapse [symmetric]])
  have tables: "ar_tables ?r = ar_tables (plan_of H order payer intents (mg_policy self))"
    using arg_cong [OF plan, of ar_tables] by simp
  let ?es = "usage_entries order (build_key_usage payer intents)"
  have dist: "distinct (map ku_pubkey ?es)" using assms(3) by (simp add: usage_entries_keys)
  show ?thesis
  proof (cases "ar_tables ?r = []")
    case True
    then show ?thesis by (simp add: validate_alt_resolution_def)
  next
    case False
    then obtain off where off: "offload_keys (mg_policy self) ?es = Some off"
      and t: "ar_tables ?r = [\<lparr>lt_key = derive_table_key H (map ku_pubkey (sort_key ku_pubkey off)),
                 lt_addresses = map ku_pubkey (sort_key ku_pubkey off)\<rparr>]"
      by (auto simp: tables plan_of_def resolution_default_def synthetic_resolution_def Let_def
          split: if_splits option.splits)
    have "distinct (map ku_pubkey (sort_key ku_pubkey off))"
      using offload_keys_members(3) [OF off dist] by (rule distinct_map_sort_key)
    moreover have "off = [] \<longleftrightarrow> ap_max_alt_keys (mg_policy self) = 0"
      using off by (auto simp: offload_keys_def Let_def split: if_splits)
    moreover have "sort_key ku_pubkey off = [] \<longleftrightarrow> off = []"
      by (metis length_0_conv length_sort)
    ultimately show ?thesis
      unfolding validate_alt_resolution_def t validate_tables_None by simp
  qed
qed

theorem alt_resolution_passes_precheck_witness:
  "validate_alt_resolution (fst (resolve_tables len_hash [3, 2] 0 0 9 [alt_sample_intent]
     (alt_manager_new alt_sample_policy 10))) = None"
  using alt_resolution_passes_precheck [of len_hash "alt_manager_new alt_sample_policy 10" "[3, 2]" 0 0 9 "[alt_sample_intent]"]
    cache_ok_new [of len_hash alt_sample_policy 10]
  by (simp add: alt_manager_new_def) (simp add: alt_sample_policy_def alt_policy_default_def)

end
