(* ===== verification/Sender.thy ===== *)
theory Sender
  imports Fee Estimator
begin

text \<open>
  The reliable sender of bundler/src/sender.rs: simulate, tighten the compute-unit limit, rebuild
  and send.

  The message builder, the signers and the RPC client belong to the caller or are third-party: they
  are the fields of \<open>send_env\<close>, functions on a state \<open>'w\<close> that stands for the outside world. The
  sender's own state is the record \<open>sender_state\<close>; the log in it lists the RPC calls in the order
  they are made. The mutexes are taken to be available. Durations are not modelled.
\<close>

section \<open>The window of used units\<close>

record cu_stats =
  cs_window :: "u32 list"
  cs_cap :: nat

definition cu_stats_new :: "nat \<Rightarrow> cu_stats" where
  "cu_stats_new cap = \<lparr>cs_window = [], cs_cap = cap\<rparr>"

definition cu_stats_clear :: "cu_stats \<Rightarrow> cu_stats" where
  "cu_stats_clear self = self\<lparr>cs_window := []\<rparr>"

definition cu_stats_record :: "u32 \<Rightarrow> cu_stats \<Rightarrow> cu_stats" where
  "cu_stats_record used self =
     (let window = (if length (cs_window self) = cs_cap self then tl (cs_window self) else cs_window self)
      in self\<lparr>cs_window := window @ [used]\<rparr>)"

definition p95_index :: "nat \<Rightarrow> nat" where
  "p95_index n = min (nat \<lceil>f64_mul (f64_of_nat n) (f64_round (95 / 100))\<rceil> - 1) (n - 1)"

definition p95 :: "cu_stats \<Rightarrow> u32 option" where
  "p95 self =
     (if cs_window self = [] then None
      else let v = sort_key id (cs_window self) in Some (v ! p95_index (length v)))"

section \<open>The sender\<close>

datatype cu_scope = GlobalScope | PerScope

datatype 's rpc_event = EvSimulate | EvBlockhashValid | EvSend 's

text \<open>Locals of the sender: the oracle is a state \<open>'o\<close> with the two operations of the trait.\<close>

record ('o, 'w, 'tx) sender_state =
  ss_oracle :: 'o
  ss_stats :: cu_stats
  ss_scope :: cu_scope
  ss_pre_check_blockhash :: bool
  ss_world :: 'w
  ss_metrics :: rpc_metrics
  ss_log :: "'tx rpc_event list"

record sim_result =
  sr_err :: "string option"
  sr_units_consumed :: "u64 option"

record ('o, 'w, 'm, 'tx, 'sig) send_env =
  se_suggest :: "'o \<Rightarrow> (fee_plan \<times> 'o) option"
  se_clamp :: "'o \<Rightarrow> fee_plan \<Rightarrow> fee_plan"
  se_build :: "fee_plan \<Rightarrow> 'w \<Rightarrow> (string + 'm) \<times> 'w"
  se_sign :: "'m \<Rightarrow> string + 'tx"
  se_simulate :: "'tx \<Rightarrow> 'w \<Rightarrow> (string + sim_result) \<times> 'w"
  se_is_blockhash_valid :: "hash32 \<Rightarrow> 'w \<Rightarrow> (string + bool) \<times> 'w"
  se_send :: "'tx \<Rightarrow> 'w \<Rightarrow> (string + 'sig) \<times> 'w"
  se_bincode_len :: "'m \<Rightarrow> string + nat"
  se_required_signatures :: "'m \<Rightarrow> u8"
  se_recent_blockhash :: "'m \<Rightarrow> hash32"

record 'sig send_report =
  sp_signature :: "'sig option"
  sp_used_cu :: u32
  sp_final_plan :: fee_plan
  sp_message_bytes :: nat
  sp_required_signers :: nat
  sp_base_fee_lamports :: u64
  sp_priority_fee_lamports :: u64
  sp_total_fee_lamports :: u64

datatype send_error =
    BuildFailed string | SignFailed string | SimulateCallFailed string | SimulationError string
  | EncodeFailed string | BlockhashCallFailed string | StaleBlockhash | SendFailed string
  | SignatureMissing

definition sender_new :: "'o \<Rightarrow> 'w \<Rightarrow> rpc_metrics \<Rightarrow> ('o, 'w, 'tx) sender_state" where
  "sender_new orc world metrics =
     \<lparr>ss_oracle = orc, ss_stats = cu_stats_new 128, ss_scope = GlobalScope, ss_pre_check_blockhash = True,
      ss_world = world, ss_metrics = metrics, ss_log = []\<rparr>"

definition sender_with_scope :: "'o \<Rightarrow> cu_scope \<Rightarrow> 'w \<Rightarrow> rpc_metrics \<Rightarrow> ('o, 'w, 'tx) sender_state" where
  "sender_with_scope orc scope world metrics =
     \<lparr>ss_oracle = orc, ss_stats = cu_stats_new 128, ss_scope = scope, ss_pre_check_blockhash = True,
      ss_world = world, ss_metrics = metrics, ss_log = []\<rparr>"

definition with_fast_send :: "('o, 'w, 'tx) sender_state \<Rightarrow> ('o, 'w, 'tx) sender_state" where
  "with_fast_send self = self\<lparr>ss_pre_check_blockhash := False\<rparr>"

definition start_scope :: "('o, 'w, 'tx) sender_state \<Rightarrow> ('o, 'w, 'tx) sender_state" where
  "start_scope self = (if ss_scope self = PerScope then self\<lparr>ss_stats := cu_stats_clear (ss_stats self)\<rparr> else self)"

section \<open>\<open>simulate_build_and_send_with_report\<close>\<close>

text \<open>Step 2: simulate the first build; a successful call is counted, also when it reports an error.\<close>

definition simulate_step ::
    "('o, 'w, 'm, 'tx, 'sig) send_env \<Rightarrow> 'tx \<Rightarrow> ('o, 'w, 'tx) sender_state
      \<Rightarrow> (send_error + u32) \<times> ('o, 'w, 'tx) sender_state" where
  "simulate_step env tx0 s =
     (case se_simulate env tx0 (ss_world s) of
        (Inl e, w) \<Rightarrow> (Inl (SimulateCallFailed e), s\<lparr>ss_world := w, ss_log := ss_log s @ [EvSimulate]\<rparr>)
      | (Inr sim, w) \<Rightarrow>
          (let s = s\<lparr>ss_world := w, ss_log := ss_log s @ [EvSimulate], ss_metrics := track_simulate (ss_metrics s)\<rparr>
           in case sr_err sim of
                Some err \<Rightarrow> (Inl (SimulationError err), s)
              | None \<Rightarrow>
                  (Inr (ucast (case sr_units_consumed sim of None \<Rightarrow> 200000 | Some u \<Rightarrow> u)), s)))"

text \<open>Steps 3 and 4: record the used units and compute the final plan.\<close>

definition tighten_plan ::
    "('o, 'w, 'm, 'tx, 'sig) send_env \<Rightarrow> fee_plan \<Rightarrow> u32 \<Rightarrow> ('o, 'w, 'tx) sender_state
      \<Rightarrow> fee_plan \<times> ('o, 'w, 'tx) sender_state" where
  "tighten_plan env plan0 used s =
     (let s = s\<lparr>ss_stats := cu_stats_record used (ss_stats s)\<rparr>;
          p95_used = (case p95 (ss_stats s) of None \<Rightarrow> used | Some v \<Rightarrow> v);
          target_limit = max p95_used used;
          safe = apply_safety_with_cap target_limit 10000 20 (ucast (pl_cu_limit plan0));
          plan = \<lparr>pl_cu_limit = ucast (ce_cu_with_safety safe), pl_cu_price = pl_cu_price plan0\<rparr>
      in (se_clamp env (ss_oracle s) plan, s))"

text \<open>The send step: optional blockhash check, signing, sending.\<close>

definition send_step ::
    "('o, 'w, 'm, 'tx, 'sig) send_env \<Rightarrow> 'm \<Rightarrow> ('o, 'w, 'tx) sender_state
      \<Rightarrow> (send_error + 'sig) \<times> ('o, 'w, 'tx) sender_state" where
  "send_step env vmsg s =
     (case (if ss_pre_check_blockhash s
            then (case se_is_blockhash_valid env (se_recent_blockhash env vmsg) (ss_world s) of
                    (Inl e, w) \<Rightarrow> (Some (BlockhashCallFailed e), s\<lparr>ss_world := w, ss_log := ss_log s @ [EvBlockhashValid]\<rparr>)
                  | (Inr ok, w) \<Rightarrow>
                      (if ok then None else Some StaleBlockhash,
                       s\<lparr>ss_world := w, ss_log := ss_log s @ [EvBlockhashValid],
                         ss_metrics := track_is_blockhash_valid (ss_metrics s)\<rparr>))
            else (None, s)) of
        (Some e, s) \<Rightarrow> (Inl e, s)
      | (None, s) \<Rightarrow>
          (case se_sign env vmsg of
             Inl e \<Rightarrow> (Inl (SignFailed e), s)
           | Inr tx_final \<Rightarrow>
               (case se_send env tx_final (ss_world s) of
                  (Inl e, w) \<Rightarrow> (Inl (SendFailed e), s\<lparr>ss_world := w, ss_log := ss_log s @ [EvSend tx_final]\<rparr>)
                | (Inr sig, w) \<Rightarrow>
                    (Inr sig, s\<lparr>ss_world := w, ss_log := ss_log s @ [EvSend tx_final],
                                ss_metrics := track_send_transaction (ss_metrics s)\<rparr>))))"

definition make_report ::
    "'sig option \<Rightarrow> u32 \<Rightarrow> fee_plan \<Rightarrow> nat \<Rightarrow> nat \<Rightarrow> 'sig send_report" where
  "make_report signature used plan message_bytes required_signers =
     (let base_fee_lamports = 5000 * of_nat required_signers;
          priority_fee_lamports = sat_mul (pl_cu_limit plan) (pl_cu_price plan) div 1000000
      in \<lparr>sp_signature = signature, sp_used_cu = used, sp_final_plan = plan, sp_message_bytes = message_bytes,
          sp_required_signers = required_signers, sp_base_fee_lamports = base_fee_lamports,
          sp_priority_fee_lamports = priority_fee_lamports,
          sp_total_fee_lamports = base_fee_lamports + priority_fee_lamports\<rparr>)"

text \<open>The whole routine; the outer \<open>None\<close> is a panic of the oracle.\<close>

definition simulate_build_and_send_with_report ::
    "('o, 'w, 'm, 'tx, 'sig) send_env \<Rightarrow> bool \<Rightarrow> ('o, 'w, 'tx) sender_state
      \<Rightarrow> ((send_error + 'sig send_report) \<times> ('o, 'w, 'tx) sender_state) option" where
  "simulate_build_and_send_with_report env dry_run s =
     (case se_suggest env (ss_oracle s) of
        None \<Rightarrow> None
      | Some (suggested, orc) \<Rightarrow>
          (let s = s\<lparr>ss_oracle := orc\<rparr>; plan0 = se_clamp env orc suggested
           in Some (case se_build env plan0 (ss_world s) of
             (Inl e, w) \<Rightarrow> (Inl (BuildFailed e), s\<lparr>ss_world := w\<rparr>)
           | (Inr vmsg0, w) \<Rightarrow>
               (let s = s\<lparr>ss_world := w\<rparr>
                in case se_sign env vmsg0 of
                     Inl e \<Rightarrow> (Inl (SignFailed e), s)
                   | Inr tx0 \<Rightarrow>
                       (case simulate_step env tx0 s of
                          (Inl e, s) \<Rightarrow> (Inl e, s)
                        | (Inr used, s) \<Rightarrow>
                            (case tighten_plan env plan0 used s of
                               (plan, s) \<Rightarrow>
                                 (case se_build env plan (ss_world s) of
                                    (Inl e, w) \<Rightarrow> (Inl (BuildFailed e), s\<lparr>ss_world := w\<rparr>)
                                  | (Inr vmsg, w) \<Rightarrow>
                                      (let s = s\<lparr>ss_world := w\<rparr>
                                       in case se_bincode_len env vmsg of
                                            Inl e \<Rightarrow> (Inl (EncodeFailed e), s)
                                          | Inr message_bytes \<Rightarrow>
                                              (let required_signers = unat (se_required_signatures env vmsg)
                                               in if dry_run
                                                  then (Inr (make_report None used plan message_bytes required_signers), s)
                                                  else (case send_step env vmsg s of
                                                          (Inl e, s) \<Rightarrow> (Inl e, s)
                                                        | (Inr sig, s) \<Rightarrow>
                                                            (Inr (make_report (Some sig) used plan message_bytes
                                                                    required_signers), s)))))))))))"

definition simulate_and_send ::
    "('o, 'w, 'm, 'tx, 'sig) send_env \<Rightarrow> ('o, 'w, 'tx) sender_state
      \<Rightarrow> ((send_error + 'sig) \<times> ('o, 'w, 'tx) sender_state) option" where
  "simulate_and_send env s =
     (case simulate_build_and_send_with_report env False s of
        None \<Rightarrow> None
      | Some (Inl e, s) \<Rightarrow> Some (Inl e, s)
      | Some (Inr rep, s) \<Rightarrow>
          Some (case sp_signature rep of None \<Rightarrow> Inl SignatureMissing | Some sig \<Rightarrow> Inr sig, s))"


section \<open>What a report says\<close>

definition event_order :: "bool \<Rightarrow> bool \<Rightarrow> 'tx rpc_event list \<Rightarrow> bool" where
  "event_order dry_run pre_check evs \<longleftrightarrow>
     evs = [] \<or> evs = [EvSimulate]
     \<or> (\<not> dry_run \<and> pre_check \<and> (evs = [EvSimulate, EvBlockhashValid]
            \<or> (\<exists>tx. evs = [EvSimulate, EvBlockhashValid, EvSend tx])))
     \<or> (\<not> dry_run \<and> \<not> pre_check \<and> (\<exists>tx. evs = [EvSimulate, EvSend tx]))"

lemma send_step_log:
  "send_step env vmsg s = (r, s') \<Longrightarrow>
   ss_log s' = ss_log s
     \<or> ss_pre_check_blockhash s \<and> ss_log s' = ss_log s @ [EvBlockhashValid]
     \<or> (\<exists>tx. se_sign env vmsg = Inr tx
          \<and> ss_log s' = ss_log s @ (if ss_pre_check_blockhash s then [EvBlockhashValid] else []) @ [EvSend tx])"
  by (auto simp: send_step_def split: prod.splits sum.splits option.splits if_splits)

lemma send_step_Inr:
  "send_step env vmsg s = (Inr sig, s') \<Longrightarrow>
   \<exists>tx. se_sign env vmsg = Inr tx
     \<and> ss_log s' = ss_log s @ (if ss_pre_check_blockhash s then [EvBlockhashValid] else []) @ [EvSend tx]"
  by (auto simp: send_step_def split: prod.splits sum.splits option.splits if_splits)

lemma simulate_step_log:
  "simulate_step env tx s = (r, s') \<Longrightarrow>
   ss_log s' = ss_log s @ [EvSimulate] \<and> ss_pre_check_blockhash s' = ss_pre_check_blockhash s \<and> ss_oracle s' = ss_oracle s"
  by (auto simp: simulate_step_def Let_def split: prod.splits sum.splits option.splits)

lemma tighten_plan_state:
  "tighten_plan env plan0 used s = (plan, s') \<Longrightarrow>
   ss_log s' = ss_log s \<and> ss_pre_check_blockhash s' = ss_pre_check_blockhash s \<and> ss_oracle s' = ss_oracle s"
  by (auto simp: tighten_plan_def Let_def)

text \<open>The steps of a run that reports success.\<close>

lemma report_steps:
  assumes "simulate_build_and_send_with_report env dry_run s = Some (Inr rep, s')"
  obtains suggested orc w1 tx0 used s2 plan s3 vmsg w n sig where
    "se_suggest env (ss_oracle s) = Some (suggested, orc)"
    "simulate_step env tx0 (s\<lparr>ss_oracle := orc, ss_world := w1\<rparr>) = (Inr used, s2)"
    "tighten_plan env (se_clamp env orc suggested) used s2 = (plan, s3)"
    "se_build env plan (ss_world s3) = (Inr vmsg, w)" "se_bincode_len env vmsg = Inr n"
    "rep = make_report sig used plan n (unat (se_required_signatures env vmsg))"
    "dry_run \<Longrightarrow> sig = None \<and> s' = s3\<lparr>ss_world := w\<rparr>"
    "\<not> dry_run \<Longrightarrow> sig \<noteq> None \<and> send_step env vmsg (s3\<lparr>ss_world := w\<rparr>) = (Inr (the sig), s')"
proof (cases dry_run)
  case True
  with assms show thesis
    by (auto simp: simulate_build_and_send_with_report_def Let_def split: prod.splits sum.splits option.splits
        intro: that [where sig = None])
next
  case False
  with assms show thesis
    by (auto simp: simulate_build_and_send_with_report_def Let_def split: prod.splits sum.splits option.splits
        intro: that [where sig = "Some x" for x])
qed

text \<open>The limit that steps 3 and 4 put into the plan, before the oracle clamps it.\<close>

lemma tightened_limit:
  assumes "unat limit0 < 2 ^ 32"
  shows "unat (ucast (ce_cu_with_safety (apply_safety_with_cap target 10000 20 (ucast (limit0 :: u64)))) :: u64) =
    min (unat limit0) (unat target + 10000 + unat target * 20 div 100)"
proof -
  have cap: "unat (ucast limit0 :: u32) = unat limit0"
    using assms by (simp add: unsigned_ucast_eq take_bit_nat_eq_self)
  have up: "unat (ucast c :: u64) = unat c" for c :: u32
    using unsigned_less [of c, where ?'a = nat] by (simp add: unsigned_ucast_eq take_bit_nat_eq_self)
  have "unat (min a b) = min (unat a) (unat b)" for a b :: u32
    by (simp add: min_def word_le_nat_alt)
  then have "unat (ce_cu_with_safety (apply_safety_with_cap target 10000 20 (ucast limit0))) =
      min (unat limit0) (min (2 ^ 32 - 1) (unat target + 10000 + unat target * 20 div 100))"
    by (simp add: apply_safety_with_cap_min unat_apply_safety_pct_le_100 cap)
  with assms show ?thesis by (simp only: up) linarith
qed

lemma target_mono: "unat (used :: u32) \<le> unat (max p used)"
  by (simp add: max_def word_le_nat_alt)

context fee_oracle
begin

lemma report_plan:
  assumes "simulate_build_and_send_with_report env dry_run s = Some (Inr rep, s')"
    and "se_suggest env = suggest" and "se_clamp env = clamp" and "unat (max_limit (ss_oracle s)) < 2 ^ 32"
  shows "\<exists>suggested orc. suggest (ss_oracle s) = Some (suggested, orc)
     \<and> min (unat (pl_cu_limit (clamp orc suggested))) (unat (sp_used_cu rep) + 10000 + unat (sp_used_cu rep) * 20 div 100)
         \<le> unat (pl_cu_limit (sp_final_plan rep))
     \<and> pl_cu_limit (sp_final_plan rep) \<le> max_limit (ss_oracle s)
     \<and> pl_cu_price (sp_final_plan rep) \<le> max_price (ss_oracle s)
     \<and> clamp orc (sp_final_plan rep) = sp_final_plan rep"
proof -
  from assms(1) obtain suggested orc w1 tx0 used s2 plan s3 vmsg w n sig where
    sug: "suggest (ss_oracle s) = Some (suggested, orc)"
    and sim: "simulate_step env tx0 (s\<lparr>ss_oracle := orc, ss_world := w1\<rparr>) = (Inr used, s2)"
    and tight: "tighten_plan env (clamp orc suggested) used s2 = (plan, s3)"
    and rep: "rep = make_report sig used plan n (unat (se_required_signatures env vmsg))"
    by (rule report_steps) (simp add: assms(2,3))
  have orc: "ss_oracle s2 = orc" using simulate_step_log [OF sim] by simp
  let ?limit0 = "pl_cu_limit (clamp orc suggested)"
  let ?stats = "cu_stats_record used (ss_stats s2)"
  let ?target = "max (case p95 ?stats of None \<Rightarrow> used | Some v \<Rightarrow> v) used"
  let ?safe = "ucast (ce_cu_with_safety (apply_safety_with_cap ?target 10000 20 (ucast ?limit0))) :: u64"
  have plan: "plan = clamp orc \<lparr>pl_cu_limit = ?safe, pl_cu_price = pl_cu_price (clamp orc suggested)\<rparr>"
    using tight by (simp add: tighten_plan_def Let_def orc assms(3))
  have l0: "?limit0 \<le> max_limit orc" by (rule clamp_limit_le)
  then have "unat ?limit0 < 2 ^ 32" using assms(4) suggest_bounds [OF sug] by (simp add: word_le_nat_alt)
  note safe = tightened_limit [OF this, of ?target]
  then have "?safe \<le> ?limit0" by (simp add: word_le_nat_alt)
  then have limit: "pl_cu_limit plan = ?safe" using l0 by (simp add: plan clamp_limit)
  have "unat used \<le> unat ?target" by (rule target_mono)
  then have "min (unat ?limit0) (unat used + 10000 + unat used * 20 div 100) \<le> unat ?safe"
    unfolding safe by (intro min.mono order_refl add_mono div_le_mono mult_le_mono1)
  moreover have "pl_cu_limit plan \<le> max_limit (ss_oracle s)"
    using limit \<open>?safe \<le> ?limit0\<close> l0 suggest_bounds [OF sug] by simp
  moreover have "pl_cu_price plan \<le> max_price (ss_oracle s)"
    using clamp_price [of orc] suggest_bounds [OF sug] by (simp add: plan)
  moreover have "clamp orc plan = plan" by (simp add: plan clamp_idem)
  moreover have "sp_used_cu rep = used" "sp_final_plan rep = plan" by (simp_all add: rep make_report_def Let_def)
  ultimately show ?thesis using sug limit by auto
qed

end


section \<open>The window stays bounded, and its 95th percentile\<close>

definition stats_ok :: "cu_stats \<Rightarrow> bool" where
  "stats_ok st \<longleftrightarrow> length (cs_window st) \<le> cs_cap st \<and> 0 < cs_cap st \<and> cs_cap st \<le> 128"

lemma stats_ok_record: "stats_ok st \<Longrightarrow> stats_ok (cu_stats_record used st)"
  by (cases "cs_window st") (auto simp: stats_ok_def cu_stats_record_def Let_def)

lemma stats_ok_new: "stats_ok (cu_stats_new 128)"
  by (simp add: stats_ok_def cu_stats_new_def)

lemma stats_ok_clear: "stats_ok st \<Longrightarrow> stats_ok (cu_stats_clear st)"
  by (simp add: stats_ok_def cu_stats_clear_def)

lemma f64_095: "f64_round (95 / 100) = 4278419646001971 / 4503599627370496"
  by code_simp

text \<open>The rounded product never crosses an integer: the index is that of the nearest rank.\<close>

lemma p95_index_rank:
  assumes "0 < n" and "n \<le> 128"
  shows "p95_index n = (19 * n + 19) div 20 - 1"
proof -
  let ?c = "4278419646001971 / 4503599627370496 :: rat"
  let ?k = "(19 * n + 19) div 20"
  define q where "q = (of_nat n :: rat)"
  define r where "r = f64_mul (f64_of_nat n) (f64_round (95 / 100))"
  have n: "1 \<le> q" "q \<le> 128" using assms by (simp_all add: q_def)
  have r: "r = f64_round (q * ?c)"
    unfolding r_def f64_mul_def f64_095 q_def using assms by (simp add: f64_of_nat_exact)
  have k: "19 * n \<le> 20 * ?k" "20 * ?k \<le> 19 * n + 19" by linarith+
  then have "of_nat (19 * n) \<le> (of_nat (20 * ?k) :: rat)" "of_nat (20 * ?k) \<le> (of_nat (19 * n + 19) :: rat)"
    by (simp_all only: of_nat_le_iff)
  then have kq: "19 * q \<le> 20 * of_nat ?k" "20 * of_nat ?k \<le> 19 * q + 19" by (simp_all add: q_def)
  have "\<bar>r - q * ?c\<bar> \<le> q * ?c / 2 ^ 53" unfolding r by (rule f64_round_error) (use n in simp)
  then have "q * ?c - q * ?c / 2 ^ 53 \<le> r" by linarith
  then have "of_nat ?k - 1 < r" using n kq by simp
  moreover have "r \<le> of_int (int ?k)"
    unfolding r by (rule f64_round_le_int) (use n kq in simp_all)
  ultimately have "\<lceil>r\<rceil> = int ?k" by (intro ceiling_unique) simp_all
  then have "p95_index n = min (?k - 1) (n - 1)" by (simp add: p95_index_def r_def)
  moreover have "?k \<le> n" using k assms by linarith
  ultimately show ?thesis by simp
qed

text \<open>Ranks of a sorted list.\<close>

lemma sorted_count_le:
  assumes "sorted v" and "i < length v"
  shows "Suc i \<le> length (filter (\<lambda>x. x \<le> v ! i) v)"
proof -
  have "{0..i} \<subseteq> {j. j < length v \<and> v ! j \<le> v ! i}"
    using assms by (auto intro: sorted_nth_mono)
  then have "card {0..i} \<le> card {j. j < length v \<and> v ! j \<le> v ! i}" by (intro card_mono) auto
  then show ?thesis by (simp add: length_filter_conv_card)
qed

lemma sorted_count_less:
  assumes "sorted v" and "i < length v"
  shows "length (filter (\<lambda>x. x < v ! i) v) \<le> i"
proof -
  have "{j. j < length v \<and> v ! j < v ! i} \<subseteq> {..<i}"
    using assms by (auto simp: not_le intro: leI dest: sorted_nth_mono [of v i])
  then have "card {j. j < length v \<and> v ! j < v ! i} \<le> card {..<i}" by (intro card_mono) auto
  then show ?thesis by (simp add: length_filter_conv_card)
qed

lemma length_filter_sort_key: "length (filter P (sort_key f xs)) = length (filter P xs)"
  by (metis mset_filter mset_sort size_mset)

text \<open>
  The value that sizes the next compute-unit limit is the nearest-rank 95th percentile of the
  window: it is one of the recorded samples, at least 95 per cent of the samples are no larger, and
  fewer than 95 per cent are smaller. Floating-point rounding never shifts the rank for a window of
  up to 128 samples, which is the capacity every constructor uses and every operation keeps.
\<close>

theorem p95_nearest_rank:
  assumes "stats_ok st" and "cs_window st \<noteq> []"
  shows "\<exists>v. p95 st = Some v \<and> v \<in> set (cs_window st)
    \<and> 95 * length (cs_window st) \<le> 100 * length (filter (\<lambda>x. x \<le> v) (cs_window st))
    \<and> 100 * length (filter (\<lambda>x. x < v) (cs_window st)) < 95 * length (cs_window st)
    \<and> stats_ok (cu_stats_record used st) \<and> stats_ok (cu_stats_clear st) \<and> stats_ok (cu_stats_new 128)"
proof -
  let ?w = "cs_window st" and ?v = "sort_key id (cs_window st)"
  let ?n = "length ?w" and ?i = "p95_index (length (cs_window st))"
  have n: "0 < ?n" "?n \<le> 128" using assms by (simp_all add: stats_ok_def)
  have i: "?i = (19 * ?n + 19) div 20 - 1" using n by (rule p95_index_rank)
  then have lt: "?i < length ?v" using n by (simp only: length_sort)
  have s: "sorted ?v" using sorted_sort_key [of id ?w] by simp
  have "95 * ?n \<le> 100 * length (filter (\<lambda>x. x \<le> ?v ! ?i) ?w)"
    using sorted_count_le [OF s lt] i n by (simp only: length_filter_sort_key; linarith)
  moreover have "100 * length (filter (\<lambda>x. x < ?v ! ?i) ?w) < 95 * ?n"
    using sorted_count_less [OF s lt] i n by (simp only: length_filter_sort_key; linarith)
  moreover have "?v ! ?i \<in> set ?w" using nth_mem [OF lt] by simp
  moreover have "p95 st = Some (?v ! ?i)" using assms(2) by (simp add: p95_def Let_def)
  ultimately show ?thesis
    using assms(1) by (intro exI [of _ "?v ! ?i"]) (simp add: stats_ok_record stats_ok_clear stats_ok_new)
qed

theorem p95_nearest_rank_witness:
  "\<exists>v. p95 (cu_stats_record 70 (cu_stats_record 40 (cu_stats_new 128))) = Some v \<and> v \<in> {40, 70}"
  using p95_nearest_rank [of "cu_stats_record 70 (cu_stats_record 40 (cu_stats_new 128))" 0]
  by (auto simp: stats_ok_def cu_stats_record_def cu_stats_new_def Let_def)

section \<open>The order of the RPC calls\<close>

lemma report_log:
  assumes "simulate_build_and_send_with_report env dry_run s = Some (r, s')"
  shows "\<exists>evs. ss_log s' = ss_log s @ evs \<and> event_order dry_run (ss_pre_check_blockhash s) evs"
  using assms
  by (auto simp: simulate_build_and_send_with_report_def Let_def event_order_def
      dest!: simulate_step_log tighten_plan_state send_step_log
      split: prod.splits sum.splits option.splits if_splits)

text \<open>An environment whose calls all succeed; a message is the plan it was built from.\<close>

definition sample_env :: "(basic_fee_oracle, unit, fee_plan, fee_plan, nat) send_env" where
  "sample_env =
     \<lparr>se_suggest = (\<lambda>orc. Some (basic_suggest orc, orc)), se_clamp = basic_clamp,
      se_build = (\<lambda>plan w. (Inr plan, w)), se_sign = Inr,
      se_simulate = (\<lambda>tx w. (Inr \<lparr>sr_err = None, sr_units_consumed = Some 30000\<rparr>, w)),
      se_is_blockhash_valid = (\<lambda>bh w. (Inr True, w)), se_send = (\<lambda>tx w. (Inr 7, w)),
      se_bincode_len = (\<lambda>m. Inr 300), se_required_signatures = (\<lambda>m. 2), se_recent_blockhash = (\<lambda>m. 0)\<rparr>"

definition sample_sender :: "(basic_fee_oracle, unit, fee_plan) sender_state" where
  "sample_sender = sender_new basic_fee_oracle_default () rpc_metrics_zero"

definition sample_run :: "(send_error + nat send_report) \<times> (basic_fee_oracle, unit, fee_plan) sender_state" where
  "sample_run = the (simulate_build_and_send_with_report sample_env False sample_sender)"

lemma report_sends:
  assumes "simulate_build_and_send_with_report env dry_run s = Some (r, s')" and "ss_log s' = ss_log s @ evs"
    and "EvSend tx \<in> set evs"
  shows "\<exists>plan w vmsg w'. se_build env plan w = (Inr vmsg, w') \<and> se_sign env vmsg = Inr tx"
  using assms
  by (auto simp: simulate_build_and_send_with_report_def Let_def
      dest!: simulate_step_log tighten_plan_state send_step_log
      split: prod.splits sum.splits option.splits if_splits) blast+

lemma report_success:
  assumes ok: "simulate_build_and_send_with_report env dry_run s = Some (Inr rep, s')"
  shows "\<exists>evs. ss_log s' = ss_log s @ evs \<and> event_order dry_run (ss_pre_check_blockhash s) evs
    \<and> (sp_signature rep = None \<longleftrightarrow> dry_run)
    \<and> (if dry_run then evs = [EvSimulate]
       else \<exists>w vmsg w' tx. se_build env (sp_final_plan rep) w = (Inr vmsg, w') \<and> se_sign env vmsg = Inr tx
             \<and> evs = EvSimulate # (if ss_pre_check_blockhash s then [EvBlockhashValid] else []) @ [EvSend tx])"
proof -
  from ok obtain suggested orc w1 tx0 used s2 plan s3 vmsg w n sig where
    sim: "simulate_step env tx0 (s\<lparr>ss_oracle := orc, ss_world := w1\<rparr>) = (Inr used, s2)"
    and tight: "tighten_plan env (se_clamp env orc suggested) used s2 = (plan, s3)"
    and build: "se_build env plan (ss_world s3) = (Inr vmsg, w)"
    and rep: "rep = make_report sig used plan n (unat (se_required_signatures env vmsg))"
    and dry: "dry_run \<Longrightarrow> sig = None \<and> s' = s3\<lparr>ss_world := w\<rparr>"
    and live: "\<not> dry_run \<Longrightarrow> sig \<noteq> None \<and> send_step env vmsg (s3\<lparr>ss_world := w\<rparr>) = (Inr (the sig), s')"
    by (rule report_steps) (rule that)
  have log: "ss_log s3 = ss_log s @ [EvSimulate]" "ss_pre_check_blockhash s3 = ss_pre_check_blockhash s"
    using simulate_step_log [OF sim] tighten_plan_state [OF tight] by simp_all
  have rp: "sp_signature rep = sig" "sp_final_plan rep = plan" by (simp_all add: rep make_report_def Let_def)
  show ?thesis
  proof (cases dry_run)
    case True
    with dry log report_log [OF ok] show ?thesis by (auto simp: rp)
  next
    case False
    from live [OF False] obtain tx where tx: "se_sign env vmsg = Inr tx"
      "ss_log s' = ss_log s @ EvSimulate # (if ss_pre_check_blockhash s then [EvBlockhashValid] else []) @ [EvSend tx]"
      using log by (auto dest!: send_step_Inr)
    with False live build report_log [OF ok] show ?thesis by (simp add: rp) blast
  qed
qed

text \<open>
  C26: A run calls simulate first, then (only outside a dry run) asks whether the blockhash is valid
  if the pre-check is on, then sends at most one transaction, and nothing after; an error stops the
  sequence. A run that reports success outside a dry run has sent exactly one transaction, the
  signed build of the final plan of its report; a dry run never sends.
\<close>

theorem send_event_order:
  assumes "simulate_build_and_send_with_report env dry_run s = Some (r, s')"
  shows "\<exists>evs. ss_log s' = ss_log s @ evs \<and> event_order dry_run (ss_pre_check_blockhash s) evs
    \<and> (\<forall>rep. r = Inr rep \<longrightarrow> (sp_signature rep = None \<longleftrightarrow> dry_run)
         \<and> (if dry_run then evs = [EvSimulate]
            else \<exists>w vmsg w' tx. se_build env (sp_final_plan rep) w = (Inr vmsg, w') \<and> se_sign env vmsg = Inr tx
                  \<and> evs = EvSimulate # (if ss_pre_check_blockhash s then [EvBlockhashValid] else []) @ [EvSend tx]))"
proof (cases r)
  case (Inl e)
  with report_log [OF assms] show ?thesis by auto
next
  case (Inr rep)
  from report_success [OF assms [unfolded Inr]] show ?thesis by (simp only: Inr sum.inject) blast
qed

theorem send_event_order_witness:
  "\<exists>r s'. simulate_build_and_send_with_report sample_env False sample_sender = Some (r, s')
     \<and> (\<exists>evs. ss_log s' = evs \<and> event_order False True evs)"
proof -
  have run: "simulate_build_and_send_with_report sample_env False sample_sender = Some sample_run"
    by (simp add: sample_run_def simulate_build_and_send_with_report_def sample_env_def Let_def split: sum.split prod.split)
  have "ss_log sample_sender = []" "ss_pre_check_blockhash sample_sender"
    by (simp_all add: sample_sender_def sender_new_def)
  with send_event_order [of sample_env False sample_sender "fst sample_run" "snd sample_run"] run show ?thesis
    by (intro exI [of _ "fst sample_run"] exI [of _ "snd sample_run"]) auto
qed

section \<open>The plan and the fees of a report\<close>

lemma report_fees:
  assumes "simulate_build_and_send_with_report env dry_run s = Some (Inr rep, s')"
  shows "unat (sp_base_fee_lamports rep) = 5000 * sp_required_signers rep \<and> sp_required_signers rep < 256
    \<and> unat (sp_priority_fee_lamports rep) =
        min (2 ^ 64 - 1) (unat (pl_cu_limit (sp_final_plan rep)) * unat (pl_cu_price (sp_final_plan rep))) div 1000000
    \<and> unat (sp_total_fee_lamports rep) = unat (sp_base_fee_lamports rep) + unat (sp_priority_fee_lamports rep)"
proof -
  from assms obtain used plan n sig vmsg where
    rep: "rep = make_report sig used plan n (unat (se_required_signatures env vmsg))"
    by (rule report_steps) (rule that)
  define k where "k = unat (se_required_signatures env vmsg)"
  have k: "k < 256" using unsigned_less [of "se_required_signatures env vmsg", where ?'a = nat] by (simp add: k_def)
  define b where "b = (5000 * of_nat k :: u64)"
  have base: "unat b = 5000 * k"
    using k by (simp add: b_def unat_word_ariths unsigned_of_nat take_bit_nat_eq_self)
  define p where "p = sat_mul (pl_cu_limit plan) (pl_cu_price plan) div (1000000 :: u64)"
  have p: "unat p = min (2 ^ 64 - 1) (unat (pl_cu_limit plan) * unat (pl_cu_price plan)) div 1000000"
    by (simp add: p_def unat_div unat_sat_mul)
  have "unat p \<le> (2 ^ 64 - 1) div 1000000" unfolding p by (intro div_le_mono) simp
  then have total: "unat (b + p) = 5000 * k + unat p"
    using k by (simp add: unat_word_ariths base)
  show ?thesis
    using k by (simp add: rep make_report_def Let_def base total p flip: k_def p_def b_def)
qed

text \<open>
  C25: With the basic fee oracle and a limit below \<open>2 ^ 32\<close>, the plan of a report has room for the
  units the simulation used plus 10000 plus 20 per cent of them, unless the oracle's limit is smaller; it never exceeds the
  oracle's limit and its price lies in the oracle's range (if that is a range). The fees are exact:
  5000 lamports per signature, limit times price in micro-lamports (saturated at \<open>2 ^ 64 - 1\<close>)
  rounded down, and a total that does not wrap.
\<close>

theorem send_report_plan:
  assumes "simulate_build_and_send_with_report env dry_run s = Some (Inr rep, s')"
    and "se_suggest env = (\<lambda>orc. Some (basic_suggest orc, orc))" and "se_clamp env = basic_clamp"
    and "unat (bo_max_cu_limit (ss_oracle s)) < 2 ^ 32"
  shows "min (unat (bo_max_cu_limit (ss_oracle s))) (unat (sp_used_cu rep) + 10000 + unat (sp_used_cu rep) * 20 div 100)
        \<le> unat (pl_cu_limit (sp_final_plan rep))
    \<and> pl_cu_limit (sp_final_plan rep) \<le> bo_max_cu_limit (ss_oracle s)
    \<and> (bo_min_cu_price (ss_oracle s) \<le> bo_max_cu_price (ss_oracle s)
        \<longrightarrow> pl_cu_price (sp_final_plan rep) \<in> {bo_min_cu_price (ss_oracle s)..bo_max_cu_price (ss_oracle s)})
    \<and> unat (sp_total_fee_lamports rep) = 5000 * sp_required_signers rep
        + min (2 ^ 64 - 1) (unat (pl_cu_limit (sp_final_plan rep)) * unat (pl_cu_price (sp_final_plan rep))) div 1000000"
proof -
  let ?o = "ss_oracle s"
  have plan: "min (unat (pl_cu_limit (basic_clamp ?o (basic_suggest ?o))))
        (unat (sp_used_cu rep) + 10000 + unat (sp_used_cu rep) * 20 div 100) \<le> unat (pl_cu_limit (sp_final_plan rep))
      \<and> pl_cu_limit (sp_final_plan rep) \<le> bo_max_cu_limit ?o \<and> pl_cu_price (sp_final_plan rep) \<le> bo_max_cu_price ?o
      \<and> basic_clamp ?o (sp_final_plan rep) = sp_final_plan rep"
    using basic_fee.report_plan [OF assms] by simp
  have "pl_cu_price (sp_final_plan rep) = min (max (pl_cu_price (sp_final_plan rep)) (bo_min_cu_price ?o)) (bo_max_cu_price ?o)"
    using plan by (metis basic_clamp_range range_clamp_price)
  then have "bo_min_cu_price ?o \<le> bo_max_cu_price ?o \<Longrightarrow> bo_min_cu_price ?o \<le> pl_cu_price (sp_final_plan rep)"
    by (metis max.cobounded2 min.bounded_iff)
  moreover have "pl_cu_limit (basic_clamp ?o (basic_suggest ?o)) = bo_max_cu_limit ?o"
    by (simp add: basic_clamp_range range_clamp_limit basic_suggest_def)
  ultimately show ?thesis using plan report_fees [OF assms(1)] by auto
qed

theorem send_report_plan_witness:
  "\<exists>rep s'. simulate_build_and_send_with_report sample_env False sample_sender = Some (Inr rep, s')
     \<and> pl_cu_limit (sp_final_plan rep) \<le> 1400000"
proof -
  obtain rep s' where run: "simulate_build_and_send_with_report sample_env False sample_sender = Some (Inr rep, s')"
    by (simp add: simulate_build_and_send_with_report_def sample_env_def sample_sender_def sender_new_def Let_def
        simulate_step_def send_step_def tighten_plan_def)
  have "unat (bo_max_cu_limit (ss_oracle sample_sender)) < 2 ^ 32" "bo_max_cu_limit (ss_oracle sample_sender) = 1400000"
    by (simp_all add: sample_sender_def sender_new_def basic_fee_oracle_default_def)
  with send_report_plan [OF run] run show ?thesis by (auto simp: sample_env_def)
qed
end
