(* ===== verification/Blockhash.thy ===== *)
theory Blockhash
  imports Metrics Intents
begin

text \<open>
  The blockhash manager of bundler/src/pipeline/blockhash.rs and the account collection of
  bundler/src/er/bhfa.rs.

  \<open>BlockhashManager::lease\<close> is asynchronous and shared by many tasks. Each of its sections that runs
  under the lock, or around one RPC call, is one function on the manager; \<open>task_step\<close> puts them in
  the order of the loop, and \<open>bh_step\<close> interleaves the steps of any number of tasks with
  \<open>record_outcome\<close> and \<open>mark_layer_boundary\<close>. The answers of the RPC client and the readings of the
  clock are inputs of the steps. The mutexes are taken to be available; sleeping is a step that
  changes nothing.
\<close>

section \<open>Data\<close>

datatype refresh_reason = InitialRefresh | ManualRefresh | AgeExceeded | Quota | LayerBoundary | ValidationFailed

record blockhash_lease =
  bl_hash :: hash32
  bl_last_valid_block_height :: u64
  bl_fetched_at :: nat
  bl_refresh_reason :: refresh_reason

datatype lease_outcome = LeaseSuccess | StaleDetected

record blockhash_policy =
  bp_max_age :: nat
  bp_refresh_every :: u32

definition blockhash_policy_default :: blockhash_policy where
  "blockhash_policy_default = \<lparr>bp_max_age = 8000, bp_refresh_every = 16\<rparr>"

record blockhash_metrics =
  bx_refresh_initial :: u64
  bx_refresh_manual :: u64
  bx_refresh_age :: u64
  bx_refresh_quota :: u64
  bx_refresh_layer :: u64
  bx_refresh_validation :: u64
  bx_leases_issued :: u64
  bx_stale_detected :: u64

definition blockhash_metrics_default :: blockhash_metrics where
  "blockhash_metrics_default =
     \<lparr>bx_refresh_initial = 0, bx_refresh_manual = 0, bx_refresh_age = 0, bx_refresh_quota = 0, bx_refresh_layer = 0,
      bx_refresh_validation = 0, bx_leases_issued = 0, bx_stale_detected = 0\<rparr>"

record blockhash_state =
  bs_lease :: blockhash_lease
  bs_uses_since_refresh :: u32

record blockhash_inner =
  bi_current :: "blockhash_state option"
  bi_pending_refresh :: "refresh_reason option"

record blockhash_manager =
  bm_policy :: blockhash_policy
  bm_pre_check :: bool
  bm_state :: blockhash_inner
  bm_metrics :: blockhash_metrics
  bm_refresh_in_flight :: bool
  bm_rpc_metrics :: rpc_metrics

definition blockhash_manager_new :: "blockhash_policy \<Rightarrow> bool \<Rightarrow> rpc_metrics \<Rightarrow> blockhash_manager" where
  "blockhash_manager_new policy pre_check rpc_metrics =
     \<lparr>bm_policy = (if bp_refresh_every policy = 0 then policy\<lparr>bp_refresh_every := 1\<rparr> else policy),
      bm_pre_check = pre_check,
      bm_state = \<lparr>bi_current = None, bi_pending_refresh = Some InitialRefresh\<rparr>,
      bm_metrics = blockhash_metrics_default, bm_refresh_in_flight = False, bm_rpc_metrics = rpc_metrics\<rparr>"

section \<open>The sections of \<open>lease\<close>\<close>

definition check_policy :: "blockhash_policy \<Rightarrow> nat \<Rightarrow> blockhash_state \<Rightarrow> refresh_reason option" where
  "check_policy policy now state =
     (if bp_max_age policy > 0 \<and> now - bl_fetched_at (bs_lease state) > bp_max_age policy then Some AgeExceeded
      else if bs_uses_since_refresh state \<ge> bp_refresh_every policy then Some Quota
      else None)"

definition bump_refresh_metric :: "refresh_reason \<Rightarrow> blockhash_metrics \<Rightarrow> blockhash_metrics" where
  "bump_refresh_metric reason m =
     (case reason of
        InitialRefresh \<Rightarrow> m\<lparr>bx_refresh_initial := bx_refresh_initial m + 1\<rparr>
      | ManualRefresh \<Rightarrow> m\<lparr>bx_refresh_manual := bx_refresh_manual m + 1\<rparr>
      | AgeExceeded \<Rightarrow> m\<lparr>bx_refresh_age := bx_refresh_age m + 1\<rparr>
      | Quota \<Rightarrow> m\<lparr>bx_refresh_quota := bx_refresh_quota m + 1\<rparr>
      | LayerBoundary \<Rightarrow> m\<lparr>bx_refresh_layer := bx_refresh_layer m + 1\<rparr>
      | ValidationFailed \<Rightarrow> m\<lparr>bx_refresh_validation := bx_refresh_validation m + 1\<rparr>)"

text \<open>The first section takes the pending reason, which clears it.\<close>

definition need_refresh :: "nat \<Rightarrow> blockhash_manager \<Rightarrow> refresh_reason option \<times> blockhash_manager" where
  "need_refresh now self =
     (let inner = bm_state self
      in case bi_pending_refresh inner of
           Some reason \<Rightarrow> (Some reason, self\<lparr>bm_state := inner\<lparr>bi_pending_refresh := None\<rparr>\<rparr>)
         | None \<Rightarrow>
             (case bi_current inner of
                Some state \<Rightarrow> (check_policy (bm_policy self) now state, self)
              | None \<Rightarrow> (Some InitialRefresh, self)))"

text \<open>\<open>compare_exchange(false, true)\<close>.\<close>

definition claim_refresh :: "blockhash_manager \<Rightarrow> bool \<times> blockhash_manager" where
  "claim_refresh self =
     (if bm_refresh_in_flight self then (False, self) else (True, self\<lparr>bm_refresh_in_flight := True\<rparr>))"

text \<open>\<open>fetch_lease\<close>: the call is counted and the clock read before the RPC client answers.\<close>

definition fetch_begin :: "blockhash_manager \<Rightarrow> blockhash_manager" where
  "fetch_begin self = self\<lparr>bm_rpc_metrics := track_get_latest_blockhash (bm_rpc_metrics self)\<rparr>"

definition fetch_lease :: "refresh_reason \<Rightarrow> nat \<Rightarrow> string + (hash32 \<times> u64) \<Rightarrow> string + blockhash_lease" where
  "fetch_lease reason now answer =
     (case answer of
        Inl e \<Rightarrow> Inl (''getLatestBlockhash: '' @ e)
      | Inr (hash, height) \<Rightarrow>
          Inr \<lparr>bl_hash = hash, bl_last_valid_block_height = height, bl_fetched_at = now, bl_refresh_reason = reason\<rparr>)"

definition install_lease :: "refresh_reason \<Rightarrow> blockhash_lease \<Rightarrow> blockhash_manager \<Rightarrow> blockhash_manager" where
  "install_lease reason lease self =
     self\<lparr>bm_metrics := bump_refresh_metric reason (bm_metrics self),
          bm_state := \<lparr>bi_current = Some \<lparr>bs_lease = lease, bs_uses_since_refresh = 0\<rparr>, bi_pending_refresh = None\<rparr>\<rparr>"

definition release_refresh :: "blockhash_manager \<Rightarrow> blockhash_manager" where
  "release_refresh self = self\<lparr>bm_refresh_in_flight := False\<rparr>"

text \<open>The lease to issue, and whether it must be checked first.\<close>

definition issue_lease :: "nat \<Rightarrow> blockhash_manager \<Rightarrow> (blockhash_lease \<times> bool) \<times> blockhash_manager" where
  "issue_lease now self =
     (let inner = bm_state self
      in case bi_current inner of
           None \<Rightarrow>
             ((\<lparr>bl_hash = 0, bl_last_valid_block_height = 0, bl_fetched_at = now, bl_refresh_reason = InitialRefresh\<rparr>, False),
              self\<lparr>bm_state := inner\<lparr>bi_pending_refresh := Some InitialRefresh\<rparr>\<rparr>)
         | Some state \<Rightarrow>
             (let state = state\<lparr>bs_uses_since_refresh := sat_add (bs_uses_since_refresh state) 1\<rparr>
              in ((bs_lease state, bm_pre_check self \<and> bs_uses_since_refresh state > 1),
                  self\<lparr>bm_state := inner\<lparr>bi_current := Some state\<rparr>\<rparr>)))"

definition count_issued :: "blockhash_manager \<Rightarrow> blockhash_manager" where
  "count_issued self = self\<lparr>bm_metrics := (bm_metrics self)\<lparr>bx_leases_issued := bx_leases_issued (bm_metrics self) + 1\<rparr>\<rparr>"

definition check_begin :: "blockhash_manager \<Rightarrow> blockhash_manager" where
  "check_begin self = self\<lparr>bm_rpc_metrics := track_is_blockhash_valid (bm_rpc_metrics self)\<rparr>"

definition invalidate :: "blockhash_manager \<Rightarrow> blockhash_manager" where
  "invalidate self = self\<lparr>bm_state := \<lparr>bi_current = None, bi_pending_refresh = Some ValidationFailed\<rparr>\<rparr>"

section \<open>The other operations\<close>

definition record_outcome :: "lease_outcome \<Rightarrow> blockhash_manager \<Rightarrow> blockhash_manager" where
  "record_outcome outcome self =
     (if outcome = StaleDetected
      then self\<lparr>bm_metrics := (bm_metrics self)\<lparr>bx_stale_detected := bx_stale_detected (bm_metrics self) + 1\<rparr>,
                bm_state := \<lparr>bi_current = None, bi_pending_refresh = Some ManualRefresh\<rparr>\<rparr>
      else self)"

definition mark_layer_boundary :: "blockhash_manager \<Rightarrow> blockhash_manager" where
  "mark_layer_boundary self = self\<lparr>bm_state := (bm_state self)\<lparr>bi_pending_refresh := Some LayerBoundary\<rparr>\<rparr>"

section \<open>One task\<close>

text \<open>Where a call of \<open>lease\<close> stands; the last two are its results.\<close>

datatype lease_pc =
    AtHead
  | Claiming refresh_reason
  | Fetching refresh_reason nat
  | Releasing
  | Napping
  | Issuing
  | Granting blockhash_lease bool
  | Checking blockhash_lease
  | Invalidated
  | Leased blockhash_lease
  | LeaseFailed string

text \<open>What the outside world supplies to a step: the clock, and the answers of the two RPC calls.\<close>

record rpc_input =
  ri_now :: nat
  ri_latest_blockhash :: "string + (hash32 \<times> u64)"
  ri_is_valid :: "string + bool"

fun task_step :: "rpc_input \<Rightarrow> lease_pc \<Rightarrow> blockhash_manager \<Rightarrow> lease_pc \<times> blockhash_manager" where
  "task_step inp AtHead self =
     (case need_refresh (ri_now inp) self of
        (Some reason, self) \<Rightarrow> (Claiming reason, self)
      | (None, self) \<Rightarrow> (Issuing, self))"
| "task_step inp (Claiming reason) self =
     (case claim_refresh self of
        (True, self) \<Rightarrow> (Fetching reason (ri_now inp), fetch_begin self)
      | (False, self) \<Rightarrow> (Napping, self))"
| "task_step inp (Fetching reason now) self =
     (case fetch_lease reason now (ri_latest_blockhash inp) of
        Inl e \<Rightarrow> (LeaseFailed e, release_refresh self)
      | Inr lease \<Rightarrow> (Releasing, install_lease reason lease self))"
| "task_step inp Releasing self = (AtHead, release_refresh self)"
| "task_step inp Napping self = (AtHead, self)"
| "task_step inp Issuing self =
     (case issue_lease (ri_now inp) self of ((lease, needs_check), self) \<Rightarrow> (Granting lease needs_check, self))"
| "task_step inp (Granting lease needs_check) self =
     (if needs_check then (Checking lease, check_begin self) else (Leased lease, count_issued self))"
| "task_step inp (Checking lease) self =
     (case ri_is_valid inp of
        Inr True \<Rightarrow> (Leased lease, count_issued self)
      | Inr False \<Rightarrow> (Invalidated, self)
      | Inl err \<Rightarrow> (LeaseFailed (''isBlockhashValid: '' @ err), self))"
| "task_step inp Invalidated self = (AtHead, invalidate self)"
| "task_step inp (Leased lease) self = (Leased lease, self)"
| "task_step inp (LeaseFailed e) self = (LeaseFailed e, self)"

fun lease_run :: "rpc_input list \<Rightarrow> lease_pc \<Rightarrow> blockhash_manager \<Rightarrow> lease_pc \<times> blockhash_manager" where
  "lease_run [] pc self = (pc, self)"
| "lease_run (inp # inps) pc self = (case task_step inp pc self of (pc, self) \<Rightarrow> lease_run inps pc self)"

definition finished :: "lease_pc \<Rightarrow> bool" where
  "finished pc \<longleftrightarrow> (\<exists>l. pc = Leased l) \<or> (\<exists>e. pc = LeaseFailed e)"

section \<open>The accounts a blockhash is asked for\<close>

definition collect_writables_or_payer :: "user_intent list \<Rightarrow> pubkey \<Rightarrow> pubkey list" where
  "collect_writables_or_payer intents payer =
     (let accounts = concat (map (\<lambda>u. map meta_pubkey (filter meta_is_writable (ix_accounts (ui_ix u)))) intents)
      in if accounts = [] then [payer] else accounts)"

section \<open>Interleaving\<close>

text \<open>
  A system: the manager, the calls in progress, the clock. \<open>good\<close> is any property of the hashes the
  RPC client answers with.
\<close>

record bh_sys =
  bh_manager :: blockhash_manager
  bh_tasks :: "nat \<rightharpoonup> lease_pc"
  bh_clock :: nat

definition good_answer :: "(hash32 \<Rightarrow> bool) \<Rightarrow> rpc_input \<Rightarrow> bool" where
  "good_answer good inp = (case ri_latest_blockhash inp of Inl _ \<Rightarrow> True | Inr (h, _) \<Rightarrow> good h)"

inductive bh_step :: "(hash32 \<Rightarrow> bool) \<Rightarrow> bh_sys \<Rightarrow> bh_sys \<Rightarrow> bool" for good where
  call: "bh_tasks s i = None \<Longrightarrow> bh_step good s (s\<lparr>bh_tasks := (bh_tasks s)(i \<mapsto> AtHead)\<rparr>)"
| work: "bh_tasks s i = Some pc \<Longrightarrow> bh_clock s \<le> ri_now inp \<Longrightarrow> good_answer good inp \<Longrightarrow>
     task_step inp pc (bh_manager s) = (pc', m) \<Longrightarrow>
     bh_step good s (s\<lparr>bh_manager := m, bh_tasks := (bh_tasks s)(i \<mapsto> pc'), bh_clock := ri_now inp\<rparr>)"
| drop_result: "bh_tasks s i = Some pc \<Longrightarrow> finished pc \<Longrightarrow> bh_step good s (s\<lparr>bh_tasks := (bh_tasks s)(i := None)\<rparr>)"
| outcome: "bh_step good s (s\<lparr>bh_manager := record_outcome out (bh_manager s)\<rparr>)"
| boundary: "bh_step good s (s\<lparr>bh_manager := mark_layer_boundary (bh_manager s)\<rparr>)"

definition bh_init :: "blockhash_policy \<Rightarrow> bool \<Rightarrow> bh_sys" where
  "bh_init policy pre_check =
     \<lparr>bh_manager = blockhash_manager_new policy pre_check rpc_metrics_zero, bh_tasks = Map.empty, bh_clock = 0\<rparr>"

inductive bh_reachable :: "(hash32 \<Rightarrow> bool) \<Rightarrow> blockhash_policy \<Rightarrow> bool \<Rightarrow> bh_sys \<Rightarrow> bool" for good policy pre_check where
  init: "bh_reachable good policy pre_check (bh_init policy pre_check)"
| step: "bh_reachable good policy pre_check s \<Longrightarrow> bh_step good s t \<Longrightarrow> bh_reachable good policy pre_check t"

section \<open>Invariant\<close>

fun refreshing :: "lease_pc \<Rightarrow> bool" where
  "refreshing (Fetching _ _) = True"
| "refreshing Releasing = True"
| "refreshing _ = False"

fun pc_ok :: "(hash32 \<Rightarrow> bool) \<Rightarrow> lease_pc \<Rightarrow> bool" where
  "pc_ok good (Granting l needs_check) = (good (bl_hash l) \<or> (bl_hash l = 0 \<and> \<not> needs_check))"
| "pc_ok good (Checking l) = good (bl_hash l)"
| "pc_ok good (Leased l) = (good (bl_hash l) \<or> bl_hash l = 0)"
| "pc_ok good _ = True"

definition mgr_ok :: "(hash32 \<Rightarrow> bool) \<Rightarrow> blockhash_manager \<Rightarrow> bool" where
  "mgr_ok good m \<longleftrightarrow>
     bp_refresh_every (bm_policy m) \<noteq> 0
     \<and> (\<forall>st. bi_current (bm_state m) = Some st \<longrightarrow> good (bl_hash (bs_lease st)))"

text \<open>The tasks that hold the refresh flag: one if it is set, none if it is clear.\<close>

definition refreshers :: "(nat \<rightharpoonup> lease_pc) \<Rightarrow> nat set" where
  "refreshers tasks = {i. \<exists>p. tasks i = Some p \<and> refreshing p}"

definition single_flight :: "bool \<Rightarrow> (nat \<rightharpoonup> lease_pc) \<Rightarrow> bool" where
  "single_flight flag tasks \<longleftrightarrow> (if flag then \<exists>i. refreshers tasks = {i} else refreshers tasks = {})"

definition bh_inv :: "(hash32 \<Rightarrow> bool) \<Rightarrow> bh_sys \<Rightarrow> bool" where
  "bh_inv good s \<longleftrightarrow>
     mgr_ok good (bh_manager s) \<and> single_flight (bm_refresh_in_flight (bh_manager s)) (bh_tasks s) \<and> (\<forall>i p. bh_tasks s i = Some p \<longrightarrow> pc_ok good p)"

lemmas section_defs =
  need_refresh_def claim_refresh_def fetch_begin_def fetch_lease_def install_lease_def release_refresh_def
  issue_lease_def count_issued_def check_begin_def invalidate_def

lemma task_step_ok:
  assumes "task_step inp pc m = (pc', m')" and "mgr_ok good m" and "pc_ok good pc" and "good_answer good inp"
  shows "mgr_ok good m' \<and> pc_ok good pc'"
  using assms
  by (cases pc) (auto simp: section_defs mgr_ok_def good_answer_def Let_def split: option.splits sum.splits if_splits bool.splits)

lemma refreshers_upd:
  "refreshers (tasks(i \<mapsto> p)) = (if refreshing p then insert i (refreshers tasks) else refreshers tasks - {i})"
  by (auto simp: refreshers_def)

lemma refreshers_remove: "refreshers (tasks(i := None)) = refreshers tasks - {i}"
  by (auto simp: refreshers_def)

lemma refreshers_mem: "tasks i = Some p \<Longrightarrow> i \<in> refreshers tasks \<longleftrightarrow> refreshing p"
  by (simp add: refreshers_def)

text \<open>A step starts or ends a refresh exactly as it sets or clears the flag.\<close>

lemma task_step_flight:
  assumes "task_step inp pc m = (pc', m')"
  shows "(refreshing pc \<and> \<not> refreshing pc' \<and> \<not> bm_refresh_in_flight m')
     \<or> (\<not> refreshing pc \<and> refreshing pc' \<and> \<not> bm_refresh_in_flight m \<and> bm_refresh_in_flight m')
     \<or> (refreshing pc = refreshing pc' \<and> bm_refresh_in_flight m' = bm_refresh_in_flight m)"
  using assms
  by (cases pc) (auto simp: section_defs Let_def split: option.splits sum.splits if_splits bool.splits)

lemma task_step_single_flight:
  assumes "task_step inp pc m = (pc', m')" and "single_flight (bm_refresh_in_flight m) tasks" and "tasks i = Some pc"
  shows "single_flight (bm_refresh_in_flight m') (tasks(i \<mapsto> pc'))"
  using task_step_flight [OF assms(1)] assms(2) refreshers_mem [of tasks i pc, OF assms(3)]
  by (auto simp: single_flight_def refreshers_upd split: if_splits)

lemma other_operations_ok [simp]:
  "mgr_ok good m \<Longrightarrow> mgr_ok good (record_outcome out m)" "mgr_ok good m \<Longrightarrow> mgr_ok good (mark_layer_boundary m)"
  "bm_refresh_in_flight (record_outcome out m) = bm_refresh_in_flight m"
  "bm_refresh_in_flight (mark_layer_boundary m) = bm_refresh_in_flight m"
  by (simp_all add: mgr_ok_def record_outcome_def mark_layer_boundary_def)

lemma finished_not_refreshing: "finished pc \<Longrightarrow> \<not> refreshing pc"
  by (auto simp: finished_def)

lemma bh_step_inv: "bh_step good s t \<Longrightarrow> bh_inv good s \<Longrightarrow> bh_inv good t"
proof (induction rule: bh_step.induct)
  case (call s i)
  then have "i \<notin> refreshers (bh_tasks s)" by (simp add: refreshers_def)
  with call show ?case by (auto simp: bh_inv_def single_flight_def refreshers_upd)
next
  case (work s i pc inp pc' m)
  then have "mgr_ok good m \<and> pc_ok good pc'" using task_step_ok [of inp pc "bh_manager s" pc' m good]
    by (auto simp: bh_inv_def)
  with work show ?case by (auto simp: bh_inv_def intro: task_step_single_flight)
next
  case (drop_result s i pc)
  then have "i \<notin> refreshers (bh_tasks s)" by (simp add: refreshers_mem finished_not_refreshing)
  with drop_result show ?case by (auto simp: bh_inv_def single_flight_def refreshers_remove)
qed (simp_all add: bh_inv_def)

lemma bh_inv_init: "bh_inv good (bh_init policy pre_check)"
  by (simp add: bh_inv_def bh_init_def mgr_ok_def blockhash_manager_new_def single_flight_def refreshers_def)

lemma reachable_bh_inv: "bh_reachable good policy pre_check s \<Longrightarrow> bh_inv good s"
  by (induction rule: bh_reachable.induct) (auto intro: bh_inv_init bh_step_inv)

text \<open>
  C27: However tasks interleave, at most one of them fetches a blockhash at a time (this is what
  \<open>refresh_in_flight\<close> is for), and the flag is set exactly while one does. Every hash that is held, checked
  or handed out was answered by the RPC client, except for the default hash 0 of the defensive branch.
\<close>

theorem blockhash_single_flight:
  assumes "bh_reachable good policy pre_check s"
  shows "(\<forall>i j p q. bh_tasks s i = Some p \<and> bh_tasks s j = Some q \<and> refreshing p \<and> refreshing q \<longrightarrow> i = j)
    \<and> (bm_refresh_in_flight (bh_manager s) \<longleftrightarrow> (\<exists>i p. bh_tasks s i = Some p \<and> refreshing p))
    \<and> (\<forall>st. bi_current (bm_state (bh_manager s)) = Some st \<longrightarrow> good (bl_hash (bs_lease st)))
    \<and> (\<forall>i l. bh_tasks s i = Some (Checking l) \<longrightarrow> good (bl_hash l))
    \<and> (\<forall>i l. bh_tasks s i = Some (Leased l) \<longrightarrow> good (bl_hash l) \<or> bl_hash l = 0)"
proof -
  have inv: "bh_inv good s" using assms by (rule reachable_bh_inv)
  have mem: "(\<exists>p. bh_tasks s i = Some p \<and> refreshing p) \<longleftrightarrow> i \<in> refreshers (bh_tasks s)" for i
    by (auto simp: refreshers_def)
  have flight: "single_flight (bm_refresh_in_flight (bh_manager s)) (bh_tasks s)" using inv by (simp add: bh_inv_def)
  have "i = j" if "i \<in> refreshers (bh_tasks s)" "j \<in> refreshers (bh_tasks s)" for i j
    using flight that by (auto simp: single_flight_def split: if_splits)
  moreover have "bm_refresh_in_flight (bh_manager s) \<longleftrightarrow> (\<exists>i. i \<in> refreshers (bh_tasks s))"
    using flight by (auto simp: single_flight_def split: if_splits)
  ultimately show ?thesis
    using inv unfolding mem [symmetric] by (fastforce simp: bh_inv_def mgr_ok_def)
qed


section \<open>Running a schedule\<close>

text \<open>The interleaving as an executable function of a list of events; \<open>None\<close> if an event is not enabled.\<close>

datatype bh_event = Call nat | Work nat rpc_input | DropResult nat | Outcome lease_outcome | Boundary

fun bh_apply :: "bh_event \<Rightarrow> bh_sys \<Rightarrow> bh_sys option" where
  "bh_apply (Call i) s = (if bh_tasks s i = None then Some (s\<lparr>bh_tasks := (bh_tasks s)(i \<mapsto> AtHead)\<rparr>) else None)"
| "bh_apply (Work i inp) s =
     (case bh_tasks s i of
        None \<Rightarrow> None
      | Some pc \<Rightarrow>
          if bh_clock s \<le> ri_now inp
          then (case task_step inp pc (bh_manager s) of
                  (pc', m) \<Rightarrow> Some (s\<lparr>bh_manager := m, bh_tasks := (bh_tasks s)(i \<mapsto> pc'), bh_clock := ri_now inp\<rparr>))
          else None)"
| "bh_apply (DropResult i) s =
     (case bh_tasks s i of
        Some (Leased l) \<Rightarrow> Some (s\<lparr>bh_tasks := (bh_tasks s)(i := None)\<rparr>)
      | Some (LeaseFailed e) \<Rightarrow> Some (s\<lparr>bh_tasks := (bh_tasks s)(i := None)\<rparr>)
      | _ \<Rightarrow> None)"
| "bh_apply (Outcome out) s = Some (s\<lparr>bh_manager := record_outcome out (bh_manager s)\<rparr>)"
| "bh_apply Boundary s = Some (s\<lparr>bh_manager := mark_layer_boundary (bh_manager s)\<rparr>)"

fun bh_play :: "bh_event list \<Rightarrow> bh_sys \<Rightarrow> bh_sys option" where
  "bh_play [] s = Some s"
| "bh_play (e # es) s = (case bh_apply e s of None \<Rightarrow> None | Some t \<Rightarrow> bh_play es t)"

definition event_good :: "(hash32 \<Rightarrow> bool) \<Rightarrow> bh_event \<Rightarrow> bool" where
  "event_good good e = (case e of Work i inp \<Rightarrow> good_answer good inp | _ \<Rightarrow> True)"

lemma bh_apply_step: "bh_apply e s = Some t \<Longrightarrow> event_good good e \<Longrightarrow> bh_step good s t"
  by (induction e s rule: bh_apply.induct)
    (auto simp: event_good_def finished_def split: if_splits option.splits prod.splits lease_pc.splits intro: bh_step.intros)

lemma bh_play_reachable:
  "bh_play es s = Some t \<Longrightarrow> list_all (event_good good) es \<Longrightarrow> bh_reachable good policy pre_check s
   \<Longrightarrow> bh_reachable good policy pre_check t"
proof (induction es arbitrary: s)
  case Nil
  then show ?case by simp
next
  case (Cons e es)
  then obtain u where "bh_apply e s = Some u" "bh_play es u = Some t" by (auto split: option.splits)
  moreover from this Cons.prems have "bh_reachable good policy pre_check u"
    by (auto intro: bh_reachable.step bh_apply_step)
  ultimately show ?case using Cons.prems by (auto intro: Cons.IH [of u])
qed

text \<open>
  A schedule of two tasks. The first fetches the hash 7 and finds that nothing has to be refreshed; the
  second reports an earlier lease as stale before the first takes its lease.
\<close>

definition answer_7 :: rpc_input where
  "answer_7 = \<lparr>ri_now = 5, ri_latest_blockhash = Inr (7, 100), ri_is_valid = Inr True\<rparr>"

definition race_schedule :: "bh_event list" where
  "race_schedule =
     [Call 0, Work 0 answer_7, Work 0 answer_7, Work 0 answer_7, Work 0 answer_7, Work 0 answer_7,
      Outcome StaleDetected, Work 0 answer_7, Work 0 answer_7]"

definition race_end :: bh_sys where
  "race_end = the (bh_play race_schedule (bh_init blockhash_policy_default True))"

lemma race_reachable: "bh_reachable (\<lambda>h. h = 7) blockhash_policy_default True race_end"
proof -
  have "bh_play race_schedule (bh_init blockhash_policy_default True) = Some race_end"
    by (simp add: race_end_def race_schedule_def  bh_init_def blockhash_manager_new_def
        blockhash_policy_default_def section_defs answer_7_def check_policy_def Let_def record_outcome_def)
  moreover have "list_all (event_good (\<lambda>h. h = 7)) race_schedule"
    by (simp add: race_schedule_def event_good_def good_answer_def answer_7_def)
  ultimately show ?thesis by (rule bh_play_reachable) (rule bh_reachable.init)
qed

theorem blockhash_single_flight_witness:
  "bm_refresh_in_flight (bh_manager race_end) = (\<exists>i p. bh_tasks race_end i = Some p \<and> refreshing p)"
  using blockhash_single_flight [OF race_reachable] by blast

text \<open>
  C28: The defensive branch of \<open>lease\<close> can be reached: between the section that finds nothing to refresh and
  the section that takes the lease, another task may report a stale lease, which clears the current
  one. The call then returns the default lease (hash 0, block height 0) as a success, although the
  RPC client only ever answered with the hash 7, and counts it as issued; nothing is pre-checked.
\<close>

theorem blockhash_default_lease_reachable:
  "bh_reachable (\<lambda>h. h = 7) blockhash_policy_default True race_end
   \<and> (\<exists>l. bh_tasks race_end 0 = Some (Leased l) \<and> bl_hash l = 0 \<and> bl_last_valid_block_height l = 0)
   \<and> bx_leases_issued (bm_metrics (bh_manager race_end)) = 1
   \<and> rm_is_blockhash_valid (bm_rpc_metrics (bh_manager race_end)) = 0"
proof -
  have run: "bh_tasks race_end 0 = Some (Leased \<lparr>bl_hash = 0, bl_last_valid_block_height = 0, bl_fetched_at = 5,
        bl_refresh_reason = InitialRefresh\<rparr>)
      \<and> bx_leases_issued (bm_metrics (bh_manager race_end)) = 1
      \<and> rm_is_blockhash_valid (bm_rpc_metrics (bh_manager race_end)) = 0"
    by (simp add: race_end_def race_schedule_def  bh_init_def blockhash_manager_new_def
        blockhash_policy_default_def section_defs answer_7_def check_policy_def Let_def record_outcome_def
        bump_refresh_metric_def blockhash_metrics_default_def rpc_metrics_zero_def track_get_latest_blockhash_def)
  with race_reachable show ?thesis by auto
qed

section \<open>A call that runs alone\<close>

lemma lease_run_append: "lease_run (xs @ ys) pc m = (case lease_run xs pc m of (pc, m) \<Rightarrow> lease_run ys pc m)"
  by (induction xs arbitrary: pc m) (auto split: prod.split)

lemma lease_run_finished: "finished pc \<Longrightarrow> lease_run inps pc m = (pc, m)"
  by (induction inps) (auto simp: finished_def)

text \<open>What a finished call guarantees when no other task moves.\<close>

definition lease_result :: "blockhash_manager \<Rightarrow> rpc_input list \<Rightarrow> lease_pc \<Rightarrow> blockhash_manager \<Rightarrow> bool" where
  "lease_result m0 inps pc m \<longleftrightarrow>
     finished pc \<and> bm_refresh_in_flight m = False \<and> bm_policy m = bm_policy m0
     \<and> (\<forall>l. pc = Leased l \<longrightarrow>
          (\<exists>st. bi_current (bm_state m) = Some st \<and> bs_lease st = l \<and> bi_pending_refresh (bm_state m) = None
             \<and> bs_uses_since_refresh st \<le> bp_refresh_every (bm_policy m)
             \<and> ((\<exists>inp\<in>set inps. ri_latest_blockhash inp = Inr (bl_hash l, bl_last_valid_block_height l))
                \<or> ((\<exists>st0. bi_current (bm_state m0) = Some st0 \<and> bs_lease st0 = l
                        \<and> check_policy (bm_policy m0) (ri_now (hd inps)) st0 = None)
                   \<and> (bm_pre_check m0 \<and> bs_uses_since_refresh st \<noteq> 1 \<longrightarrow> (\<exists>inp\<in>set inps. ri_is_valid inp = Inr True))))))"

definition fresh_lease :: "rpc_input list \<Rightarrow> blockhash_manager \<Rightarrow> bool" where
  "fresh_lease inps m \<longleftrightarrow>
     \<not> bm_refresh_in_flight m \<and> bi_pending_refresh (bm_state m) = None
     \<and> (\<exists>st inp. bi_current (bm_state m) = Some st \<and> bs_uses_since_refresh st = 0 \<and> inp \<in> set inps
          \<and> bl_fetched_at (bs_lease st) = ri_now inp
          \<and> (\<exists>inp'\<in>set inps. ri_latest_blockhash inp' = Inr (bl_hash (bs_lease st), bl_last_valid_block_height (bs_lease st))))"

lemma refresh_phase:
  assumes "\<not> bm_refresh_in_flight m" and "set [i1, i2, i3] \<subseteq> set inps"
  shows "\<exists>pc m'. lease_run [i1, i2, i3] (Claiming reason) m = (pc, m') \<and> bm_policy m' = bm_policy m \<and> bm_pre_check m' = bm_pre_check m
     \<and> ((\<exists>e. pc = LeaseFailed e \<and> \<not> bm_refresh_in_flight m') \<or> (pc = AtHead \<and> fresh_lease inps m'))"
proof (cases "ri_latest_blockhash i2")
  case (Inl e)
  then show ?thesis using assms by (simp add: section_defs)
next
  case (Inr a)
  then show ?thesis using assms
    by (cases a) (auto simp: section_defs fresh_lease_def intro!: bexI [of _ i2] exI [of _ i1])
qed

lemma grant_phase:
  assumes "fresh_lease inps m" and "bp_refresh_every (bm_policy m) \<noteq> 0"
    and "\<And>inp. inp \<in> set inps \<Longrightarrow> bp_max_age (bm_policy m) > 0 \<Longrightarrow> ri_now i1 - ri_now inp \<le> bp_max_age (bm_policy m)"
    and "bm_policy m = bm_policy m0"
  shows "\<exists>pc m'. lease_run [i1, i2, i3] AtHead m = (pc, m') \<and> lease_result m0 inps pc m'"
proof -
  obtain st inp where m: "\<not> bm_refresh_in_flight m" "bi_pending_refresh (bm_state m) = None"
    "bi_current (bm_state m) = Some st" "bs_uses_since_refresh st = 0" "inp \<in> set inps" "bl_fetched_at (bs_lease st) = ri_now inp"
    "\<exists>inp'\<in>set inps. ri_latest_blockhash inp' = Inr (bl_hash (bs_lease st), bl_last_valid_block_height (bs_lease st))"
    using assms(1) unfolding fresh_lease_def by blast
  have "check_policy (bm_policy m) (ri_now i1) st = None"
    using assms(2) assms(3) [OF m(5)] m(4,6) by (auto simp: check_policy_def)
  moreover have "1 \<le> bp_refresh_every (bm_policy m)" using assms(2) by (simp add: word_le_nat_alt unat_gt_0 Suc_leI)
  ultimately show ?thesis using m assms(4)
    by (simp add: section_defs Let_def lease_result_def finished_def sat_add_def)
qed

lemma lease_result_finished: "lease_result m0 inps pc m \<Longrightarrow> finished pc"
  by (simp add: lease_result_def)

lemma lease_run_cons: "task_step inp pc m = (pc', m') \<Longrightarrow> lease_run (inp # inps) pc m = lease_run inps pc' m'"
  by simp

lemma refresh_and_grant:
  assumes "\<not> bm_refresh_in_flight m" and "set [i1, i2, i3, i4, i5, i6] \<subseteq> set inps"
    and "bp_refresh_every (bm_policy m) \<noteq> 0" and "bm_policy m = bm_policy m0"
    and "\<And>inp inp'. inp \<in> set inps \<Longrightarrow> inp' \<in> set inps \<Longrightarrow> bp_max_age (bm_policy m) > 0 \<Longrightarrow>
      ri_now inp - ri_now inp' \<le> bp_max_age (bm_policy m)"
  shows "\<exists>pc m'. lease_run (i1 # i2 # i3 # i4 # i5 # i6 # rest) (Claiming reason) m = (pc, m') \<and> lease_result m0 inps pc m'"
proof -
  have split: "i1 # i2 # i3 # i4 # i5 # i6 # rest = [i1, i2, i3] @ [i4, i5, i6] @ rest" by simp
  obtain pc m' where r: "lease_run [i1, i2, i3] (Claiming reason) m = (pc, m')" "bm_policy m' = bm_policy m"
    and c: "(\<exists>e. pc = LeaseFailed e \<and> \<not> bm_refresh_in_flight m') \<or> (pc = AtHead \<and> fresh_lease inps m')"
    using refresh_phase [of m i1 i2 i3 inps reason] assms(1,2) by auto
  from c show ?thesis
  proof (elim disjE conjE exE)
    fix e assume e: "pc = LeaseFailed e" "\<not> bm_refresh_in_flight m'"
    then have "lease_result m0 inps pc m'" using r assms(4) by (simp add: lease_result_def finished_def)
    then show ?thesis
      unfolding split lease_run_append r(1) prod.case using lease_run_finished [of pc] e(1) by (simp add: finished_def)
  next
    assume f: "pc = AtHead" "fresh_lease inps m'"
    obtain pc' m'' where g: "lease_run [i4, i5, i6] AtHead m' = (pc', m'')" "lease_result m0 inps pc' m''"
      using grant_phase [of inps m' i4 m0 i5 i6] f(2) r(2) assms by auto
    then show ?thesis
      unfolding split lease_run_append r(1) prod.case f(1) g(1) using lease_run_finished [OF lease_result_finished [OF g(2)]] g(2) by simp
  qed
qed

text \<open>
  A call that runs alone ends after at most twelve sections, whatever the RPC client answers, if its clock
  readings lie within the maximal age of each other: it fails or returns the lease that is then
  current, never the placeholder. The lease was fetched by this very call, or it was current already, not too old and
  not used up, and if pre-checks are on and it had been used before, the RPC client has confirmed it
  during the call. The quota is never exceeded and the refresh flag is released on every path.
\<close>

theorem lease_alone_returns:
  assumes "length inps = 12" and "\<not> bm_refresh_in_flight m" and "bp_refresh_every (bm_policy m) \<noteq> 0"
    and "\<And>inp inp'. inp \<in> set inps \<Longrightarrow> inp' \<in> set inps \<Longrightarrow> bp_max_age (bm_policy m) > 0 \<Longrightarrow>
      ri_now inp - ri_now inp' \<le> bp_max_age (bm_policy m)"
  shows "\<exists>pc m'. lease_run inps AtHead m = (pc, m') \<and> lease_result m inps pc m'"
proof -
  obtain i1 i2 i3 i4 i5 i6 i7 i8 i9 i10 i11 i12 where
    inps: "inps = [i1, i2, i3, i4, i5, i6, i7, i8, i9, i10, i11, i12]"
    using assms(1) by (auto simp: numeral_eq_Suc length_Suc_conv)
  show ?thesis
  proof (cases "fst (need_refresh (ri_now i1) m)")
    case (Some reason)
    define m1 where "m1 = snd (need_refresh (ri_now i1) m)"
    have "need_refresh (ri_now i1) m = (Some reason, m1)" using Some by (simp add: m1_def prod_eq_iff)
    then have step: "task_step i1 AtHead m = (Claiming reason, m1)" by simp
    have "bm_policy m1 = bm_policy m" "\<not> bm_refresh_in_flight m1"
      using assms(2) by (auto simp: m1_def need_refresh_def Let_def split: option.split)
    then show ?thesis
      unfolding inps lease_run_cons [OF step]
      by (intro refresh_and_grant) (use assms in \<open>simp_all add: inps\<close>)
  next
    case None
    then obtain st where st: "bi_pending_refresh (bm_state m) = None" "bi_current (bm_state m) = Some st"
      "check_policy (bm_policy m) (ri_now i1) st = None"
      by (auto simp: need_refresh_def Let_def split: option.splits)
    have uses: "bs_uses_since_refresh st < bp_refresh_every (bm_policy m)"
      using st(3) by (auto simp: check_policy_def split: if_splits)
    then have small: "unat (bs_uses_since_refresh st) + 1 < 2 ^ 32"
      using unsigned_less [of "bp_refresh_every (bm_policy m)", where ?'a = nat] by (simp add: word_less_nat_alt)
    from small have add: "sat_add (bs_uses_since_refresh st) 1 = bs_uses_since_refresh st + 1"
      "bs_uses_since_refresh st + 1 \<le> bp_refresh_every (bm_policy m)"
      using uses by (simp_all add: sat_add_def word_less_nat_alt word_le_nat_alt unat_word_ariths)
    define m1 where "m1 = snd (issue_lease (ri_now i2) m)"
    have run: "lease_run inps AtHead m = lease_run [i3, i4, i5, i6, i7, i8, i9, i10, i11, i12]
        (Granting (bs_lease st) (bm_pre_check m \<and> bs_uses_since_refresh st + 1 > 1)) m1"
      using st add by (simp add: inps m1_def need_refresh_def issue_lease_def Let_def)
    have m1: "bi_current (bm_state m1) = Some (st\<lparr>bs_uses_since_refresh := bs_uses_since_refresh st + 1\<rparr>)"
      "bi_pending_refresh (bm_state m1) = None" "bm_policy m1 = bm_policy m" "\<not> bm_refresh_in_flight m1"
      using st assms(2) add by (simp_all add: m1_def issue_lease_def Let_def)
    have mem: "i4 \<in> set inps" "hd inps = i1" by (simp_all add: inps)
    have held: "lease_result m inps (Leased (bs_lease st)) (count_issued m')"
      if "bm_state m' = bm_state m1" "bm_policy m' = bm_policy m" "\<not> bm_refresh_in_flight m'"
        "bm_pre_check m \<and> bs_uses_since_refresh st + 1 \<noteq> 1 \<longrightarrow> (\<exists>inp\<in>set inps. ri_is_valid inp = Inr True)" for m'
      using that m1 st add mem by (simp add: lease_result_def finished_def count_issued_def)
    have pos: "bs_uses_since_refresh st + 1 > 1 \<longleftrightarrow> bs_uses_since_refresh st + 1 \<noteq> 1"
      using small by (simp add: word_less_nat_alt unat_word_ariths word_unat_eq_iff)
    show ?thesis
    proof (cases "bm_pre_check m \<and> bs_uses_since_refresh st + 1 > 1")
      case False
      then show ?thesis
        using held [of m1] m1 unfolding run by (auto simp: pos)
    next
      case True
      show ?thesis
      proof (cases "ri_is_valid i4 = Inr False")
        case False
        show ?thesis
        proof (cases "ri_is_valid i4")
          case (Inl e)
          then show ?thesis using True m1
            unfolding run by (simp add: lease_result_def finished_def check_begin_def)
        next
          case (Inr ok)
          with False have "ri_is_valid i4 = Inr True" by (cases ok) auto
          then show ?thesis using True m1 mem
            unfolding run by (auto simp: check_begin_def intro!: held)
        qed
      next
        case stale: True
        define m2 where "m2 = (invalidate (check_begin m1))\<lparr>bm_state := \<lparr>bi_current = None, bi_pending_refresh = None\<rparr>\<rparr>"
        have "lease_run inps AtHead m = lease_run [i7, i8, i9, i10, i11, i12] (Claiming ValidationFailed) m2"
          using True stale by (simp add: run m2_def invalidate_def check_begin_def need_refresh_def)
        moreover have "bm_policy m2 = bm_policy m" "\<not> bm_refresh_in_flight m2"
          using m1 by (simp_all add: m2_def invalidate_def check_begin_def)
        ultimately show ?thesis
          using refresh_and_grant [of m2 i7 i8 i9 i10 i11 i12 inps m "[]" ValidationFailed] assms by (simp add: inps)
      qed
    qed
  qed
qed

text \<open>
  A demanded refresh is forgotten when its fetch fails. The reason is taken out of the pending slot before
  the fetch and never put back: after \<open>mark_layer_boundary\<close> and a call that fails, the next call (here
  with the same clock reading) hands out the old lease without asking the RPC client for a hash.
\<close>

theorem failed_refresh_forgotten:
  assumes "\<not> bm_refresh_in_flight m" and "bi_current (bm_state m) = Some st"
    and "check_policy (bm_policy m) (ri_now inp) st = None" and "ri_latest_blockhash inp = Inl e"
    and "bm_pre_check m = False"
  shows "\<exists>m1 m2. lease_run (replicate 3 inp) AtHead (mark_layer_boundary m) = (LeaseFailed (''getLatestBlockhash: '' @ e), m1)
    \<and> bi_pending_refresh (bm_state m1) = None \<and> bi_current (bm_state m1) = bi_current (bm_state m)
    \<and> lease_run (replicate 3 inp) AtHead m1 = (Leased (bs_lease st), m2)
    \<and> rm_get_latest_blockhash (bm_rpc_metrics m2) = rm_get_latest_blockhash (bm_rpc_metrics m1)"
  using assms by (simp add: numeral_3_eq_3 section_defs mark_layer_boundary_def Let_def)

definition held_manager :: blockhash_manager where
  "held_manager =
     (blockhash_manager_new blockhash_policy_default False rpc_metrics_zero)\<lparr>bm_state :=
        \<lparr>bi_current = Some \<lparr>bs_lease = \<lparr>bl_hash = 7, bl_last_valid_block_height = 100, bl_fetched_at = 0,
             bl_refresh_reason = InitialRefresh\<rparr>, bs_uses_since_refresh = 1\<rparr>,
         bi_pending_refresh = None\<rparr>\<rparr>"

definition rpc_down :: rpc_input where
  "rpc_down = \<lparr>ri_now = 5, ri_latest_blockhash = Inl ''down'', ri_is_valid = Inl ''down''\<rparr>"

lemmas held_defs = held_manager_def blockhash_manager_new_def blockhash_policy_default_def check_policy_def

theorem failed_refresh_forgotten_witness:
  "\<exists>m1 m2 (st :: blockhash_state). lease_run (replicate 3 rpc_down) AtHead (mark_layer_boundary held_manager) = (LeaseFailed ''getLatestBlockhash: down'', m1)
    \<and> lease_run (replicate 3 rpc_down) AtHead m1 = (Leased (bs_lease st), m2)"
proof -
  obtain st where st: "bi_current (bm_state held_manager) = Some st" "check_policy (bm_policy held_manager) (ri_now rpc_down) st = None"
    by (simp add: held_defs rpc_down_def word_le_nat_alt)
  have h: "\<not> bm_refresh_in_flight held_manager" "bm_pre_check held_manager = False" "ri_latest_blockhash rpc_down = Inl ''down''"
    by (simp_all add: held_defs rpc_down_def)
  obtain m1 m2 where "lease_run (replicate 3 rpc_down) AtHead (mark_layer_boundary held_manager) =
      (LeaseFailed (''getLatestBlockhash: '' @ ''down''), m1)"
    "lease_run (replicate 3 rpc_down) AtHead m1 = (Leased (bs_lease st), m2)"
    using failed_refresh_forgotten [OF h(1) st h(3,2)] by metis
  then show ?thesis by auto
qed

theorem lease_alone_returns_witness:
  "\<exists>pc m'. lease_run (replicate 12 rpc_down) AtHead held_manager = (pc, m') \<and> lease_result held_manager (replicate 12 rpc_down) pc m'"
  by (rule lease_alone_returns) (auto simp: held_defs)

end
