(* ===== verification/Router.thy ===== *)
theory Router
  imports Prelude
begin

text \<open>
  The HTTP layer of the router client, bundler/src/er/mod.rs: error kinds, retries with back-off, and the
  circuit breaker in front of the router.

  Third-party code is a parameter: \<open>web_api\<close> has the accessors of \<open>url::Url\<close> and of
  \<open>serde_json::Value\<close> that the code uses, \<open>net_env\<close> the HTTP client, the clock, the random jitter and
  sleeping, all on a state \<open>'w\<close> of the outside world. A request is recorded with its host, id, call and key in
  the log \<open>rw_requests\<close>, once for each time it is sent. The texts of errors and log lines are not
  modelled; an error keeps its class and its cause. Durations are milliseconds.
\<close>

section \<open>Interfaces\<close>

record ('u, 'j) web_api =
  wa_scheme :: "'u \<Rightarrow> string"
  wa_host_str :: "'u \<Rightarrow> string option"
  wa_port_or_known_default :: "'u \<Rightarrow> u16 option"
  wa_join :: "'u \<Rightarrow> string \<Rightarrow> 'u option"
  wa_parse_url :: "string \<Rightarrow> 'u option"
  wa_from_slice :: "bytes \<Rightarrow> 'j option"
  wa_get :: "'j \<Rightarrow> string \<Rightarrow> 'j option"
  wa_is_null :: "'j \<Rightarrow> bool"
  wa_as_str :: "'j \<Rightarrow> string option"
  wa_as_i64 :: "'j \<Rightarrow> int option"
  wa_as_u64 :: "'j \<Rightarrow> u64 option"
  wa_as_array :: "'j \<Rightarrow> 'j list option"

definition same_origin :: "('u, 'j) web_api \<Rightarrow> 'u \<Rightarrow> 'u \<Rightarrow> bool" where
  "same_origin web a b \<longleftrightarrow>
     wa_scheme web a = wa_scheme web b
     \<and> wa_host_str web a = wa_host_str web b
     \<and> wa_port_or_known_default web a = wa_port_or_known_default web b"

text \<open>What a request asks for.\<close>

datatype 'tx rpc_call =
    GetRoutes
  | GetBlockhashForAccounts "pubkey list"
  | SimulateTransaction 'tx
  | SendTransaction 'tx bool
  | GetLatestBlockhash

record ('u, 'tx) http_request =
  hr_url :: 'u
  hr_id :: u64
  hr_call :: "'tx rpc_call"
  hr_api_key :: "string option"

record reqwest_error =
  rq_is_timeout :: bool
  rq_is_connect :: bool
  rq_is_request :: bool
  rq_message :: string
  rq_sources :: "string list"

text \<open>The outcome of sending: no response, or a status, the Retry-After header if it is text, and the body.\<close>

datatype http_answer =
    HttpFailed reqwest_error
  | HttpResponse nat "string option" "reqwest_error + bytes"

record ('u, 'j, 'w, 'tx) net_env =
  ne_web :: "('u, 'j) web_api"
  ne_http :: "('u, 'tx) http_request \<Rightarrow> 'w \<Rightarrow> http_answer \<times> 'w"
  ne_now :: "'w \<Rightarrow> nat"
  ne_gen_range_to :: "nat \<Rightarrow> 'w \<Rightarrow> nat \<times> 'w"
  ne_sleep :: "nat \<Rightarrow> 'w \<Rightarrow> 'w"

section \<open>Errors\<close>

datatype router_error_kind = RkTimeout | RkDns | RkTls | RkConnect | RkRequest | RkOther

fun kind_as_str :: "router_error_kind \<Rightarrow> string" where
  "kind_as_str RkTimeout = ''timeout''"
| "kind_as_str RkDns = ''dns''"
| "kind_as_str RkTls = ''tls''"
| "kind_as_str RkConnect = ''connect''"
| "kind_as_str RkRequest = ''http''"
| "kind_as_str RkOther = ''other''"

definition json_rpc_code_meaning :: "int \<Rightarrow> string" where
  "json_rpc_code_meaning code =
     (if code = - 32700 then ''Parse error''
      else if code = - 32600 then ''Invalid Request''
      else if code = - 32601 then ''Method not found''
      else if code = - 32602 then ''Invalid params''
      else if code = - 32603 then ''Internal error''
      else if - 32099 \<le> code \<and> code \<le> - 32000 then ''Server error''
      else ''Unknown error'')"

definition is_retryable_jsonrpc :: "int \<Rightarrow> bool" where
  "is_retryable_jsonrpc code \<longleftrightarrow> code \<notin> {- 32600, - 32601, - 32700}"

text \<open>What went wrong with a request; it stands for the text of a \<open>RouterRequestError\<close>.\<close>

datatype request_failure =
    ReadBody
  | InvalidJson
  | ServerStatus nat
  | JsonRpcCode int
  | Transport "string list"
  | NoDetail

record router_request_error =
  re_kind :: router_error_kind
  re_failure :: request_failure

definition error_chain_strings :: "reqwest_error \<Rightarrow> string list" where
  "error_chain_strings err = rq_message err # rq_sources err"

fun classify_error_messages :: "string list \<Rightarrow> router_error_kind" where
  "classify_error_messages [] = RkConnect"
| "classify_error_messages (msg # messages) =
     (let lower = to_ascii_lowercase msg in
      if contains_str lower ''dns'' \<or> contains_str lower ''failed to lookup address''
         \<or> contains_str lower ''name or service not known'' \<or> contains_str lower ''no such host''
         \<or> contains_str lower ''nodename nor servname provided''
         \<or> contains_str lower ''temporary failure in name resolution''
      then RkDns
      else if contains_str lower ''certificate'' \<or> contains_str lower ''tls'' \<or> contains_str lower ''handshake''
      then RkTls
      else classify_error_messages messages)"

definition classify_reqwest_error :: "reqwest_error \<Rightarrow> router_error_kind" where
  "classify_reqwest_error err =
     (if rq_is_timeout err then RkTimeout
      else if rq_is_connect err then classify_error_messages (error_chain_strings err)
      else if rq_is_request err then RkRequest
      else RkOther)"

section \<open>Back-off\<close>

text \<open>\<open>str::parse::<u64>\<close>: an optional plus sign, then at least one digit, and no overflow.\<close>

fun parse_digits :: "string \<Rightarrow> nat \<Rightarrow> nat option" where
  "parse_digits [] acc = Some acc"
| "parse_digits (c # cs) acc =
     (if 48 \<le> (of_char c :: nat) \<and> (of_char c :: nat) \<le> 57
      then (let acc = acc * 10 + ((of_char c :: nat) - 48)
            in if acc < 2 ^ 64 then parse_digits cs acc else None)
      else None)"

definition parse_u64 :: "string \<Rightarrow> nat option" where
  "parse_u64 s =
     (let digits = (if s \<noteq> [] \<and> hd s = CHR ''+'' then tl s else s)
      in if digits = [] then None else parse_digits digits 0)"

text \<open>The base doubles from 100 to 1600 milliseconds, and the sum with the jitter is cut at 1600.\<close>

definition backoff_base :: "nat \<Rightarrow> nat" where
  "backoff_base attempt_idx = 100 * 2 ^ min attempt_idx 4"

definition retry_after_delay :: "string option \<Rightarrow> nat option" where
  "retry_after_delay retry_after =
     (case retry_after of
        None \<Rightarrow> None
      | Some raw \<Rightarrow> (case parse_u64 raw of None \<Rightarrow> None | Some secs \<Rightarrow> Some (1000 * max secs 1)))"

section \<open>The circuit breaker\<close>

record circuit_state =
  ci_failures :: u32
  ci_tripped_until :: "nat option"

definition circuit_default :: circuit_state where
  "circuit_default = \<lparr>ci_failures = 0, ci_tripped_until = None\<rparr>"

definition circuit_record_failure :: "u32 \<Rightarrow> nat \<Rightarrow> nat \<Rightarrow> circuit_state \<Rightarrow> circuit_state" where
  "circuit_record_failure threshold cooldown now self =
     (if threshold = 0 then self
      else let self = self\<lparr>ci_failures := sat_add (ci_failures self) 1\<rparr>
           in if ci_failures self \<ge> threshold then self\<lparr>ci_tripped_until := Some (now + cooldown)\<rparr> else self)"

definition circuit_reset :: "circuit_state \<Rightarrow> circuit_state" where
  "circuit_reset self = self\<lparr>ci_failures := 0, ci_tripped_until := None\<rparr>"

definition circuit_is_tripped :: "nat \<Rightarrow> circuit_state \<Rightarrow> nat option \<times> circuit_state" where
  "circuit_is_tripped now self =
     (case ci_tripped_until self of
        None \<Rightarrow> (None, self)
      | Some until \<Rightarrow>
          if now < until then (Some until, self)
          else (None, self\<lparr>ci_tripped_until := None, ci_failures := 0\<rparr>))"

section \<open>Sending with retries\<close>

record ('u, 'w, 'tx) router_world =
  rw_net :: 'w
  rw_circuit :: circuit_state
  rw_requests :: "('u, 'tx) http_request list"
  rw_sleeps :: "nat list"

record 'j json_response =
  jr_status :: nat
  jr_value :: 'j

definition http_call ::
    "('u, 'j, 'w, 'tx) net_env \<Rightarrow> ('u, 'tx) http_request \<Rightarrow> ('u, 'w, 'tx, 'x) router_world_scheme
      \<Rightarrow> http_answer \<times> ('u, 'w, 'tx, 'x) router_world_scheme" where
  "http_call net req s =
     (case ne_http net req (rw_net s) of
        (answer, w) \<Rightarrow> (answer, s\<lparr>rw_net := w, rw_requests := rw_requests s @ [req]\<rparr>))"

definition do_sleep ::
    "('u, 'j, 'w, 'tx) net_env \<Rightarrow> nat \<Rightarrow> ('u, 'w, 'tx, 'x) router_world_scheme \<Rightarrow> ('u, 'w, 'tx, 'x) router_world_scheme" where
  "do_sleep net ms s = s\<lparr>rw_net := ne_sleep net ms (rw_net s), rw_sleeps := rw_sleeps s @ [ms]\<rparr>"

definition compute_router_backoff ::
    "('u, 'j, 'w, 'tx) net_env \<Rightarrow> nat \<Rightarrow> ('u, 'w, 'tx, 'x) router_world_scheme \<Rightarrow> nat \<times> ('u, 'w, 'tx, 'x) router_world_scheme" where
  "compute_router_backoff net attempt_idx s =
     (let base_ms = backoff_base attempt_idx
      in case ne_gen_range_to net (max (base_ms div 4) 1) (rw_net s) of
           (jitter, w) \<Rightarrow> (min (base_ms + jitter) 1600, s\<lparr>rw_net := w\<rparr>))"

definition retry_backoff ::
    "('u, 'j, 'w, 'tx) net_env \<Rightarrow> nat \<Rightarrow> string option \<Rightarrow> ('u, 'w, 'tx, 'x) router_world_scheme
      \<Rightarrow> nat \<times> ('u, 'w, 'tx, 'x) router_world_scheme" where
  "retry_backoff net attempt_idx retry_after s =
     (case retry_after_delay retry_after of
        Some ms \<Rightarrow> (ms, s)
      | None \<Rightarrow> compute_router_backoff net attempt_idx s)"

definition error_code :: "('u, 'j) web_api \<Rightarrow> 'j \<Rightarrow> int option" where
  "error_code web value =
     (case wa_get web value ''error'' of
        None \<Rightarrow> None
      | Some err \<Rightarrow> (case wa_get web err ''code'' of None \<Rightarrow> None | Some code \<Rightarrow> wa_as_i64 web code))"

definition retryable_status :: "nat \<Rightarrow> bool" where
  "retryable_status status \<longleftrightarrow> status = 429 \<or> 500 \<le> status \<and> status < 600"

text \<open>The loop over the attempts that are left; leaving the loop with an error is \<open>Inl\<close>.\<close>

fun send_loop ::
    "('u, 'j, 'w, 'tx) net_env \<Rightarrow> ('u, 'tx) http_request \<Rightarrow> nat \<Rightarrow> nat list \<Rightarrow> router_request_error option
      \<Rightarrow> ('u, 'w, 'tx, 'x) router_world_scheme
      \<Rightarrow> (router_request_error + 'j json_response) \<times> ('u, 'w, 'tx, 'x) router_world_scheme" where
  "send_loop net req limit [] last_err s =
     (Inl (case last_err of Some e \<Rightarrow> e | None \<Rightarrow> \<lparr>re_kind = RkOther, re_failure = NoDetail\<rparr>), s)"
| "send_loop net req limit (attempt_idx # attempts) last_err s =
     (let retrying = attempt_idx + 1 < limit in
      case http_call net req s of
        (HttpFailed e, s) \<Rightarrow>
          (let err = \<lparr>re_kind = classify_reqwest_error e, re_failure = Transport (error_chain_strings e)\<rparr>
           in if retrying
              then (case compute_router_backoff net attempt_idx s of
                      (delay, s) \<Rightarrow> send_loop net req limit attempts (Some err) (do_sleep net delay s))
              else (Inl err, s))
      | (HttpResponse status retry_after body, s) \<Rightarrow>
          (case body of
             Inl e \<Rightarrow> (Inl \<lparr>re_kind = classify_reqwest_error e, re_failure = ReadBody\<rparr>, s)
           | Inr bytes \<Rightarrow>
               (case wa_from_slice (ne_web net) bytes of
                  None \<Rightarrow> (Inl \<lparr>re_kind = RkOther, re_failure = InvalidJson\<rparr>, s)
                | Some value \<Rightarrow>
                    if retryable_status status
                    then (case retry_backoff net attempt_idx retry_after s of
                            (backoff, s) \<Rightarrow>
                              (let err = \<lparr>re_kind = RkRequest, re_failure = ServerStatus status\<rparr>
                               in if retrying then send_loop net req limit attempts (Some err) (do_sleep net backoff s)
                                  else (Inl err, s)))
                    else (case error_code (ne_web net) value of
                            Some code \<Rightarrow>
                              if is_retryable_jsonrpc code \<and> retrying
                              then (case compute_router_backoff net attempt_idx s of
                                      (delay, s) \<Rightarrow>
                                        send_loop net req limit attempts
                                          (Some \<lparr>re_kind = RkRequest, re_failure = JsonRpcCode code\<rparr>)
                                          (do_sleep net delay s))
                              else (Inr \<lparr>jr_status = status, jr_value = value\<rparr>, s)
                          | None \<Rightarrow> (Inr \<lparr>jr_status = status, jr_value = value\<rparr>, s)))))"

definition send_with_retries ::
    "('u, 'j, 'w, 'tx) net_env \<Rightarrow> nat \<Rightarrow> ('u, 'tx) http_request \<Rightarrow> ('u, 'w, 'tx, 'x) router_world_scheme
      \<Rightarrow> (router_request_error + 'j json_response) \<times> ('u, 'w, 'tx, 'x) router_world_scheme" where
  "send_with_retries net retries req s =
     (let total_attempts = sat_plus retries 1
      in send_loop net req total_attempts [0..<total_attempts] None s)"

section \<open>\<open>post_json\<close>\<close>

record 'u breaker_config =
  bk_router_url :: 'u
  bk_failures :: u32
  bk_cooldown :: nat
  bk_retries :: nat

datatype post_error = BreakerTripped nat | RequestError router_request_error

definition should_apply_circuit :: "('u, 'j) web_api \<Rightarrow> 'u breaker_config \<Rightarrow> 'u \<Rightarrow> bool" where
  "should_apply_circuit web cfg url = same_origin web url (bk_router_url cfg)"

definition post_json ::
    "('u, 'j, 'w, 'tx) net_env \<Rightarrow> 'u breaker_config \<Rightarrow> ('u, 'tx) http_request \<Rightarrow> ('u, 'w, 'tx, 'x) router_world_scheme
      \<Rightarrow> (post_error + 'j json_response) \<times> ('u, 'w, 'tx, 'x) router_world_scheme" where
  "post_json net cfg req s =
     (let apply_circuit = should_apply_circuit (ne_web net) cfg (hr_url req) \<and> bk_failures cfg > 0;
          now = ne_now net (rw_net s);
          (tripped, s) = (if apply_circuit
                          then (case circuit_is_tripped now (rw_circuit s) of
                                  (t, circ) \<Rightarrow> (t, s\<lparr>rw_circuit := circ\<rparr>))
                          else (None, s))
      in case tripped of
           Some until \<Rightarrow> (Inl (BreakerTripped (until - now)), s)
         | None \<Rightarrow>
             (case send_with_retries net (bk_retries cfg) req s of
                (result, s) \<Rightarrow>
                  (let s = (if apply_circuit
                            then s\<lparr>rw_circuit :=
                                    (case result of
                                       Inr _ \<Rightarrow> circuit_reset (rw_circuit s)
                                     | Inl _ \<Rightarrow> circuit_record_failure (bk_failures cfg) (bk_cooldown cfg)
                                                  (ne_now net (rw_net s)) (rw_circuit s))\<rparr>
                            else s)
                   in (case result of Inl e \<Rightarrow> Inl (RequestError e) | Inr r \<Rightarrow> Inr r, s))))"


section \<open>How often a request is sent\<close>

definition sleep_ok :: "nat \<Rightarrow> bool" where
  "sleep_ok ms \<longleftrightarrow> 100 \<le> ms \<and> ms \<le> 1600 \<or> (\<exists>secs. 1 \<le> secs \<and> secs < 2 ^ 64 \<and> ms = 1000 * secs)"

lemma backoff_base_bounds: "100 \<le> backoff_base i \<and> backoff_base i \<le> 1600"
proof -
  have "(2 :: nat) ^ min i 4 \<le> 2 ^ 4" by (rule power_increasing) simp_all
  moreover have "(1 :: nat) \<le> 2 ^ min i 4" by simp
  ultimately show ?thesis by (simp add: backoff_base_def)
qed

lemma compute_router_backoff_ok:
  "compute_router_backoff net i s = (ms, s') \<Longrightarrow> 100 \<le> ms \<and> ms \<le> 1600
     \<and> rw_requests s' = rw_requests s \<and> rw_sleeps s' = rw_sleeps s \<and> rw_circuit s' = rw_circuit s"
  using backoff_base_bounds [of i] by (auto simp: compute_router_backoff_def Let_def split: prod.splits)

lemma parse_digits_less: "acc < 2 ^ 64 \<Longrightarrow> parse_digits cs acc = Some n \<Longrightarrow> n < 2 ^ 64"
  by (induction cs acc rule: parse_digits.induct) (auto simp: Let_def split: if_splits)

lemma retry_after_delay_ok:
  assumes "retry_after_delay ra = Some ms"
  shows "\<exists>secs. 1 \<le> secs \<and> secs < 2 ^ 64 \<and> ms = 1000 * secs"
proof -
  from assms obtain raw n where n: "parse_u64 raw = Some n" "ms = 1000 * max n 1"
    by (auto simp: retry_after_delay_def split: option.splits)
  have "n < 2 ^ 64" using n(1) parse_digits_less [of 0] by (auto simp: parse_u64_def Let_def split: if_splits)
  then show ?thesis using n(2) by (intro exI [of _ "max n 1"]) simp
qed

lemma retry_backoff_ok:
  "retry_backoff net i ra s = (ms, s') \<Longrightarrow> sleep_ok ms
     \<and> rw_requests s' = rw_requests s \<and> rw_sleeps s' = rw_sleeps s \<and> rw_circuit s' = rw_circuit s"
  by (auto simp: retry_backoff_def sleep_ok_def dest: compute_router_backoff_ok retry_after_delay_ok split: option.splits)

lemma http_call_log:
  "http_call net req s = (a, s') \<Longrightarrow>
   rw_requests s' = rw_requests s @ [req] \<and> rw_sleeps s' = rw_sleeps s \<and> rw_circuit s' = rw_circuit s"
  by (auto simp: http_call_def split: prod.splits)

lemma do_sleep_log [simp]:
  "rw_requests (do_sleep net ms s) = rw_requests s" "rw_sleeps (do_sleep net ms s) = rw_sleeps s @ [ms]"
  "rw_circuit (do_sleep net ms s) = rw_circuit s"
  by (simp_all add: do_sleep_def)

text \<open>What \<open>k\<close> attempts leave behind.\<close>

definition sent ::
    "('u, 'tx) http_request \<Rightarrow> nat \<Rightarrow> ('u, 'w, 'tx, 'x) router_world_scheme \<Rightarrow> ('u, 'w, 'tx, 'x) router_world_scheme \<Rightarrow> bool" where
  "sent req k s s' \<longleftrightarrow>
     rw_requests s' = rw_requests s @ replicate k req
     \<and> (\<exists>ms. rw_sleeps s' = rw_sleeps s @ ms \<and> length ms = k - 1 \<and> list_all sleep_ok ms)
     \<and> rw_circuit s' = rw_circuit s"

definition send_result_ok :: "('u, 'j) web_api \<Rightarrow> bool \<Rightarrow> router_request_error + 'j json_response \<Rightarrow> bool" where
  "send_result_ok web final r \<longleftrightarrow>
     (case r of
        Inl e \<Rightarrow> re_failure e \<noteq> NoDetail
      | Inr v \<Rightarrow> \<not> retryable_status (jr_status v)
          \<and> (\<forall>code. error_code web (jr_value v) = Some code \<longrightarrow> final \<or> \<not> is_retryable_jsonrpc code))"

lemma send_result_ok_simps [simp]:
  "send_result_ok web final (Inl e) \<longleftrightarrow> re_failure e \<noteq> NoDetail"
  "send_result_ok web final (Inr v) \<longleftrightarrow> \<not> retryable_status (jr_status v)
     \<and> (\<forall>code. error_code web (jr_value v) = Some code \<longrightarrow> final \<or> \<not> is_retryable_jsonrpc code)"
  by (simp_all add: send_result_ok_def)

definition log_kept :: "('u, 'w, 'tx, 'x) router_world_scheme \<Rightarrow> ('u, 'w, 'tx, 'x) router_world_scheme \<Rightarrow> bool" where
  "log_kept s t \<longleftrightarrow> rw_requests t = rw_requests s \<and> rw_sleeps t = rw_sleeps s \<and> rw_circuit t = rw_circuit s"

lemma log_kept_refl [simp]: "log_kept s s"
  by (simp add: log_kept_def)

lemma backoff_keeps:
  "compute_router_backoff net i s = (ms, s') \<Longrightarrow> sleep_ok ms \<and> log_kept s s'"
  "retry_backoff net i ra s = (ms, s') \<Longrightarrow> sleep_ok ms \<and> log_kept s s'"
proof -
  show "compute_router_backoff net i s = (ms, s') \<Longrightarrow> sleep_ok ms \<and> log_kept s s'"
    by (auto simp: log_kept_def sleep_ok_def dest: compute_router_backoff_ok)
  show "retry_backoff net i ra s = (ms, s') \<Longrightarrow> sleep_ok ms \<and> log_kept s s'"
    by (auto simp: log_kept_def dest: retry_backoff_ok)
qed

text \<open>One attempt ends the loop, or sleeps and goes on.\<close>

lemma send_loop_attempt:
  assumes "send_loop net req limit (i # is) last_err s = (r, s')" and "http_call net req s = (a, s1)"
  shows "(log_kept s1 s' \<and> send_result_ok (ne_web net) (\<not> i + 1 < limit) r)
    \<or> (\<exists>e ms s2. i + 1 < limit \<and> log_kept s1 s2 \<and> sleep_ok ms
         \<and> send_loop net req limit is (Some e) (do_sleep net ms s2) = (r, s'))"
proof (cases a)
  case (HttpFailed e)
  then show ?thesis
    using assms by (cases "compute_router_backoff net i s1") (auto simp: Let_def dest: backoff_keeps split: if_splits)
next
  case (HttpResponse status ra body)
  show ?thesis
  proof (cases body)
    case (Inl e)
    then show ?thesis using assms HttpResponse by (auto simp: Let_def)
  next
    case (Inr bytes)
    show ?thesis
    proof (cases "wa_from_slice (ne_web net) bytes")
      case None
      then show ?thesis using assms HttpResponse Inr by (auto simp: Let_def)
    next
      case (Some v)
      obtain ms1 t1 where b1: "compute_router_backoff net i s1 = (ms1, t1)" by (cases "compute_router_backoff net i s1")
      obtain ms2 t2 where b2: "retry_backoff net i ra s1 = (ms2, t2)" by (cases "retry_backoff net i ra s1")
      show ?thesis
        using assms HttpResponse Inr Some backoff_keeps(1) [OF b1] backoff_keeps(2) [OF b2]
        by (cases "error_code (ne_web net) v") (auto simp: Let_def b1 b2 split: if_splits)
    qed
  qed
qed

lemma sent_one: "http_call net req s = (a, s1) \<Longrightarrow> log_kept s1 s' \<Longrightarrow> sent req 1 s s'"
  by (auto simp: sent_def log_kept_def dest: http_call_log)

lemma sent_more:
  assumes "http_call net req s = (a, s1)" and "log_kept s1 s2" and "sleep_ok ms" and "sent req k (do_sleep net ms s2) s'" and "1 \<le> k"
  shows "sent req (Suc k) s s'"
proof -
  obtain xs where xs: "rw_sleeps s' = (rw_sleeps s @ [ms]) @ xs" "length xs = k - 1" "list_all sleep_ok xs"
    using assms(2,4) http_call_log [OF assms(1)] by (auto simp: sent_def log_kept_def)
  then have "rw_sleeps s' = rw_sleeps s @ (ms # xs) \<and> length (ms # xs) = Suc k - 1 \<and> list_all sleep_ok (ms # xs)"
    using assms(3,5) by simp
  moreover have "rw_requests s' = rw_requests s @ replicate (Suc k) req \<and> rw_circuit s' = rw_circuit s"
    using assms(2,4) http_call_log [OF assms(1)] by (simp add: sent_def log_kept_def)
  ultimately show ?thesis unfolding sent_def by blast
qed

lemma send_loop_sent:
  assumes "i < limit" and "send_loop net req limit [i..<limit] last_err s = (r, s')"
  shows "\<exists>k. 1 \<le> k \<and> k \<le> limit - i \<and> sent req k s s' \<and> send_result_ok (ne_web net) (k = limit - i) r"
  using assms
proof (induction "limit - i" arbitrary: i last_err s)
  case 0
  then show ?case by simp
next
  case (Suc n)
  have split: "[i..<limit] = i # [Suc i..<limit]" using Suc.prems(1) by (rule upt_conv_Cons)
  obtain a s1 where call: "http_call net req s = (a, s1)" by (cases "http_call net req s")
  from send_loop_attempt [OF Suc.prems(2) [unfolded split] call] show ?case
  proof (elim disjE exE conjE)
    assume stop: "log_kept s1 s'" "send_result_ok (ne_web net) (\<not> i + 1 < limit) r"
    have "(\<not> i + 1 < limit) = (1 = limit - i)" using Suc.prems(1) by auto
    with stop sent_one [OF call stop(1)] Suc.prems(1) show ?thesis by (intro exI [of _ 1]) auto
  next
    fix e ms s2
    assume go: "i + 1 < limit" "log_kept s1 s2" "sleep_ok ms"
      "send_loop net req limit [Suc i..<limit] (Some e) (do_sleep net ms s2) = (r, s')"
    have "n = limit - Suc i" using Suc.hyps(2) by simp
    then obtain k where k: "1 \<le> k" "k \<le> limit - Suc i" "sent req k (do_sleep net ms s2) s'"
      "send_result_ok (ne_web net) (k = limit - Suc i) r"
      using Suc.hyps(1) [OF _ _ go(4)] go(1) by auto
    have "Suc k = limit - i \<longleftrightarrow> k = limit - Suc i" using go(1) by auto
    with k sent_more [OF call go(2,3) k(3,1)] go(1) show ?thesis by (intro exI [of _ "Suc k"]) auto
  qed
qed

lemma send_with_retries_sent:
  assumes "send_with_retries net retries req s = (r, s')" and "retries < usize_max"
  shows "\<exists>k. 1 \<le> k \<and> k \<le> retries + 1 \<and> sent req k s s' \<and> send_result_ok (ne_web net) (k = retries + 1) r"
proof -
  have limit: "sat_plus retries 1 = retries + 1" using assms(2) by (simp add: sat_plus_def)
  then have "send_loop net req (retries + 1) [0..<retries + 1] None s = (r, s')"
    using assms(1) by (simp add: send_with_retries_def Let_def)
  from send_loop_sent [OF _ this] show ?thesis by auto
qed

section \<open>A server for the examples\<close>

text \<open>URLs are host names; every body is parsed to the same small object; the world is the clock.\<close>

datatype json = JNull | JStr string | JInt int | JArr "json list" | JObj "(string \<times> json) list"

definition sample_web :: "json \<Rightarrow> (string, json) web_api" where
  "sample_web body =
     \<lparr>wa_scheme = (\<lambda>u. ''https''), wa_host_str = Some, wa_port_or_known_default = (\<lambda>u. Some 443),
      wa_join = (\<lambda>u p. Some u), wa_parse_url = Some, wa_from_slice = (\<lambda>b. Some body),
      wa_get = (\<lambda>j k. case j of JObj kvs \<Rightarrow> map_of kvs k | _ \<Rightarrow> None), wa_is_null = (\<lambda>j. j = JNull),
      wa_as_str = (\<lambda>j. case j of JStr t \<Rightarrow> Some t | _ \<Rightarrow> None),
      wa_as_i64 = (\<lambda>j. case j of JInt i \<Rightarrow> Some i | _ \<Rightarrow> None),
      wa_as_u64 = (\<lambda>j. case j of JInt i \<Rightarrow> (if 0 \<le> i \<and> i < 2 ^ 64 then Some (of_int i) else None) | _ \<Rightarrow> None),
      wa_as_array = (\<lambda>j. case j of JArr js \<Rightarrow> Some js | _ \<Rightarrow> None)\<rparr>"

definition sample_net :: "nat \<Rightarrow> json \<Rightarrow> (string, json, nat, 'tx) net_env" where
  "sample_net status body =
     \<lparr>ne_web = sample_web body, ne_http = (\<lambda>req w. (HttpResponse status None (Inr []), w)), ne_now = id,
      ne_gen_range_to = (\<lambda>n w. (0, w)), ne_sleep = (\<lambda>ms w. w + ms)\<rparr>"

definition sample_request :: "(string, unit) http_request" where
  "sample_request = \<lparr>hr_url = ''router'', hr_id = 1, hr_call = GetRoutes, hr_api_key = None\<rparr>"

definition sample_world :: "(string, nat, unit) router_world" where
  "sample_world = \<lparr>rw_net = 0, rw_circuit = circuit_default, rw_requests = [], rw_sleeps = []\<rparr>"

definition sample_breaker :: "string breaker_config" where
  "sample_breaker = \<lparr>bk_router_url = ''router'', bk_failures = 2, bk_cooldown = 1000, bk_retries = 2\<rparr>"

text \<open>
  Whatever the network does, a request is sent at least once and at most \<open>retries + 1\<close> times, unchanged,
  with one pause between two sends; every pause is between 100 and 1600 milliseconds, or a whole number of seconds (at
  least one) that the server asked for. An error always has a cause. A response that is handed on
  never has a retryable status, and it carries a retryable JSON-RPC error only after the last attempt.
\<close>

theorem send_with_retries_bounded:
  assumes "send_with_retries net retries req s = (r, s')" and "retries < usize_max"
  shows "\<exists>k ms. 1 \<le> k \<and> k \<le> retries + 1
    \<and> rw_requests s' = rw_requests s @ replicate k req
    \<and> rw_sleeps s' = rw_sleeps s @ ms \<and> length ms = k - 1 \<and> list_all sleep_ok ms
    \<and> rw_circuit s' = rw_circuit s \<and> send_result_ok (ne_web net) (k = retries + 1) r"
  using send_with_retries_sent [OF assms] by (auto simp: sent_def)

theorem send_with_retries_bounded_witness:
  "\<exists>k. 1 \<le> k \<and> k \<le> 3
     \<and> rw_requests (snd (send_with_retries (sample_net 503 JNull) 2 sample_request sample_world)) = replicate k sample_request"
  using send_with_retries_bounded [of "sample_net 503 JNull" 2 sample_request sample_world, OF prod.collapse [symmetric]]
  by (auto simp: sample_world_def usize_max_def)

section \<open>The breaker as a two-state machine\<close>

text \<open>The specification: closed with a number of consecutive failures, or open until an instant.\<close>

datatype breaker = Closed nat | Open nat

fun breaker_at :: "nat \<Rightarrow> breaker \<Rightarrow> breaker" where
  "breaker_at now (Closed n) = Closed n"
| "breaker_at now (Open until) = (if now < until then Open until else Closed 0)"

fun breaker_after :: "nat \<Rightarrow> nat \<Rightarrow> nat \<Rightarrow> bool \<Rightarrow> breaker \<Rightarrow> breaker" where
  "breaker_after threshold cooldown now True b = Closed 0"
| "breaker_after threshold cooldown now False (Closed n) =
     (if n + 1 < threshold then Closed (n + 1) else Open (now + cooldown))"
| "breaker_after threshold cooldown now False (Open until) = Open until"

definition breaker_abs :: "circuit_state \<Rightarrow> breaker" where
  "breaker_abs c = (case ci_tripped_until c of Some t \<Rightarrow> Open t | None \<Rightarrow> Closed (unat (ci_failures c)))"

definition circuit_ok :: "u32 \<Rightarrow> circuit_state \<Rightarrow> bool" where
  "circuit_ok threshold c \<longleftrightarrow> ci_tripped_until c = None \<longrightarrow> ci_failures c < threshold"

lemma is_tripped_abs:
  assumes "circuit_is_tripped now c = (t, c')" and "circuit_ok threshold c" and "threshold > 0"
  shows "breaker_abs c' = breaker_at now (breaker_abs c) \<and> circuit_ok threshold c'
    \<and> (case t of Some until \<Rightarrow> breaker_at now (breaker_abs c) = Open until \<and> now < until
        | None \<Rightarrow> ci_tripped_until c' = None)"
proof (cases "ci_tripped_until c")
  case None
  then show ?thesis using assms by (auto simp: circuit_is_tripped_def breaker_abs_def circuit_ok_def)
next
  case (Some until)
  then show ?thesis
  proof (cases "now < until")
    case True
    then have "t = Some until \<and> c' = c" using assms(1) Some by (simp add: circuit_is_tripped_def)
    then show ?thesis using Some True by (simp add: breaker_abs_def circuit_ok_def)
  next
    case False
    then show ?thesis using assms Some by (auto simp: circuit_is_tripped_def breaker_abs_def circuit_ok_def)
  qed
qed

lemma reset_abs: "threshold > 0 \<Longrightarrow> breaker_abs (circuit_reset c) = Closed 0 \<and> circuit_ok threshold (circuit_reset c)"
  by (simp add: circuit_reset_def breaker_abs_def circuit_ok_def)

lemma record_failure_abs:
  assumes "circuit_ok threshold c" and "ci_tripped_until c = None" and "threshold > 0"
  shows "breaker_abs (circuit_record_failure threshold cooldown now c) =
      breaker_after (unat threshold) cooldown now False (breaker_abs c)
    \<and> circuit_ok threshold (circuit_record_failure threshold cooldown now c)"
proof -
  have lt: "unat (ci_failures c) < unat threshold" using assms by (simp add: circuit_ok_def word_less_nat_alt)
  then have "unat (ci_failures c) + 1 < 2 ^ 32" using unsigned_less [of threshold, where ?'a = nat] by simp
  then have "unat (sat_add (ci_failures c) 1) = unat (ci_failures c) + 1" by (simp add: unat_sat_add)
  then show ?thesis
    using assms lt
    by (auto simp: circuit_record_failure_def Let_def breaker_abs_def circuit_ok_def word_less_nat_alt word_le_nat_alt
        split: if_splits)
qed

text \<open>
  C30: For requests to the router \<open>post_json\<close> refines the two-state breaker. While the breaker is open the request is
  refused, with the time that remains, and nothing is sent. Otherwise it is sent (at most \<open>retries + 1\<close>
  times); a response closes the breaker, a failure counts, and the failure that reaches the
  threshold opens it for the cool-down. Requests to other hosts neither consult nor change it.
\<close>

theorem post_json_breaker:
  assumes "post_json net cfg req s = (r, s')" and "bk_retries cfg < usize_max" and "bk_failures cfg > 0"
    and "circuit_ok (bk_failures cfg) (rw_circuit s)"
  shows "if same_origin (ne_web net) (hr_url req) (bk_router_url cfg)
    then (case breaker_at (ne_now net (rw_net s)) (breaker_abs (rw_circuit s)) of
            Open until \<Rightarrow> r = Inl (BreakerTripped (until - ne_now net (rw_net s))) \<and> rw_requests s' = rw_requests s
              \<and> breaker_abs (rw_circuit s') = Open until
          | Closed n \<Rightarrow> (\<exists>k. 1 \<le> k \<and> k \<le> bk_retries cfg + 1 \<and> rw_requests s' = rw_requests s @ replicate k req)
              \<and> (\<forall>d. r \<noteq> Inl (BreakerTripped d))
              \<and> breaker_abs (rw_circuit s') =
                  breaker_after (unat (bk_failures cfg)) (bk_cooldown cfg) (ne_now net (rw_net s')) (\<not> isl r) (Closed n))
         \<and> circuit_ok (bk_failures cfg) (rw_circuit s')
    else rw_circuit s' = rw_circuit s
      \<and> (\<exists>k. 1 \<le> k \<and> k \<le> bk_retries cfg + 1 \<and> rw_requests s' = rw_requests s @ replicate k req)"
proof (cases "same_origin (ne_web net) (hr_url req) (bk_router_url cfg)")
  case False
  then have "send_with_retries net (bk_retries cfg) req s = (case r of Inl (RequestError e) \<Rightarrow> Inl e | Inr v \<Rightarrow> Inr v, s')"
    using assms(1) by (auto simp: post_json_def should_apply_circuit_def Let_def split: prod.splits sum.splits)
  from send_with_retries_sent [OF this assms(2)] False show ?thesis by (auto simp: sent_def)
next
  case True
  let ?now = "ne_now net (rw_net s)"
  obtain t c where trip: "circuit_is_tripped ?now (rw_circuit s) = (t, c)" by (cases "circuit_is_tripped ?now (rw_circuit s)")
  have ap: "should_apply_circuit (ne_web net) cfg (hr_url req) \<and> bk_failures cfg > 0"
    using True assms(3) by (simp add: should_apply_circuit_def)
  note abs = is_tripped_abs [OF trip assms(4,3)]
  show ?thesis
  proof (cases t)
    case (Some until)
    then show ?thesis using assms(1) True ap abs by (auto simp: post_json_def Let_def trip)
  next
    case None
    obtain res s1 where send: "send_with_retries net (bk_retries cfg) req (s\<lparr>rw_circuit := c\<rparr>) = (res, s1)"
      by (cases "send_with_retries net (bk_retries cfg) req (s\<lparr>rw_circuit := c\<rparr>)")
    obtain k where k: "1 \<le> k" "k \<le> bk_retries cfg + 1" "rw_requests s1 = rw_requests s @ replicate k req" "rw_circuit s1 = c"
      using send_with_retries_sent [OF send assms(2)] by (auto simp: sent_def)
    have closed: "breaker_at ?now (breaker_abs (rw_circuit s)) = Closed (unat (ci_failures c))" "ci_tripped_until c = None"
      using abs None by (auto simp: breaker_abs_def [of c])
    show ?thesis
    proof (cases res)
      case (Inl e)
      then show ?thesis
        using assms(1,3) True ap None closed k abs
          record_failure_abs [of "bk_failures cfg" c "bk_cooldown cfg" "ne_now net (rw_net s1)"]
        by (auto simp: post_json_def Let_def trip send)
    next
      case (Inr v)
      then show ?thesis
        using assms(1,3) True ap None closed k reset_abs [OF assms(3), of c]
        by (auto simp: post_json_def Let_def trip send)
    qed
  qed
qed

theorem post_json_breaker_witness:
  "\<exists>k. 1 \<le> k \<and> k \<le> 3
     \<and> rw_requests (snd (post_json (sample_net 503 JNull) sample_breaker sample_request sample_world)) = replicate k sample_request"
proof -
  have facts: "bk_retries sample_breaker < usize_max" "bk_failures sample_breaker > 0"
    "circuit_ok (bk_failures sample_breaker) (rw_circuit sample_world)"
    "same_origin (ne_web (sample_net 503 JNull)) (hr_url sample_request) (bk_router_url sample_breaker)"
    "breaker_abs (rw_circuit sample_world) = Closed 0" "rw_requests sample_world = []" "bk_retries sample_breaker = 2"
    by (simp_all add: circuit_ok_def sample_world_def circuit_default_def sample_breaker_def same_origin_def sample_request_def
        breaker_abs_def usize_max_def)
  obtain r s' where run: "post_json (sample_net 503 JNull) sample_breaker sample_request sample_world = (r, s')"
    by (cases "post_json (sample_net 503 JNull) sample_breaker sample_request sample_world")
  show ?thesis using post_json_breaker [OF run facts(1-3)] by (simp add: facts(4-) run)
qed
end
