(* ===== verification/Telemetry.thy ===== *)
theory Telemetry
  imports Router Fee "HOL-Library.List_Lexorder" "HOL-Library.Char_ord"
begin

text \<open>
  The errors and the telemetry of the router client (\<open>ErTelemetry\<close> in bundler/src/er/mod.rs).

  An \<open>anyhow::Error\<close> is a cause under a list of contexts; \<open>chain()\<close> goes from the outermost context to the
  cause. The texts are not modelled: where the code stores \<open>to_string()\<close> of an error, the rendering is the
  parameter \<open>show\<close>. The counters are \<open>AtomicU64\<close>s, whose \<open>fetch_add\<close> wraps; the mutexes are available.
\<close>

section \<open>Errors of the client\<close>

datatype er_failure =
    CircuitTripped nat
  | DiscoveryFailed nat
  | RouterErrorPayload
  | RoutesMissing
  | RoutesUndecodable
  | NoRoutes
  | NoRoutesForPrivacy
  | BadRouteUrl
  | BadRouteScheme string
  | BadApiKey
  | BhfaMissingResult
  | BhfaMissingBlockhash
  | BhfaMissingHeight
  | BhfaBadHash
  | NoAccounts
  | NoIntents
  | MissingPayload nat
  | NoInstructions
  | SigningFailed string
  | EncodingFailed string
  | GuardBlockhashMismatch
  | GuardSignaturesMissing
  | SimulationRpcError
  | SimulationProgramError
  | SendRpcError
  | SendBlockhashMismatch
  | SendMissingSignature
  | BhfaRequiredUnavailable
  | BhfaRequiredFailed
  | BhfaUnavailable
  | UnexpectedPayload
  | BadBlockhash

datatype er_error =
    ErRequest router_request_error
  | ErJsonRpc int string
  | ErText er_failure
  | ErContext string er_error

fun er_chain :: "er_error \<Rightarrow> er_error list" where
  "er_chain (ErContext c e) = ErContext c e # er_chain e"
| "er_chain e = [e]"

fun first_request :: "er_error list \<Rightarrow> router_request_error option" where
  "first_request [] = None"
| "first_request (e # es) = (case e of ErRequest r \<Rightarrow> Some r | _ \<Rightarrow> first_request es)"

fun first_json_rpc :: "er_error list \<Rightarrow> (int \<times> string) option" where
  "first_json_rpc [] = None"
| "first_json_rpc (e # es) = (case e of ErJsonRpc code message \<Rightarrow> Some (code, message) | _ \<Rightarrow> first_json_rpc es)"

definition classify_router_error :: "er_error \<Rightarrow> router_error_kind option" where
  "classify_router_error err = map_option re_kind (first_request (er_chain err))"

section \<open>Counters\<close>

definition TELEMETRY_WINDOW :: nat where
  "TELEMETRY_WINDOW = 1000"

record router_error_snapshot =
  es_code :: "int option"
  es_message :: string

record er_counters =
  tl_sessions :: u64
  tl_successes :: u64
  tl_fallbacks :: u64
  tl_routes_ok :: u64
  tl_routes_err :: u64
  tl_bhfa_ok :: u64
  tl_bhfa_err :: u64
  tl_router_simulate :: u64
  tl_router_send :: u64
  tl_exec_ok :: u64
  tl_exec_err :: u64
  tl_router_cache_hits :: u64
  tl_router_cache_misses :: u64
  tl_session_begin_attempts :: u64
  tl_session_begin_ok :: u64
  tl_session_begin_err :: u64
  tl_blockhash_cache_hits :: u64
  tl_blockhash_cache_misses :: u64
  tl_small_chunk_skips :: u64
  tl_merged_small_chunks :: u64
  tl_dp_begin_ok :: u64
  tl_dp_begin_err :: u64
  tl_dp_execute_ok :: u64
  tl_dp_execute_err :: u64
  tl_dp_end_ok :: u64
  tl_dp_end_err :: u64
  tl_blockhash_plan_hits :: u64
  tl_blockhash_plan_misses :: u64
  tl_parity_retry_router :: u64

record er_telemetry =
  te_counters :: er_counters
  te_route_ms :: "nat list"
  te_bhfa_ms :: "nat list"
  te_exec_ms :: "nat list"
  te_router_error_kinds :: "(string \<times> u64) list"
  te_last_router_error :: "router_error_snapshot option"

abbreviation on_counters :: "(er_counters \<Rightarrow> er_counters) \<Rightarrow> er_telemetry \<Rightarrow> er_telemetry" where
  "on_counters f t \<equiv> t\<lparr>te_counters := f (te_counters t)\<rparr>"

definition zero_counters :: er_counters where
  "zero_counters =
     \<lparr>tl_sessions = 0, tl_successes = 0, tl_fallbacks = 0, tl_routes_ok = 0, tl_routes_err = 0, tl_bhfa_ok = 0, tl_bhfa_err = 0,
      tl_router_simulate = 0, tl_router_send = 0, tl_exec_ok = 0, tl_exec_err = 0, tl_router_cache_hits = 0,
      tl_router_cache_misses = 0, tl_session_begin_attempts = 0, tl_session_begin_ok = 0, tl_session_begin_err = 0,
      tl_blockhash_cache_hits = 0, tl_blockhash_cache_misses = 0, tl_small_chunk_skips = 0, tl_merged_small_chunks = 0,
      tl_dp_begin_ok = 0, tl_dp_begin_err = 0, tl_dp_execute_ok = 0, tl_dp_execute_err = 0, tl_dp_end_ok = 0,
      tl_dp_end_err = 0, tl_blockhash_plan_hits = 0, tl_blockhash_plan_misses = 0, tl_parity_retry_router = 0\<rparr>"

definition er_telemetry_default :: er_telemetry where
  "er_telemetry_default =
     \<lparr>te_counters = zero_counters, te_route_ms = [], te_bhfa_ms = [], te_exec_ms = [], te_router_error_kinds = [],
      te_last_router_error = None\<rparr>"

text \<open>\<open>push_back\<close>, then \<open>pop_front\<close> while the window is too long.\<close>

definition push_sample :: "nat \<Rightarrow> nat list \<Rightarrow> nat list" where
  "push_sample ms samples = (let samples = samples @ [ms] in drop (length samples - TELEMETRY_WINDOW) samples)"

definition record_session_begin_attempt :: "er_telemetry \<Rightarrow> er_telemetry" where
  "record_session_begin_attempt t = on_counters (\<lambda>c. c\<lparr>tl_session_begin_attempts := tl_session_begin_attempts c + 1\<rparr>) t"

definition record_session_begin_ok :: "er_telemetry \<Rightarrow> er_telemetry" where
  "record_session_begin_ok t = on_counters (\<lambda>c. c\<lparr>tl_session_begin_ok := tl_session_begin_ok c + 1\<rparr>) t"

definition record_session_begin_err :: "er_telemetry \<Rightarrow> er_telemetry" where
  "record_session_begin_err t = on_counters (\<lambda>c. c\<lparr>tl_session_begin_err := tl_session_begin_err c + 1\<rparr>) t"

definition error_snapshot :: "(er_error \<Rightarrow> string) \<Rightarrow> er_error \<Rightarrow> router_error_snapshot" where
  "error_snapshot show err =
     (case first_json_rpc (er_chain err) of
        Some (code, message) \<Rightarrow> \<lparr>es_code = Some code, es_message = message\<rparr>
      | None \<Rightarrow>
          (case first_request (er_chain err) of
             Some r \<Rightarrow> \<lparr>es_code = None, es_message = show (ErRequest r)\<rparr>
           | None \<Rightarrow> \<lparr>es_code = None, es_message = show err\<rparr>))"

definition record_last_router_error :: "(er_error \<Rightarrow> string) \<Rightarrow> er_error \<Rightarrow> er_telemetry \<Rightarrow> er_telemetry" where
  "record_last_router_error show err t = t\<lparr>te_last_router_error := Some (error_snapshot show err)\<rparr>"

definition record_route :: "nat option \<Rightarrow> bool \<Rightarrow> er_telemetry \<Rightarrow> er_telemetry" where
  "record_route duration success t =
     (if success
      then (let t = on_counters (\<lambda>c. c\<lparr>tl_routes_ok := tl_routes_ok c + 1\<rparr>) t
            in case duration of None \<Rightarrow> t | Some dur \<Rightarrow> t\<lparr>te_route_ms := push_sample dur (te_route_ms t)\<rparr>)
      else on_counters (\<lambda>c. c\<lparr>tl_routes_err := tl_routes_err c + 1\<rparr>) t)"

definition record_blockhash :: "bool \<Rightarrow> er_telemetry \<Rightarrow> er_telemetry" where
  "record_blockhash success t =
     (let t = on_counters (\<lambda>c. c\<lparr>tl_sessions := tl_sessions c + 1\<rparr>) t
      in if success then on_counters (\<lambda>c. c\<lparr>tl_successes := tl_successes c + 1\<rparr>) t else t)"

definition record_bhfa_success :: "nat \<Rightarrow> er_telemetry \<Rightarrow> er_telemetry" where
  "record_bhfa_success duration t =
     (let t = on_counters (\<lambda>c. c\<lparr>tl_bhfa_ok := tl_bhfa_ok c + 1\<rparr>) t in t\<lparr>te_bhfa_ms := push_sample duration (te_bhfa_ms t)\<rparr>)"

definition record_bhfa_failure :: "er_telemetry \<Rightarrow> er_telemetry" where
  "record_bhfa_failure t = on_counters (\<lambda>c. c\<lparr>tl_bhfa_err := tl_bhfa_err c + 1\<rparr>) t"

definition record_fallback :: "er_telemetry \<Rightarrow> er_telemetry" where
  "record_fallback t = on_counters (\<lambda>c. c\<lparr>tl_fallbacks := tl_fallbacks c + 1\<rparr>) t"

definition record_execute :: "nat option \<Rightarrow> bool \<Rightarrow> er_telemetry \<Rightarrow> er_telemetry" where
  "record_execute duration success t =
     (if success
      then (let t = on_counters (\<lambda>c. c\<lparr>tl_exec_ok := tl_exec_ok c + 1\<rparr>) t
            in case duration of None \<Rightarrow> t | Some dur \<Rightarrow> t\<lparr>te_exec_ms := push_sample dur (te_exec_ms t)\<rparr>)
      else on_counters (\<lambda>c. c\<lparr>tl_exec_err := tl_exec_err c + 1\<rparr>) t)"

definition record_route_cache :: "bool \<Rightarrow> er_telemetry \<Rightarrow> er_telemetry" where
  "record_route_cache hit t =
     (if hit then on_counters (\<lambda>c. c\<lparr>tl_router_cache_hits := tl_router_cache_hits c + 1\<rparr>) t
      else on_counters (\<lambda>c. c\<lparr>tl_router_cache_misses := tl_router_cache_misses c + 1\<rparr>) t)"

definition record_router_usage :: "bool \<Rightarrow> bool \<Rightarrow> er_telemetry \<Rightarrow> er_telemetry" where
  "record_router_usage simulate_used send_used t =
     (let t = (if simulate_used then on_counters (\<lambda>c. c\<lparr>tl_router_simulate := tl_router_simulate c + 1\<rparr>) t else t)
      in if send_used then on_counters (\<lambda>c. c\<lparr>tl_router_send := tl_router_send c + 1\<rparr>) t else t)"

definition record_dp_begin :: "bool \<Rightarrow> er_telemetry \<Rightarrow> er_telemetry" where
  "record_dp_begin success t =
     (if success then on_counters (\<lambda>c. c\<lparr>tl_dp_begin_ok := tl_dp_begin_ok c + 1\<rparr>) t
      else on_counters (\<lambda>c. c\<lparr>tl_dp_begin_err := tl_dp_begin_err c + 1\<rparr>) t)"

definition record_dp_execute :: "bool \<Rightarrow> er_telemetry \<Rightarrow> er_telemetry" where
  "record_dp_execute success t =
     (if success then on_counters (\<lambda>c. c\<lparr>tl_dp_execute_ok := tl_dp_execute_ok c + 1\<rparr>) t
      else on_counters (\<lambda>c. c\<lparr>tl_dp_execute_err := tl_dp_execute_err c + 1\<rparr>) t)"

definition record_dp_end :: "bool \<Rightarrow> er_telemetry \<Rightarrow> er_telemetry" where
  "record_dp_end success t =
     (if success then on_counters (\<lambda>c. c\<lparr>tl_dp_end_ok := tl_dp_end_ok c + 1\<rparr>) t
      else on_counters (\<lambda>c. c\<lparr>tl_dp_end_err := tl_dp_end_err c + 1\<rparr>) t)"

definition record_blockhash_plan :: "bool \<Rightarrow> er_telemetry \<Rightarrow> er_telemetry" where
  "record_blockhash_plan hit t =
     (if hit then on_counters (\<lambda>c. c\<lparr>tl_blockhash_plan_hits := tl_blockhash_plan_hits c + 1\<rparr>) t
      else on_counters (\<lambda>c. c\<lparr>tl_blockhash_plan_misses := tl_blockhash_plan_misses c + 1\<rparr>) t)"

definition record_blockhash_cache :: "bool \<Rightarrow> er_telemetry \<Rightarrow> er_telemetry" where
  "record_blockhash_cache hit t =
     (if hit then on_counters (\<lambda>c. c\<lparr>tl_blockhash_cache_hits := tl_blockhash_cache_hits c + 1\<rparr>) t
      else on_counters (\<lambda>c. c\<lparr>tl_blockhash_cache_misses := tl_blockhash_cache_misses c + 1\<rparr>) t)"

definition record_parity_retry_router :: "er_telemetry \<Rightarrow> er_telemetry" where
  "record_parity_retry_router t = on_counters (\<lambda>c. c\<lparr>tl_parity_retry_router := tl_parity_retry_router c + 1\<rparr>) t"

definition record_small_chunk_skip :: "er_telemetry \<Rightarrow> er_telemetry" where
  "record_small_chunk_skip t = on_counters (\<lambda>c. c\<lparr>tl_small_chunk_skips := tl_small_chunk_skips c + 1\<rparr>) t"

definition record_small_chunk_merge :: "u64 \<Rightarrow> er_telemetry \<Rightarrow> er_telemetry" where
  "record_small_chunk_merge merged_count t =
     (if merged_count > 0
      then on_counters (\<lambda>c. c\<lparr>tl_merged_small_chunks := tl_merged_small_chunks c + merged_count\<rparr>) t else t)"


definition record_router_error_kind :: "router_error_kind \<Rightarrow> er_telemetry \<Rightarrow> er_telemetry" where
  "record_router_error_kind kind t =
     t\<lparr>te_router_error_kinds := btm_entry (\<lambda>n. n + 1) 1 (kind_as_str kind) (te_router_error_kinds t)\<rparr>"

section \<open>The summary\<close>

record er_telemetry_summary =
  su_counters :: er_counters
  su_route_ms_p50 :: "rat option"
  su_route_ms_p95 :: "rat option"
  su_bhfa_ms_p50 :: "rat option"
  su_bhfa_ms_p95 :: "rat option"
  su_exec_ms_p50 :: "rat option"
  su_exec_ms_p95 :: "rat option"
  su_success_rate :: rat
  su_router_error_kinds :: "(string \<times> u64) list"
  su_last_router_error_code :: "int option"
  su_last_router_error_message :: "string option"

definition percentile_index :: "nat \<Rightarrow> rat \<Rightarrow> nat" where
  "percentile_index n p = min (nat \<lceil>f64_mul (f64_sub (f64_of_nat n) 1) p\<rceil>) (n - 1)"

definition percentile :: "nat list \<Rightarrow> rat \<Rightarrow> rat option" where
  "percentile samples p =
     (if samples = [] then None
      else let s = sort_key id samples in Some (f64_of_nat (s ! percentile_index (length s) p)))"

definition f64_div :: "rat \<Rightarrow> rat \<Rightarrow> rat" where
  "f64_div a b = f64_round (a / b)"

definition er_summary :: "er_telemetry \<Rightarrow> er_telemetry_summary" where
  "er_summary t =
     (let c = te_counters t
      in \<lparr>su_counters = c,
          su_route_ms_p50 = percentile (te_route_ms t) (f64_round (1 / 2)),
          su_route_ms_p95 = percentile (te_route_ms t) (f64_round (95 / 100)),
          su_bhfa_ms_p50 = percentile (te_bhfa_ms t) (f64_round (1 / 2)),
          su_bhfa_ms_p95 = percentile (te_bhfa_ms t) (f64_round (95 / 100)),
          su_exec_ms_p50 = percentile (te_exec_ms t) (f64_round (1 / 2)),
          su_exec_ms_p95 = percentile (te_exec_ms t) (f64_round (95 / 100)),
          su_success_rate =
            (if tl_sessions c > 0 then f64_div (f64_of_nat (unat (tl_successes c))) (f64_of_nat (unat (tl_sessions c))) else 0),
          su_router_error_kinds = te_router_error_kinds t,
          su_last_router_error_code = (case te_last_router_error t of None \<Rightarrow> None | Some e \<Rightarrow> es_code e),
          su_last_router_error_message = (case te_last_router_error t of None \<Rightarrow> None | Some e \<Rightarrow> Some (es_message e))\<rparr>)"

section \<open>The sample windows\<close>

definition windows_ok :: "er_telemetry \<Rightarrow> bool" where
  "windows_ok t \<longleftrightarrow>
     length (te_route_ms t) \<le> TELEMETRY_WINDOW \<and> length (te_bhfa_ms t) \<le> TELEMETRY_WINDOW \<and> length (te_exec_ms t) \<le> TELEMETRY_WINDOW"

lemma length_push_sample: "length (push_sample ms samples) \<le> TELEMETRY_WINDOW"
  by (simp add: push_sample_def TELEMETRY_WINDOW_def)

lemma push_sample_short: "length samples < TELEMETRY_WINDOW \<Longrightarrow> push_sample ms samples = samples @ [ms]"
  by (simp add: push_sample_def Let_def)

lemma windows_ok_ops:
  assumes "windows_ok t"
  shows "windows_ok (record_route d b t)" "windows_ok (record_bhfa_success n t)" "windows_ok (record_bhfa_failure t)"
    "windows_ok (record_execute d b t)" "windows_ok (record_parity_retry_router t)" "windows_ok (record_router_usage a b t)"
    "windows_ok (record_blockhash b t)" "windows_ok (record_last_router_error show e t)" "windows_ok (record_router_error_kind k t)"
  using assms length_push_sample
  by (simp_all add: windows_ok_def record_route_def record_bhfa_success_def record_bhfa_failure_def record_execute_def
      record_parity_retry_router_def record_router_usage_def record_blockhash_def record_last_router_error_def
      record_router_error_kind_def Let_def split: option.split)

lemma windows_ok_default: "windows_ok er_telemetry_default"
  by (simp add: windows_ok_def er_telemetry_default_def)

text \<open>A percentile is one of the samples, up to the rounding of the conversion.\<close>

lemma percentile_mem:
  assumes "percentile samples p = Some x"
  shows "\<exists>n\<in>set samples. x = f64_of_nat n"
proof -
  have ne: "samples \<noteq> []" and x: "x = f64_of_nat (sort_key id samples ! percentile_index (length samples) p)"
    using assms by (auto simp: percentile_def Let_def split: if_splits)
  have "percentile_index (length samples) p < length (sort_key id samples)"
    using ne by (cases samples) (auto simp: percentile_index_def)
  then have "sort_key id samples ! percentile_index (length samples) p \<in> set samples"
    using nth_mem [of "percentile_index (length samples) p" "sort_key id samples"] by simp
  with x show ?thesis by blast
qed
end
