(* ===== verification/Er.thy ===== *)
theory Er
  imports Telemetry Intents
begin

text \<open>
  The ephemeral-rollup client of bundler/src/er/mod.rs (\<open>ErHttpClientInner\<close>): route discovery with its cache, blockhashes
  for accounts (BHFA), and the execution of a list of intents under a submit policy.

  Beside the HTTP layer of Router.thy the environment \<open>er_env\<close> holds the third-party pieces: header values,
  the text form of a hash, the decoding of the router's routes and errors by serde, the
  construction and signature of a transaction and its base64 form. The client's own state extends \<open>router_world\<close>. The
  wiretap only writes files and is left out, except for its guard, which can fail a call.
\<close>

section \<open>Calls that can fail\<close>

definition on_ok :: "('e + 'a) \<times> 's \<Rightarrow> ('a \<Rightarrow> 's \<Rightarrow> ('e + 'b) \<times> 's) \<Rightarrow> ('e + 'b) \<times> 's" where
  "on_ok r k = (case r of (Inl e, s) \<Rightarrow> (Inl e, s) | (Inr x, s) \<Rightarrow> k x s)"

definition with_context :: "string \<Rightarrow> (er_error + 'a) \<times> 's \<Rightarrow> (er_error + 'a) \<times> 's" where
  "with_context c r = (case r of (Inl e, s) \<Rightarrow> (Inl (ErContext c e), s) | (Inr x, s) \<Rightarrow> (Inr x, s))"

definition ensure :: "bool \<Rightarrow> er_failure \<Rightarrow> 's \<Rightarrow> (er_error + unit) \<times> 's" where
  "ensure b f s = (if b then Inr () else Inl (ErText f), s)"

definition get_or :: "er_failure \<Rightarrow> 'a option \<Rightarrow> 's \<Rightarrow> (er_error + 'a) \<times> 's" where
  "get_or f x s = (case x of None \<Rightarrow> (Inl (ErText f), s) | Some v \<Rightarrow> (Inr v, s))"

lemma on_ok_simps [simp]:
  "on_ok (Inl e, s) k = (Inl e, s)" "on_ok (Inr x, s) k = k x s"
  by (simp_all add: on_ok_def)

lemma on_ok_Inr: "on_ok r k = (Inr y, t) \<longleftrightarrow> (\<exists>x s. r = (Inr x, s) \<and> k x s = (Inr y, t))"
  by (auto simp: on_ok_def split: prod.splits sum.splits)

section \<open>Configuration and data\<close>

datatype er_privacy_mode = PublicMode | PrivateMode

fun privacy_as_str :: "er_privacy_mode \<Rightarrow> string" where
  "privacy_as_str PublicMode = ''public''"
| "privacy_as_str PrivateMode = ''private''"

record 'u er_client_config =
  cf_endpoint_override :: "'u option"
  cf_retries :: nat
  cf_privacy_mode :: er_privacy_mode
  cf_router_url :: 'u
  cf_router_api_key :: "string option"
  cf_route_cache_ttl :: nat
  cf_circuit_breaker_failures :: u32
  cf_circuit_breaker_cooldown :: nat
  cf_blockhash_cache_ttl :: nat
  cf_min_cu_threshold :: u64
  cf_merge_small_intents :: bool
  cf_require_router :: bool
  cf_wiretap_verify_blockhash :: bool
  cf_skip_preflight_on_router :: bool
  cf_skip_preflight_on_override :: bool

definition breaker_of :: "'u er_client_config \<Rightarrow> 'u breaker_config" where
  "breaker_of cfg =
     \<lparr>bk_router_url = cf_router_url cfg, bk_failures = cf_circuit_breaker_failures cfg,
      bk_cooldown = cf_circuit_breaker_cooldown cfg, bk_retries = cf_retries cfg\<rparr>"

record 'u er_route_info =
  ri_endpoint :: 'u
  ri_ttl :: nat
  ri_fetched_at :: nat
  ri_cache_hit :: bool

datatype blockhash_source = FromRouter | FromRouteEndpoint

fun source_as_str :: "blockhash_source \<Rightarrow> string" where
  "source_as_str FromRouter = ''router''"
| "source_as_str FromRouteEndpoint = ''route_endpoint''"

datatype submit_policy = RouterNoPreflight | RpcSimulateThenSend | OverrideThenRouterParityRetry

fun policy_as_str :: "submit_policy \<Rightarrow> string" where
  "policy_as_str RouterNoPreflight = ''router_no_preflight''"
| "policy_as_str RpcSimulateThenSend = ''rpc_simulate_then_send''"
| "policy_as_str OverrideThenRouterParityRetry = ''override_then_router_parity_retry''"

record 'u er_blockhash =
  eb_hash :: hash32
  eb_last_valid_block_height :: u64
  eb_fetched_from :: 'u
  eb_source :: blockhash_source
  eb_request_id :: u64

record 'u er_blockhash_plan =
  bp_route :: "'u er_route_info"
  bp_blockhash :: "'u er_blockhash"
  bp_route_duration :: nat
  bp_blockhash_duration :: nat
  bp_blockhash_fetched_at :: nat

record 'u er_hosts =
  ho_bhfa :: 'u
  ho_submit :: 'u

definition resolve_hosts :: "'u er_client_config \<Rightarrow> 'u er_hosts" where
  "resolve_hosts cfg =
     (case cf_endpoint_override cfg of
        Some override_url \<Rightarrow> \<lparr>ho_bhfa = cf_router_url cfg, ho_submit = override_url\<rparr>
      | None \<Rightarrow> \<lparr>ho_bhfa = cf_router_url cfg, ho_submit = cf_router_url cfg\<rparr>)"

record 'u er_session =
  sn_id :: string
  sn_route :: "'u er_route_info"
  sn_endpoint :: 'u
  sn_hosts :: "'u er_hosts"
  sn_accounts :: "pubkey list"
  sn_started_at :: nat
  sn_route_duration :: nat
  sn_blockhash_plan :: "'u er_blockhash_plan option"
  sn_data_plane :: bool
  sn_fallback_reason :: "string option"

record 'u er_output =
  eo_settlement_instructions :: "instruction list"
  eo_settlement_accounts :: "pubkey list"
  eo_plan_fingerprint :: "hash32 option"
  eo_blockhash_plan :: "'u er_blockhash_plan option"
  eo_signature :: "string option"
  eo_preflight_skipped :: bool
  eo_submit_policy :: submit_policy
  eo_final_submit_host :: 'u
  eo_parity_retry :: bool

record 'u cached_route_entry =
  ca_endpoint :: 'u
  ca_fetched_at :: nat
  ca_ttl :: nat

record router_rpc_route =
  rr_fqdn :: string
  rr_ttl_ms :: "nat option"
  rr_privacy :: "string option"

section \<open>Environment and state\<close>

record ('u, 'j, 'w, 'tx) er_env =
  ee_net :: "('u, 'j, 'w, string) net_env"
  ee_header_value :: "string \<Rightarrow> string option"
  ee_hash_from_str :: "string \<Rightarrow> hash32 option"
  ee_hash_to_string :: "hash32 \<Rightarrow> string"
  ee_decode_routes :: "'j \<Rightarrow> router_rpc_route list option"
  ee_decode_error :: "'j \<Rightarrow> (int \<times> string) option"
  ee_sign :: "instruction list \<Rightarrow> hash32 \<Rightarrow> string + 'tx"
  ee_encode :: "'tx \<Rightarrow> string + string"
  ee_tx_blockhash :: "'tx \<Rightarrow> hash32"
  ee_tx_signature_ready :: "'tx \<Rightarrow> bool"

record er_blockhash_entry =
  be_hash :: hash32
  be_fetched_at :: nat

record ('u, 'w) er_client = "('u, 'w, string) router_world" +
  ec_route_cache :: "'u cached_route_entry option"
  ec_blockhash_cache :: "er_blockhash_entry option"
  ec_router_bhfa_degraded :: bool
  ec_next_request_id :: u64
  ec_telemetry :: "er_telemetry option"

definition er_client_new :: "er_telemetry option \<Rightarrow> u64 \<Rightarrow> 'w \<Rightarrow> ('u, 'w) er_client" where
  "er_client_new telemetry request_id net =
     \<lparr>rw_net = net, rw_circuit = circuit_default, rw_requests = [], rw_sleeps = [], ec_route_cache = None,
      ec_blockhash_cache = None, ec_router_bhfa_degraded = False, ec_next_request_id = request_id, ec_telemetry = telemetry\<rparr>"

definition next_router_request_id :: "('u, 'w) er_client \<Rightarrow> u64 \<times> ('u, 'w) er_client" where
  "next_router_request_id s = (ec_next_request_id s, s\<lparr>ec_next_request_id := ec_next_request_id s + 1\<rparr>)"

definition on_telemetry :: "(er_telemetry \<Rightarrow> er_telemetry) \<Rightarrow> ('u, 'w) er_client \<Rightarrow> ('u, 'w) er_client" where
  "on_telemetry f s = s\<lparr>ec_telemetry := map_option f (ec_telemetry s)\<rparr>"

text \<open>\<open>post_json\<close> with the errors of this module.\<close>

definition er_post ::
    "('u, 'j, 'w, 'tx) er_env \<Rightarrow> 'u er_client_config \<Rightarrow> ('u, string) http_request \<Rightarrow> ('u, 'w) er_client
      \<Rightarrow> (er_error + 'j json_response) \<times> ('u, 'w) er_client" where
  "er_post env cfg req s =
     (case post_json (ee_net env) (breaker_of cfg) req s of
        (Inr r, s) \<Rightarrow> (Inr r, s)
      | (Inl (BreakerTripped d), s) \<Rightarrow> (Inl (ErText (CircuitTripped d)), s)
      | (Inl (RequestError e), s) \<Rightarrow> (Inl (ErRequest e), s))"


section \<open>Routes\<close>

definition header_of :: "('u, 'j, 'w, 'tx) er_env \<Rightarrow> string option \<Rightarrow> 's \<Rightarrow> (er_error + string option) \<times> 's" where
  "header_of env key s =
     (case key of
        None \<Rightarrow> (Inr None, s)
      | Some k \<Rightarrow>
          (case ee_header_value env k of
             None \<Rightarrow> (Inl (ErContext ''router api key header'' (ErText BadApiKey)), s)
           | Some v \<Rightarrow> (Inr (Some v), s)))"

text \<open>\<open>with_http_client\<close>: the key of the data plane is converted once; it is \<open>None\<close> in public mode.\<close>

definition data_plane_api_key :: "('u, 'j, 'w, 'tx) er_env \<Rightarrow> 'u er_client_config \<Rightarrow> er_error + string option" where
  "data_plane_api_key env cfg =
     (case cf_privacy_mode cfg of
        PrivateMode \<Rightarrow> fst (header_of env (cf_router_api_key cfg) ())
      | PublicMode \<Rightarrow> Inr None)"

definition api_key_header_for_host ::
    "('u, 'j, 'w, 'tx) er_env \<Rightarrow> 'u er_client_config \<Rightarrow> 'u \<Rightarrow> 's \<Rightarrow> (er_error + string option) \<times> 's" where
  "api_key_header_for_host env cfg host s =
     (if cf_privacy_mode cfg = PrivateMode \<and> same_origin (ne_web (ee_net env)) host (cf_router_url cfg)
         \<and> cf_router_api_key cfg \<noteq> None
      then header_of env (cf_router_api_key cfg) s
      else (Inr None, s))"

definition getroutes_url :: "('u, 'j) web_api \<Rightarrow> 'u \<Rightarrow> 'u" where
  "getroutes_url web router_base = (case wa_join web router_base ''getRoutes'' of Some u \<Rightarrow> u | None \<Rightarrow> router_base)"

definition matches_privacy :: "er_privacy_mode \<Rightarrow> router_rpc_route \<Rightarrow> bool" where
  "matches_privacy mode route =
     (case rr_privacy route of
        Some value \<Rightarrow> to_ascii_lowercase value = to_ascii_lowercase (privacy_as_str mode)
      | None \<Rightarrow> True)"

definition cached_route :: "nat \<Rightarrow> ('u, 'w) er_client \<Rightarrow> 'u er_route_info option \<times> ('u, 'w) er_client" where
  "cached_route now s =
     (case ec_route_cache s of
        None \<Rightarrow> (None, s)
      | Some entry \<Rightarrow>
          if ca_fetched_at entry + ca_ttl entry > now
          then (Some \<lparr>ri_endpoint = ca_endpoint entry, ri_ttl = ca_ttl entry, ri_fetched_at = ca_fetched_at entry,
                      ri_cache_hit = True\<rparr>, s)
          else (None, s\<lparr>ec_route_cache := None\<rparr>))"

text \<open>What \<open>fetch_route_from_router\<close> does with a response.\<close>

definition choose_route :: "('u, 'j, 'w, 'tx) er_env \<Rightarrow> 'u er_client_config \<Rightarrow> router_rpc_route list \<Rightarrow> er_error + 'u \<times> nat" where
  "choose_route env cfg routes =
     (if routes = [] then Inl (ErText NoRoutes)
      else let routes = filter (matches_privacy (cf_privacy_mode cfg)) routes
           in if routes = [] then Inl (ErText NoRoutesForPrivacy)
              else let chosen = hd (sort_key rr_fqdn routes)
                   in case wa_parse_url (ne_web (ee_net env)) (rr_fqdn chosen) of
                        None \<Rightarrow> Inl (ErContext ''route fqdn url'' (ErText BadRouteUrl))
                      | Some endpoint \<Rightarrow>
                          if wa_scheme (ne_web (ee_net env)) endpoint \<in> {''http'', ''https''}
                          then Inr (endpoint,
                                 case rr_ttl_ms chosen of
                                   Some ttl \<Rightarrow> min ttl (cf_route_cache_ttl cfg) | None \<Rightarrow> cf_route_cache_ttl cfg)
                          else Inl (ErText (BadRouteScheme (wa_scheme (ne_web (ee_net env)) endpoint))))"

definition decode_discovery ::
    "('u, 'j, 'w, 'tx) er_env \<Rightarrow> 'u er_client_config \<Rightarrow> 'j json_response \<Rightarrow> er_error + 'u \<times> nat" where
  "decode_discovery env cfg response =
     (let web = ne_web (ee_net env); payload = jr_value response
      in if \<not> (200 \<le> jr_status response \<and> jr_status response < 300)
         then Inl (ErText (DiscoveryFailed (jr_status response)))
         else case wa_get web payload ''error'' of
                Some err \<Rightarrow>
                  (case ee_decode_error env err of
                     Some (code, message) \<Rightarrow> Inl (ErJsonRpc code message)
                   | None \<Rightarrow> Inl (ErText RouterErrorPayload))
              | None \<Rightarrow>
                  (case (case wa_get web payload ''result'' of Some v \<Rightarrow> Some v | None \<Rightarrow> wa_get web payload ''routes'') of
                     None \<Rightarrow> Inl (ErText RoutesMissing)
                   | Some v \<Rightarrow>
                       (case ee_decode_routes env v of
                          None \<Rightarrow> Inl (ErContext ''decode router routes'' (ErText RoutesUndecodable))
                        | Some routes \<Rightarrow> choose_route env cfg routes)))"

definition fetch_route_from_router ::
    "('u, 'j, 'w, 'tx) er_env \<Rightarrow> 'u er_client_config \<Rightarrow> ('u, 'w) er_client \<Rightarrow> (er_error + 'u cached_route_entry) \<times> ('u, 'w) er_client" where
  "fetch_route_from_router env cfg s =
     on_ok (case cf_privacy_mode cfg of
              PrivateMode \<Rightarrow> header_of env (cf_router_api_key cfg) s | PublicMode \<Rightarrow> (Inr None, s))
       (\<lambda>api_key_header s.
          case next_router_request_id s of
            (request_id, s) \<Rightarrow>
              on_ok (with_context ''getRoutes''
                       (er_post env cfg
                          \<lparr>hr_url = getroutes_url (ne_web (ee_net env)) (cf_router_url cfg), hr_id = request_id,
                           hr_call = GetRoutes, hr_api_key = api_key_header\<rparr> s))
                (\<lambda>response s.
                   (case decode_discovery env cfg response of
                      Inl e \<Rightarrow> Inl e
                    | Inr (endpoint, ttl) \<Rightarrow>
                        Inr \<lparr>ca_endpoint = endpoint, ca_fetched_at = ne_now (ee_net env) (rw_net s), ca_ttl = ttl\<rparr>, s)))"

definition resolve_route ::
    "('u, 'j, 'w, 'tx) er_env \<Rightarrow> 'u er_client_config \<Rightarrow> ('u, 'w) er_client \<Rightarrow> (er_error + 'u er_route_info) \<times> ('u, 'w) er_client" where
  "resolve_route env cfg s =
     (let now = ne_now (ee_net env) (rw_net s)
      in case cf_endpoint_override cfg of
           Some override_url \<Rightarrow>
             (Inr \<lparr>ri_endpoint = override_url, ri_ttl = cf_route_cache_ttl cfg, ri_fetched_at = now, ri_cache_hit = False\<rparr>, s)
         | None \<Rightarrow>
             (case cached_route now s of
                (Some route, s) \<Rightarrow> (Inr route, s)
              | (None, s) \<Rightarrow>
                  on_ok (fetch_route_from_router env cfg s)
                    (\<lambda>fresh s.
                       (Inr \<lparr>ri_endpoint = ca_endpoint fresh, ri_ttl = ca_ttl fresh, ri_fetched_at = ca_fetched_at fresh,
                             ri_cache_hit = False\<rparr>, s\<lparr>ec_route_cache := Some fresh\<rparr>))))"

section \<open>Sessions\<close>

definition begin_session_router ::
    "('u, 'j, 'w, 'tx) er_env \<Rightarrow> 'u er_client_config \<Rightarrow> pubkey list \<Rightarrow> ('u, 'w) er_client
      \<Rightarrow> (er_error + 'u er_session) \<times> ('u, 'w) er_client" where
  "begin_session_router env cfg accounts s =
     (let s = s\<lparr>ec_router_bhfa_degraded := False\<rparr>; route_start = ne_now (ee_net env) (rw_net s)
      in on_ok (resolve_route env cfg s)
           (\<lambda>route s.
              let now = ne_now (ee_net env) (rw_net s); hosts = resolve_hosts cfg
              in (Inr \<lparr>sn_id = ''router-session'', sn_route = route, sn_endpoint = ho_submit hosts, sn_hosts = hosts,
                       sn_accounts = accounts, sn_started_at = now, sn_route_duration = now - route_start,
                       sn_blockhash_plan = None, sn_data_plane = False, sn_fallback_reason = None\<rparr>, s)))"

definition begin_session ::
    "('u, 'j, 'w, 'tx) er_env \<Rightarrow> 'u er_client_config \<Rightarrow> pubkey list \<Rightarrow> ('u, 'w) er_client
      \<Rightarrow> (er_error + 'u er_session) \<times> ('u, 'w) er_client" where
  "begin_session env cfg accounts s =
     (if accounts = [] then (Inl (ErText NoAccounts), s) else begin_session_router env cfg accounts s)"

definition end_session :: "'u er_session \<Rightarrow> ('u, 'w) er_client \<Rightarrow> (er_error + unit) \<times> ('u, 'w) er_client" where
  "end_session session s = (Inr (), s)"

section \<open>Blockhashes for accounts\<close>

definition convert_blockhash_plan ::
    "('u, 'j, 'w, 'tx) er_env \<Rightarrow> 'u er_route_info \<Rightarrow> string \<Rightarrow> u64 \<Rightarrow> nat \<Rightarrow> nat \<Rightarrow> blockhash_source \<Rightarrow> 'u option \<Rightarrow> ('u, 'w) er_client
      \<Rightarrow> (er_error + 'u er_blockhash_plan) \<times> ('u, 'w) er_client" where
  "convert_blockhash_plan env route blockhash last_valid_slot route_duration blockhash_duration source fetched_from s =
     on_ok (get_or BadBlockhash (ee_hash_from_str env blockhash) s)
       (\<lambda>hash s.
          case next_router_request_id s of
            (request_id, s) \<Rightarrow>
              (Inr \<lparr>bp_route = route,
                    bp_blockhash =
                      \<lparr>eb_hash = hash, eb_last_valid_block_height = last_valid_slot,
                       eb_fetched_from = (case fetched_from of Some u \<Rightarrow> u | None \<Rightarrow> ri_endpoint route),
                       eb_source = source, eb_request_id = request_id\<rparr>,
                    bp_route_duration = route_duration, bp_blockhash_duration = blockhash_duration,
                    bp_blockhash_fetched_at = ne_now (ee_net env) (rw_net s)\<rparr>, s))"

definition parse_bhfa :: "('u, 'j, 'w, 'tx) er_env \<Rightarrow> 'j \<Rightarrow> er_error + hash32 \<times> u64" where
  "parse_bhfa env payload =
     (let web = ne_web (ee_net env)
      in case wa_get web payload ''result'' of
           None \<Rightarrow> Inl (ErText BhfaMissingResult)
         | Some result \<Rightarrow>
             (case Option.bind (wa_get web result ''blockhash'') (wa_as_str web) of
                None \<Rightarrow> Inl (ErText BhfaMissingBlockhash)
              | Some blockhash_str \<Rightarrow>
                  (case Option.bind (case wa_get web result ''lastValidBlockHeight'' of
                                       Some v \<Rightarrow> Some v | None \<Rightarrow> wa_get web result ''lastValidSlot'') (wa_as_u64 web) of
                     None \<Rightarrow> Inl (ErText BhfaMissingHeight)
                   | Some last_valid \<Rightarrow>
                       (case ee_hash_from_str env blockhash_str of
                          None \<Rightarrow> Inl (ErContext ''BHFA: invalid blockhash format'' (ErText BhfaBadHash))
                        | Some hash \<Rightarrow> Inr (hash, last_valid)))))"

definition fetch_blockhash_for_accounts_at ::
    "('u, 'j, 'w, 'tx) er_env \<Rightarrow> 'u er_client_config \<Rightarrow> 'u \<Rightarrow> pubkey list \<Rightarrow> 'u er_route_info \<Rightarrow> nat \<Rightarrow> ('u, 'w) er_client
      \<Rightarrow> (er_error + 'u er_blockhash_plan) \<times> ('u, 'w) er_client" where
  "fetch_blockhash_for_accounts_at env cfg host accounts route route_duration s =
     (let bhfa_start = ne_now (ee_net env) (rw_net s)
      in case next_router_request_id s of
           (request_id, s) \<Rightarrow>
             on_ok (api_key_header_for_host env cfg host s)
               (\<lambda>api_key_header s.
                  case er_post env cfg
                         \<lparr>hr_url = host, hr_id = request_id, hr_call = GetBlockhashForAccounts accounts,
                          hr_api_key = api_key_header\<rparr> s of
                    (Inl err, s) \<Rightarrow>
                      (Inl (ErContext ''getBlockhashForAccounts'' err), on_telemetry record_bhfa_failure s)
                  | (Inr response, s) \<Rightarrow>
                      (case parse_bhfa env (jr_value response) of
                         Inl err \<Rightarrow> (Inl (ErContext ''getBlockhashForAccounts'' err), on_telemetry record_bhfa_failure s)
                       | Inr (hash, last_valid_slot) \<Rightarrow>
                           (let bhfa_duration = ne_now (ee_net env) (rw_net s) - bhfa_start;
                                s = on_telemetry (record_bhfa_success bhfa_duration) s;
                                source = (if same_origin (ne_web (ee_net env)) host (cf_router_url cfg)
                                          then FromRouter else FromRouteEndpoint)
                            in convert_blockhash_plan env route (ee_hash_to_string env hash) last_valid_slot route_duration
                                 bhfa_duration source (Some host) s))))"


section \<open>Intents\<close>

definition compute_plan_fingerprint :: "(bytes \<Rightarrow> hash32) \<Rightarrow> user_intent list \<Rightarrow> hash32" where
  "compute_plan_fingerprint H intents =
     (if intents = [] then ZERO32
      else dhash H (ascii_bytes ''CPSR:ER_PLAN_V1'') (map (\<lambda>i. key_bytes (planner_fingerprint H i)) intents))"

fun instructions_loop :: "nat \<Rightarrow> user_intent list \<Rightarrow> instruction list \<Rightarrow> er_error + instruction list" where
  "instructions_loop idx [] out = Inr out"
| "instructions_loop idx (intent # intents) out =
     (let ix = ui_ix intent
      in if ix_program_id ix = 0 \<and> ix_accounts ix = [] \<and> ix_data ix = [] then Inl (ErText (MissingPayload idx))
         else instructions_loop (Suc idx) intents (out @ [ix]))"

definition intents_to_instructions :: "user_intent list \<Rightarrow> er_error + instruction list" where
  "intents_to_instructions intents =
     (if intents = [] then Inl (ErText NoIntents) else instructions_loop 0 intents [])"

definition build_and_sign_transaction ::
    "('u, 'j, 'w, 'tx) er_env \<Rightarrow> instruction list \<Rightarrow> hash32 \<Rightarrow> er_error + 'tx" where
  "build_and_sign_transaction env instructions recent_blockhash =
     (if instructions = [] then Inl (ErText NoInstructions)
      else case ee_sign env instructions recent_blockhash of
             Inl e \<Rightarrow> Inl (ErText (SigningFailed e))
           | Inr tx \<Rightarrow> Inr tx)"

definition encode_transaction_base64 :: "('u, 'j, 'w, 'tx) er_env \<Rightarrow> 'tx \<Rightarrow> er_error + string" where
  "encode_transaction_base64 env tx = (case ee_encode env tx of Inl e \<Rightarrow> Inl (ErText (EncodingFailed e)) | Inr b \<Rightarrow> Inr b)"

section \<open>Classification of JSON-RPC errors\<close>

text \<open>The two places of a message: the error's own, and that of its data.\<close>

definition error_messages :: "('u, 'j) web_api \<Rightarrow> 'j \<Rightarrow> string list" where
  "error_messages web error =
     (case Option.bind (wa_get web error ''message'') (wa_as_str web) of Some m \<Rightarrow> [m] | None \<Rightarrow> [])
     @ (case Option.bind (Option.bind (wa_get web error ''data'') (\<lambda>d. wa_get web d ''message'')) (wa_as_str web) of
          Some m \<Rightarrow> [m] | None \<Rightarrow> [])"

definition is_blockhash_not_found :: "('u, 'j) web_api \<Rightarrow> 'j \<Rightarrow> bool" where
  "is_blockhash_not_found web error \<longleftrightarrow>
     Option.bind (wa_get web error ''code'') (wa_as_i64 web) = Some (- 32002)
     \<or> (\<exists>m\<in>set (error_messages web error). contains_str (to_ascii_lowercase m) ''blockhash not found'')"

definition is_blockhash_domain_error :: "('u, 'j) web_api \<Rightarrow> 'j \<Rightarrow> bool" where
  "is_blockhash_domain_error web error \<longleftrightarrow>
     is_blockhash_not_found web error
     \<or> (\<exists>m\<in>set (error_messages web error). contains_str (to_ascii_lowercase m) ''blockhash'')"

definition ensure_simulation_success :: "('u, 'j) web_api \<Rightarrow> 'j \<Rightarrow> 's \<Rightarrow> (er_error + unit) \<times> 's" where
  "ensure_simulation_success web sim s =
     (if wa_get web sim ''error'' \<noteq> None then (Inl (ErText SimulationRpcError), s)
      else case Option.bind (wa_get web sim ''result'') (\<lambda>r. wa_get web r ''err'') of
             Some e \<Rightarrow> (if wa_is_null web e then (Inr (), s) else (Inl (ErText SimulationProgramError), s))
           | None \<Rightarrow> (Inr (), s))"

section \<open>Submission\<close>

definition decide_submit_policy ::
    "('u, 'j) web_api \<Rightarrow> 'u er_client_config \<Rightarrow> 'u er_hosts \<Rightarrow> bool \<Rightarrow> submit_policy" where
  "decide_submit_policy web cfg hosts bhfa_from_router =
     (if same_origin web (ho_submit hosts) (cf_router_url cfg) then RouterNoPreflight
      else if bhfa_from_router
              \<and> (case cf_endpoint_override cfg of Some u \<Rightarrow> same_origin web (ho_submit hosts) u | None \<Rightarrow> False)
      then OverrideThenRouterParityRetry
      else RpcSimulateThenSend)"

definition wiretap_bhfa_guard ::
    "('u, 'j, 'w, 'tx) er_env \<Rightarrow> 'u er_client_config \<Rightarrow> 'tx \<Rightarrow> 'u er_blockhash_plan option \<Rightarrow> 's \<Rightarrow> (er_error + unit) \<times> 's" where
  "wiretap_bhfa_guard env cfg tx plan s =
     (let status_match = (case plan of Some p \<Rightarrow> eb_hash (bp_blockhash p) = ee_tx_blockhash env tx | None \<Rightarrow> False)
      in if cf_wiretap_verify_blockhash cfg
         then on_ok (ensure status_match GuardBlockhashMismatch s)
                (\<lambda>_ s. ensure (ee_tx_signature_ready env tx) GuardSignaturesMissing s)
         else (Inr (), s))"

text \<open>The key of a data-plane call: only for the router's own origin.\<close>

definition submit_key :: "('u, 'j, 'w, 'tx) er_env \<Rightarrow> 'u er_client_config \<Rightarrow> 'u \<Rightarrow> string option" where
  "submit_key env cfg host =
     (if same_origin (ne_web (ee_net env)) host (cf_router_url cfg)
      then (case data_plane_api_key env cfg of Inr k \<Rightarrow> k | Inl _ \<Rightarrow> None) else None)"

definition simulate_tx ::
    "('u, 'j, 'w, 'tx) er_env \<Rightarrow> 'u er_client_config \<Rightarrow> 'u \<Rightarrow> string \<Rightarrow> ('u, 'w) er_client \<Rightarrow> (er_error + unit) \<times> ('u, 'w) er_client" where
  "simulate_tx env cfg host base64_tx s =
     (case next_router_request_id s of
        (request_id, s) \<Rightarrow>
          on_ok (with_context ''simulateTransaction''
                   (er_post env cfg \<lparr>hr_url = host, hr_id = request_id, hr_call = SimulateTransaction base64_tx,
                                     hr_api_key = submit_key env cfg host\<rparr> s))
            (\<lambda>sim s.
               on_ok (with_context ''simulateTransaction'' (ensure_simulation_success (ne_web (ee_net env)) (jr_value sim) s))
                 (\<lambda>_ s. (Inr (), if same_origin (ne_web (ee_net env)) host (cf_router_url cfg)
                                then on_telemetry (record_router_usage True False) s else s))))"

definition send_tx ::
    "('u, 'j, 'w, 'tx) er_env \<Rightarrow> 'u er_client_config \<Rightarrow> 'u \<Rightarrow> string option \<Rightarrow> string \<Rightarrow> bool \<Rightarrow> ('u, 'w) er_client
      \<Rightarrow> (er_error + 'j json_response) \<times> ('u, 'w) er_client" where
  "send_tx env cfg host key base64_tx skip_preflight s =
     (case next_router_request_id s of
        (request_id, s) \<Rightarrow>
          with_context ''sendTransaction''
            (er_post env cfg \<lparr>hr_url = host, hr_id = request_id, hr_call = SendTransaction base64_tx skip_preflight,
                              hr_api_key = key\<rparr> s))"

text \<open>The parity retry: a response, the host that answered last, and whether the router was tried.\<close>

definition parity_retry ::
    "('u, 'j, 'w, 'tx) er_env \<Rightarrow> 'u er_client_config \<Rightarrow> submit_policy \<Rightarrow> 'u \<Rightarrow> string \<Rightarrow> 'j json_response \<Rightarrow> ('u, 'w) er_client
      \<Rightarrow> (er_error + 'j json_response \<times> 'u \<times> bool) \<times> ('u, 'w) er_client" where
  "parity_retry env cfg policy host base64_tx send_response s =
     (let web = ne_web (ee_net env)
      in if policy = OverrideThenRouterParityRetry
            \<and> (case wa_get web (jr_value send_response) ''error'' of
                 Some err \<Rightarrow> is_blockhash_domain_error web err | None \<Rightarrow> False)
         then on_ok (send_tx env cfg (cf_router_url cfg)
                       (case data_plane_api_key env cfg of Inr k \<Rightarrow> k | Inl _ \<Rightarrow> None) base64_tx True
                       (on_telemetry record_parity_retry_router s))
                (\<lambda>router_send s. (Inr (router_send, cf_router_url cfg, True), s))
         else (Inr (send_response, host, False), s))"

definition read_signature ::
    "('u, 'j, 'w, 'tx) er_env \<Rightarrow> 'u er_client_config \<Rightarrow> 'j json_response \<Rightarrow> er_error + string" where
  "read_signature env cfg send_response =
     (let web = ne_web (ee_net env)
      in case wa_get web (jr_value send_response) ''error'' of
           Some err \<Rightarrow>
             (if cf_endpoint_override cfg \<noteq> None \<and> is_blockhash_not_found web err \<and> cf_require_router cfg
              then Inl (ErContext ''sendTransaction'' (ErText SendBlockhashMismatch))
              else Inl (ErContext ''sendTransaction'' (ErText SendRpcError)))
         | None \<Rightarrow>
             (case Option.bind (wa_get web (jr_value send_response) ''result'') (wa_as_str web) of
                None \<Rightarrow> Inl (ErContext ''sendTransaction'' (ErText SendMissingSignature))
              | Some sig \<Rightarrow> Inr sig))"


section \<open>Execution\<close>

text \<open>The first BHFA attempt, at the router; the answer is the plan or the error, or neither when it is skipped.\<close>

definition bhfa_at_router ::
    "('u, 'j, 'w, 'tx) er_env \<Rightarrow> 'u er_client_config \<Rightarrow> 'u er_session \<Rightarrow> ('u, 'w) er_client
      \<Rightarrow> ('u er_blockhash_plan option \<times> er_error option) \<times> ('u, 'w) er_client" where
  "bhfa_at_router env cfg session s =
     (let attempt_router = cf_require_router cfg \<or> cf_endpoint_override cfg = None \<or> \<not> ec_router_bhfa_degraded s
      in if attempt_router
         then (case fetch_blockhash_for_accounts_at env cfg (cf_router_url cfg) (sn_accounts session) (sn_route session)
                      (sn_route_duration session) s of
                 (Inr plan, s) \<Rightarrow> ((Some plan, None), s\<lparr>ec_router_bhfa_degraded := False\<rparr>)
               | (Inl err, s) \<Rightarrow>
                   ((None, Some err),
                    if cf_endpoint_override cfg \<noteq> None \<and> \<not> cf_require_router cfg
                    then s\<lparr>ec_router_bhfa_degraded := True\<rparr> else s))
         else ((None, None), s))"

text \<open>The second attempt, at the override host.\<close>

definition bhfa_at_override ::
    "('u, 'j, 'w, 'tx) er_env \<Rightarrow> 'u er_client_config \<Rightarrow> 'u er_session \<Rightarrow> 'u er_blockhash_plan option \<Rightarrow> ('u, 'w) er_client
      \<Rightarrow> 'u er_blockhash_plan option \<times> ('u, 'w) er_client" where
  "bhfa_at_override env cfg session plan_opt s =
     (case (if plan_opt = None \<and> \<not> cf_require_router cfg then cf_endpoint_override cfg else None) of
        None \<Rightarrow> (plan_opt, s)
      | Some fallback_host \<Rightarrow>
          (case fetch_blockhash_for_accounts_at env cfg fallback_host (sn_accounts session) (sn_route session)
                  (sn_route_duration session) s of
             (Inr plan, s) \<Rightarrow> (Some plan, s)
           | (Inl err, s) \<Rightarrow> (None, s)))"

definition acquire_plan ::
    "('u, 'j, 'w, 'tx) er_env \<Rightarrow> 'u er_client_config \<Rightarrow> 'u er_session \<Rightarrow> ('u, 'w) er_client
      \<Rightarrow> (er_error + 'u er_blockhash_plan) \<times> ('u, 'w) er_client" where
  "acquire_plan env cfg session s =
     (case bhfa_at_router env cfg session s of
        ((plan_opt, router_err), s) \<Rightarrow>
          (case bhfa_at_override env cfg session plan_opt s of
             (Some plan, s) \<Rightarrow> (Inr plan, s)
           | (None, s) \<Rightarrow>
               (if cf_require_router cfg
                then (case router_err of
                        Some err \<Rightarrow> (Inl (ErContext ''BHFA required but failed'' err), s)
                      | None \<Rightarrow> (Inl (ErText BhfaRequiredUnavailable), s))
                else (Inl (ErText BhfaUnavailable), s))))"

text \<open>Whether a local simulation runs first, and the \<open>skipPreflight\<close> of the first send.\<close>

definition run_simulation :: "'u er_client_config \<Rightarrow> submit_policy \<Rightarrow> bool" where
  "run_simulation cfg policy =
     (case policy of
        RouterNoPreflight \<Rightarrow> False
      | RpcSimulateThenSend \<Rightarrow> True
      | OverrideThenRouterParityRetry \<Rightarrow> \<not> cf_skip_preflight_on_override cfg)"

definition initial_skip_preflight :: "'u er_client_config \<Rightarrow> submit_policy \<Rightarrow> bool" where
  "initial_skip_preflight cfg policy =
     (case policy of
        RouterNoPreflight \<Rightarrow> cf_skip_preflight_on_router cfg
      | RpcSimulateThenSend \<Rightarrow> True
      | OverrideThenRouterParityRetry \<Rightarrow> cf_skip_preflight_on_override cfg)"

text \<open>The submission of signed bytes: simulate, send, retry at the router, read the signature.\<close>

definition submit_tx ::
    "('u, 'j, 'w, 'tx) er_env \<Rightarrow> 'u er_client_config \<Rightarrow> submit_policy \<Rightarrow> 'u \<Rightarrow> string \<Rightarrow> ('u, 'w) er_client
      \<Rightarrow> (er_error + string \<times> 'u \<times> bool) \<times> ('u, 'w) er_client" where
  "submit_tx env cfg policy host base64_tx s =
     on_ok (if run_simulation cfg policy then simulate_tx env cfg host base64_tx s else (Inr (), s))
       (\<lambda>_ s.
          on_ok (send_tx env cfg host (submit_key env cfg host) base64_tx (initial_skip_preflight cfg policy) s)
            (\<lambda>send_response s.
               on_ok (parity_retry env cfg policy host base64_tx send_response s)
                 (\<lambda>(response, resolved_host, retried) s.
                    (case read_signature env cfg response of
                       Inl e \<Rightarrow> (Inl e, s)
                     | Inr sig \<Rightarrow>
                         (Inr (sig, resolved_host, retried),
                          if same_origin (ne_web (ee_net env)) resolved_host (cf_router_url cfg)
                          then on_telemetry (record_router_usage False True) s else s)))))"

definition execute_router ::
    "(bytes \<Rightarrow> hash32) \<Rightarrow> ('u, 'j, 'w, 'tx) er_env \<Rightarrow> 'u er_client_config \<Rightarrow> 'u er_session \<Rightarrow> user_intent list \<Rightarrow> ('u, 'w) er_client
      \<Rightarrow> (er_error + 'u er_output) \<times> ('u, 'w) er_client" where
  "execute_router H env cfg session intents s =
     on_ok (with_context ''failed to convert intents into instructions'' (intents_to_instructions intents, s))
       (\<lambda>instructions s.
          on_ok (acquire_plan env cfg session s)
            (\<lambda>plan s.
               let policy = decide_submit_policy (ne_web (ee_net env)) cfg (sn_hosts session)
                              (eb_source (bp_blockhash plan) = FromRouter);
                   host = ho_submit (sn_hosts session)
               in on_ok (with_context ''building and signing ER transaction''
                           (build_and_sign_transaction env instructions (eb_hash (bp_blockhash plan)), s))
                    (\<lambda>tx s.
                       on_ok (wiretap_bhfa_guard env cfg tx (Some plan) s)
                         (\<lambda>_ s.
                            on_ok (with_context ''encoding ER transaction for router submission''
                                     (encode_transaction_base64 env tx, s))
                              (\<lambda>base64_tx s.
                                 on_ok (submit_tx env cfg policy host base64_tx s)
                                   (\<lambda>(sig, resolved_host, retried) s.
                                      (Inr \<lparr>eo_settlement_instructions = instructions, eo_settlement_accounts = [],
                                            eo_plan_fingerprint = Some (compute_plan_fingerprint H intents),
                                            eo_blockhash_plan = Some plan, eo_signature = Some sig,
                                            eo_preflight_skipped = (\<not> run_simulation cfg policy \<or> retried),
                                            eo_submit_policy = policy, eo_final_submit_host = resolved_host,
                                            eo_parity_retry = retried\<rparr>, s)))))))"

definition execute ::
    "(bytes \<Rightarrow> hash32) \<Rightarrow> ('u, 'j, 'w, 'tx) er_env \<Rightarrow> 'u er_client_config \<Rightarrow> 'u er_session \<Rightarrow> user_intent list \<Rightarrow> ('u, 'w) er_client
      \<Rightarrow> (er_error + 'u er_output) \<times> ('u, 'w) er_client" where
  "execute H env cfg session intents s =
     (let exec_start = ne_now (ee_net env) (rw_net s)
      in case execute_router H env cfg session intents s of
           (result, s) \<Rightarrow>
             (result, on_telemetry (record_execute (Some (ne_now (ee_net env) (rw_net s) - exec_start)) (\<not> isl result)) s))"

section \<open>The cached blockhash\<close>

definition get_latest_blockhash ::
    "('u, 'j, 'w, 'tx) er_env \<Rightarrow> 'u er_client_config \<Rightarrow> 'u \<Rightarrow> ('u, 'w) er_client \<Rightarrow> (er_error + hash32) \<times> ('u, 'w) er_client" where
  "get_latest_blockhash env cfg endpoint s =
     (case next_router_request_id s of
        (request_id, s) \<Rightarrow>
          (let caching = cf_blockhash_cache_ttl cfg > 0; now = ne_now (ee_net env) (rw_net s);
               hit = (if caching
                      then (case ec_blockhash_cache s of
                              Some entry \<Rightarrow> if now - be_fetched_at entry \<le> cf_blockhash_cache_ttl cfg then Some (be_hash entry) else None
                            | None \<Rightarrow> None)
                      else None)
           in case hit of
                Some h \<Rightarrow> (Inr h, on_telemetry (record_blockhash_cache True) s)
              | None \<Rightarrow>
                  (let s = (if caching then s\<lparr>ec_blockhash_cache := None\<rparr> else s); web = ne_web (ee_net env)
                   in on_ok (with_context ''getLatestBlockhash''
                               (er_post env cfg \<lparr>hr_url = endpoint, hr_id = request_id, hr_call = GetLatestBlockhash,
                                   hr_api_key = (case data_plane_api_key env cfg of Inr k \<Rightarrow> k | Inl _ \<Rightarrow> None)\<rparr> s))
                        (\<lambda>resp s.
                           case Option.bind (Option.bind (wa_get web (jr_value resp) ''result'')
                                  (\<lambda>r. case Option.bind (wa_get web r ''value'') (\<lambda>v. wa_get web v ''blockhash'') of
                                         Some b \<Rightarrow> Some b | None \<Rightarrow> wa_get web r ''blockhash'')) (wa_as_str web) of
                             None \<Rightarrow> (Inl (ErContext ''getLatestBlockhash'' (ErText UnexpectedPayload)), s)
                           | Some hash_str \<Rightarrow>
                               (case ee_hash_from_str env hash_str of
                                  None \<Rightarrow> (Inl (ErContext ''getLatestBlockhash'' (ErText BadBlockhash)), s)
                                | Some hash \<Rightarrow>
                                    (Inr hash,
                                     if caching
                                     then on_telemetry (record_blockhash_cache False)
                                            (s\<lparr>ec_blockhash_cache :=
                                                Some \<lparr>be_hash = hash, be_fetched_at = ne_now (ee_net env) (rw_net s)\<rparr>\<rparr>)
                                     else s))))))"


section \<open>The requests a call makes\<close>

definition added :: "('u, 'w) er_client \<Rightarrow> ('u, string) http_request list \<Rightarrow> ('u, 'w) er_client \<Rightarrow> bool" where
  "added s reqs s' \<longleftrightarrow> rw_requests s' = rw_requests s @ reqs"

lemma added_refl [simp]: "added s [] s"
  by (simp add: added_def)

lemma added_trans: "added s xs t \<Longrightarrow> added t ys u \<Longrightarrow> added s (xs @ ys) u"
  by (simp add: added_def)

lemma added_same: "added s xs t \<Longrightarrow> rw_requests u = rw_requests t \<Longrightarrow> added s xs u"
  by (simp add: added_def)

lemma added_from: "rw_requests t = rw_requests s \<Longrightarrow> added t xs u = added s xs u"
  by (simp add: added_def)

lemma requests_simps [simp]:
  "rw_requests (on_telemetry f s) = rw_requests s"
  by (simp add: on_telemetry_def)

lemma post_json_added:
  assumes "post_json net cfg req s = (r, s')" and "bk_retries cfg < usize_max"
  shows "\<exists>k. k \<le> bk_retries cfg + 1 \<and> (isl r \<or> 1 \<le> k) \<and> rw_requests s' = rw_requests s @ replicate k req"
proof -
  define ap where "ap = (should_apply_circuit (ne_web net) cfg (hr_url req) \<and> bk_failures cfg > 0)"
  obtain t c where trip: "(if ap then (case circuit_is_tripped (ne_now net (rw_net s)) (rw_circuit s) of
      (t, circ) \<Rightarrow> (t, s\<lparr>rw_circuit := circ\<rparr>)) else (None, s)) = (t, s\<lparr>rw_circuit := c\<rparr>)"
  proof (cases ap)
    case True
    then show thesis using that by (cases "circuit_is_tripped (ne_now net (rw_net s)) (rw_circuit s)") simp
  next
    case False
    have "s\<lparr>rw_circuit := rw_circuit s\<rparr> = s" by (cases s) simp
    with False show thesis using that [of None "rw_circuit s"] by simp
  qed
  show ?thesis
  proof (cases t)
    case (Some until)
    then show ?thesis using assms(1) trip by (auto simp: post_json_def Let_def ap_def intro!: exI [of _ 0])
  next
    case None
    obtain res s1 where send: "send_with_retries net (bk_retries cfg) req (s\<lparr>rw_circuit := c\<rparr>) = (res, s1)"
      by (cases "send_with_retries net (bk_retries cfg) req (s\<lparr>rw_circuit := c\<rparr>)")
    obtain k where k: "1 \<le> k" "k \<le> bk_retries cfg + 1" "rw_requests s1 = rw_requests s @ replicate k req"
      using send_with_retries_sent [OF send assms(2)] by (auto simp: sent_def)
    have "rw_requests s' = rw_requests s1"
      using assms(1) trip None send by (auto simp: post_json_def Let_def ap_def split: if_splits)
    with k show ?thesis by auto
  qed
qed

lemma er_post_added:
  assumes "er_post env cfg req s = (r, s')" and "cf_retries cfg < usize_max"
  obtains k where "k \<le> cf_retries cfg + 1" "isl r \<or> 1 \<le> k" "added s (replicate k req) s'"
proof -
  obtain r1 where p: "post_json (ee_net env) (breaker_of cfg) req s = (r1, s')" and r: "isl r1 = isl r"
    using assms(1) by (auto simp: er_post_def split: prod.splits sum.splits post_error.splits)
  have "bk_retries (breaker_of cfg) = cf_retries cfg" by (simp add: breaker_of_def)
  then show thesis using post_json_added [OF p] assms(2) r that by (auto simp: added_def)
qed

definition key_ok :: "('u, 'j, 'w, 'tx) er_env \<Rightarrow> 'u er_client_config \<Rightarrow> 'u \<Rightarrow> string option \<Rightarrow> bool" where
  "key_ok env cfg url key \<longleftrightarrow>
     key = None \<or> cf_privacy_mode cfg = PrivateMode \<and> same_origin (ne_web (ee_net env)) url (cf_router_url cfg)"

text \<open>The repetitions of one request.\<close>

definition burst ::
    "('u, 'j, 'w, 'tx) er_env \<Rightarrow> 'u er_client_config \<Rightarrow> 'u \<Rightarrow> string rpc_call \<Rightarrow> ('u, string) http_request list \<Rightarrow> bool" where
  "burst env cfg url call reqs \<longleftrightarrow>
     (\<exists>k rid key. k \<le> cf_retries cfg + 1 \<and> key_ok env cfg url key
        \<and> reqs = replicate k \<lparr>hr_url = url, hr_id = rid, hr_call = call, hr_api_key = key\<rparr>)"

lemma burst_Nil [simp]: "burst env cfg url call []"
  by (auto simp: burst_def key_ok_def intro!: exI [of _ 0])

lemma burst_mem:
  "burst env cfg url call reqs \<Longrightarrow> r \<in> set reqs \<Longrightarrow> hr_url r = url \<and> hr_call r = call \<and> key_ok env cfg url (hr_api_key r)"
  by (auto simp: burst_def)

lemma burst_length: "burst env cfg url call reqs \<Longrightarrow> length reqs \<le> cf_retries cfg + 1"
  by (auto simp: burst_def)

lemma er_post_burst:
  assumes "er_post env cfg \<lparr>hr_url = url, hr_id = rid, hr_call = call, hr_api_key = key\<rparr> s = (r, s')"
    and "cf_retries cfg < usize_max" and "key_ok env cfg url key" and "rw_requests s = rw_requests s0"
  shows "\<exists>reqs. added s0 reqs s' \<and> burst env cfg url call reqs \<and> (isl r \<or> reqs \<noteq> [])"
proof -
  obtain k where "k \<le> cf_retries cfg + 1" "isl r \<or> 1 \<le> k"
    "added s (replicate k \<lparr>hr_url = url, hr_id = rid, hr_call = call, hr_api_key = key\<rparr>) s'"
    using er_post_added [OF assms(1,2)] by blast
  then show ?thesis using assms(3,4)
    by (intro exI [of _ "replicate k \<lparr>hr_url = url, hr_id = rid, hr_call = call, hr_api_key = key\<rparr>"])
      (auto simp: burst_def added_def)
qed

lemma header_of_keeps: "header_of env key s = (r, s') \<Longrightarrow> s' = s"
  by (auto simp: header_of_def split: option.splits)

lemma data_plane_key: "data_plane_api_key env cfg = Inr k \<Longrightarrow> k = None \<or> cf_privacy_mode cfg = PrivateMode"
  by (cases "cf_privacy_mode cfg") (auto simp: data_plane_api_key_def)

lemma same_origin_refl [simp]: "same_origin web u u"
  by (simp add: same_origin_def)

lemma submit_key_ok: "key_ok env cfg url (submit_key env cfg url)"
  by (auto simp: submit_key_def key_ok_def dest: data_plane_key split: sum.splits)

lemma router_key_ok: "key_ok env cfg (cf_router_url cfg) (case data_plane_api_key env cfg of Inr k \<Rightarrow> k | Inl _ \<Rightarrow> None)"
  by (cases "data_plane_api_key env cfg") (auto simp: key_ok_def dest: data_plane_key)

lemma host_key_ok:
  "api_key_header_for_host env cfg host s = (r, s') \<Longrightarrow> s' = s \<and> (\<forall>k. r = Inr k \<longrightarrow> key_ok env cfg host k)"
  by (auto simp: api_key_header_for_host_def key_ok_def dest: header_of_keeps split: if_splits)

lemma next_id_requests: "next_router_request_id s = (i, s') \<Longrightarrow> rw_requests s' = rw_requests s"
  by (auto simp: next_router_request_id_def)

text \<open>What a BHFA plan says about where it comes from.\<close>

definition plan_from :: "('u, 'j, 'w, 'tx) er_env \<Rightarrow> 'u er_client_config \<Rightarrow> 'u \<Rightarrow> 'u er_blockhash_plan \<Rightarrow> bool" where
  "plan_from env cfg host plan \<longleftrightarrow>
     eb_fetched_from (bp_blockhash plan) = host
     \<and> (eb_source (bp_blockhash plan) = FromRouter \<longleftrightarrow> same_origin (ne_web (ee_net env)) host (cf_router_url cfg))"

lemma convert_plan:
  "convert_blockhash_plan env route b l d1 d2 (if same_origin (ne_web (ee_net env)) host (cf_router_url cfg) then FromRouter else FromRouteEndpoint)
     (Some host) s = (r, s') \<Longrightarrow> rw_requests s' = rw_requests s \<and> (\<forall>plan. r = Inr plan \<longrightarrow> plan_from env cfg host plan)"
  by (auto simp: convert_blockhash_plan_def get_or_def next_router_request_id_def plan_from_def split: option.splits if_splits)

lemma fetch_bhfa_requests:
  assumes "fetch_blockhash_for_accounts_at env cfg host accounts route d s = (r, s')" and "cf_retries cfg < usize_max"
  shows "\<exists>reqs. added s reqs s' \<and> burst env cfg host (GetBlockhashForAccounts accounts) reqs
     \<and> (\<forall>plan. r = Inr plan \<longrightarrow> reqs \<noteq> [] \<and> plan_from env cfg host plan)"
proof -
  obtain rid s1 where i: "next_router_request_id s = (rid, s1)" by (cases "next_router_request_id s")
  obtain kr s2 where k: "api_key_header_for_host env cfg host s1 = (kr, s2)" by (cases "api_key_header_for_host env cfg host s1")
  note k' = host_key_ok [OF k] and i' = next_id_requests [OF i]
  show ?thesis
  proof (cases kr)
    case (Inl e)
    then show ?thesis using assms(1) i' k' by (auto simp: fetch_blockhash_for_accounts_at_def Let_def i k added_def intro!: exI [of _ "[]"])
  next
    case (Inr key)
    obtain pr s3 where p: "er_post env cfg \<lparr>hr_url = host, hr_id = rid, hr_call = GetBlockhashForAccounts accounts, hr_api_key = key\<rparr> s1 = (pr, s3)"
      by (cases "er_post env cfg \<lparr>hr_url = host, hr_id = rid, hr_call = GetBlockhashForAccounts accounts, hr_api_key = key\<rparr> s1")
    obtain reqs where reqs: "added s reqs s3" "burst env cfg host (GetBlockhashForAccounts accounts) reqs" "isl pr \<or> reqs \<noteq> []"
      using er_post_burst [OF p assms(2) _ i'] k' Inr by auto
    have kk: "api_key_header_for_host env cfg host s1 = (Inr key, s1)" using k k' Inr by simp
    have "rw_requests s' = rw_requests s3 \<and> (\<forall>plan. r = Inr plan \<longrightarrow> \<not> isl pr \<and> plan_from env cfg host plan)"
    proof (cases pr)
      case (Inl e)
      then show ?thesis using assms(1) by (auto simp: fetch_blockhash_for_accounts_at_def i kk p)
    next
      case (Inr response)
      show ?thesis
      proof (cases "parse_bhfa env (jr_value response)")
        case (Inl e)
        then show ?thesis using assms(1) Inr by (auto simp: fetch_blockhash_for_accounts_at_def i kk p)
      next
        case (Inr hl)
        then show ?thesis using assms(1) \<open>pr = Inr response\<close>
          by (cases hl) (auto simp: fetch_blockhash_for_accounts_at_def i kk p Let_def dest!: convert_plan)
      qed
    qed
    with reqs show ?thesis by (auto simp: added_def)
  qed
qed

text \<open>The BHFA phase: a burst at the router, then one at the override host.\<close>

lemma acquire_plan_requests:
  assumes "acquire_plan env cfg session s = (r, s')" and "cf_retries cfg < usize_max"
  shows "\<exists>b1 b2. added s (b1 @ b2) s'
     \<and> burst env cfg (cf_router_url cfg) (GetBlockhashForAccounts (sn_accounts session)) b1
     \<and> (b2 \<noteq> [] \<longrightarrow> (\<exists>u. cf_endpoint_override cfg = Some u \<and> \<not> cf_require_router cfg
            \<and> burst env cfg u (GetBlockhashForAccounts (sn_accounts session)) b2))
     \<and> (\<forall>plan. r = Inr plan \<longrightarrow>
          (b1 \<noteq> [] \<and> plan_from env cfg (cf_router_url cfg) plan)
          \<or> (b2 \<noteq> [] \<and> (\<exists>u. cf_endpoint_override cfg = Some u \<and> plan_from env cfg u plan)))"
proof -
  obtain po re s1 where one: "bhfa_at_router env cfg session s = ((po, re), s1)"
    by (cases "bhfa_at_router env cfg session s") auto
  obtain po2 s2 where two: "bhfa_at_override env cfg session po s1 = (po2, s2)"
    by (cases "bhfa_at_override env cfg session po s1")
  have s2: "rw_requests s' = rw_requests s2" and plan: "\<And>plan. r = Inr plan \<Longrightarrow> po2 = Some plan"
    using assms(1) by (auto simp: acquire_plan_def one two split: option.splits if_splits)
  have "\<exists>b1. added s b1 s1 \<and> burst env cfg (cf_router_url cfg) (GetBlockhashForAccounts (sn_accounts session)) b1
      \<and> (\<forall>plan. po = Some plan \<longrightarrow> b1 \<noteq> [] \<and> plan_from env cfg (cf_router_url cfg) plan)"
  proof (cases "cf_require_router cfg \<or> cf_endpoint_override cfg = None \<or> \<not> ec_router_bhfa_degraded s")
    case False
    then show ?thesis using one by (auto simp: bhfa_at_router_def intro!: exI [of _ "[]"])
  next
    case True
    obtain fr t where f: "fetch_blockhash_for_accounts_at env cfg (cf_router_url cfg) (sn_accounts session) (sn_route session)
        (sn_route_duration session) s = (fr, t)"
      by (cases "fetch_blockhash_for_accounts_at env cfg (cf_router_url cfg) (sn_accounts session) (sn_route session)
        (sn_route_duration session) s")
    have "rw_requests s1 = rw_requests t" "\<And>plan. po = Some plan \<Longrightarrow> fr = Inr plan"
      using one True by (auto simp: bhfa_at_router_def f split: sum.splits)
    with fetch_bhfa_requests [OF f assms(2)] show ?thesis by (metis added_def)
  qed
  then obtain b1 where b1: "added s b1 s1" "burst env cfg (cf_router_url cfg) (GetBlockhashForAccounts (sn_accounts session)) b1"
    "\<forall>plan. po = Some plan \<longrightarrow> b1 \<noteq> [] \<and> plan_from env cfg (cf_router_url cfg) plan" by blast
  show ?thesis
  proof (cases "po = None \<and> \<not> cf_require_router cfg \<and> cf_endpoint_override cfg \<noteq> None")
    case False
    then have "po2 = po \<and> s2 = s1" using two by (auto simp: bhfa_at_override_def split: option.splits if_splits)
    then show ?thesis
      using b1 s2 plan by (intro exI [of _ b1] exI [of _ "[]"]) (auto simp: added_def)
  next
    case True
    then obtain u where u: "cf_endpoint_override cfg = Some u" by auto
    obtain fr t where f: "fetch_blockhash_for_accounts_at env cfg u (sn_accounts session) (sn_route session)
        (sn_route_duration session) s1 = (fr, t)"
      by (cases "fetch_blockhash_for_accounts_at env cfg u (sn_accounts session) (sn_route session)
        (sn_route_duration session) s1")
    have t: "s2 = t" "\<And>plan. po2 = Some plan \<Longrightarrow> fr = Inr plan"
      using two True u by (auto simp: bhfa_at_override_def f split: sum.splits)
    obtain b2 where b2: "added s1 b2 t" "burst env cfg u (GetBlockhashForAccounts (sn_accounts session)) b2"
      "\<forall>plan. fr = Inr plan \<longrightarrow> b2 \<noteq> [] \<and> plan_from env cfg u plan"
      using fetch_bhfa_requests [OF f assms(2)] by blast
    have "added s (b1 @ b2) s'" using b1(1) b2(1) s2 t(1) by (auto intro: added_same added_trans)
    moreover have "b2 \<noteq> [] \<and> plan_from env cfg u p" if "r = Inr p" for p
      using b2(3) t(2) plan that by blast
    ultimately show ?thesis
      using b1(2) b2(2) True u by (intro exI [of _ b1] exI [of _ b2]) simp
  qed
qed

lemma simulate_tx_requests:
  assumes "simulate_tx env cfg host b64 s = (r, s')" and "cf_retries cfg < usize_max"
  shows "\<exists>b. added s b s' \<and> burst env cfg host (SimulateTransaction b64) b \<and> (isl r \<or> b \<noteq> [])"
proof -
  obtain rid s1 where i: "next_router_request_id s = (rid, s1)" by (cases "next_router_request_id s")
  let ?req = "\<lparr>hr_url = host, hr_id = rid, hr_call = SimulateTransaction b64, hr_api_key = submit_key env cfg host\<rparr>"
  obtain pr t where p: "er_post env cfg ?req s1 = (pr, t)" by (cases "er_post env cfg ?req s1")
  obtain b where b: "added s b t" "burst env cfg host (SimulateTransaction b64) b" "isl pr \<or> b \<noteq> []"
    using er_post_burst [OF p assms(2) submit_key_ok next_id_requests [OF i]] by blast
  have "rw_requests s' = rw_requests t \<and> (isl r \<or> \<not> isl pr)"
    using assms(1)
    by (cases pr) (auto simp: simulate_tx_def i p with_context_def ensure_simulation_success_def split: option.splits if_splits)
  with b show ?thesis by (auto simp: added_def)
qed

lemma send_tx_requests:
  assumes "send_tx env cfg host key b64 skip s = (r, s')" and "cf_retries cfg < usize_max" and "key_ok env cfg host key"
  shows "\<exists>b. added s b s' \<and> burst env cfg host (SendTransaction b64 skip) b \<and> (isl r \<or> b \<noteq> [])"
proof -
  obtain rid s1 where i: "next_router_request_id s = (rid, s1)" by (cases "next_router_request_id s")
  let ?req = "\<lparr>hr_url = host, hr_id = rid, hr_call = SendTransaction b64 skip, hr_api_key = key\<rparr>"
  obtain pr t where p: "er_post env cfg ?req s1 = (pr, t)" by (cases "er_post env cfg ?req s1")
  obtain b where b: "added s b t" "burst env cfg host (SendTransaction b64 skip) b" "isl pr \<or> b \<noteq> []"
    using er_post_burst [OF p assms(2,3) next_id_requests [OF i]] by blast
  have "s' = t \<and> isl r = isl pr" using assms(1) by (cases pr) (auto simp: send_tx_def i p with_context_def)
  with b show ?thesis by auto
qed

lemma parity_requests:
  assumes "parity_retry env cfg policy host b64 send_response s = (r, s')" and "cf_retries cfg < usize_max"
  shows "\<exists>b. added s b s' \<and> burst env cfg (cf_router_url cfg) (SendTransaction b64 True) b
     \<and> (b \<noteq> [] \<longrightarrow> policy = OverrideThenRouterParityRetry)
     \<and> (\<forall>resp final retried. r = Inr (resp, final, retried) \<longrightarrow>
          (retried \<longleftrightarrow> b \<noteq> []) \<and> final = (if retried then cf_router_url cfg else host))"
proof (cases "policy = OverrideThenRouterParityRetry
    \<and> (case wa_get (ne_web (ee_net env)) (jr_value send_response) ''error'' of
         Some err \<Rightarrow> is_blockhash_domain_error (ne_web (ee_net env)) err | None \<Rightarrow> False)")
  case False
  have "parity_retry env cfg policy host b64 send_response s = (Inr (send_response, host, False), s)"
    unfolding parity_retry_def Let_def using False by (rule if_not_P)
  then have "r = Inr (send_response, host, False) \<and> s' = s" using assms(1) by simp
  then show ?thesis by (intro exI [of _ "[]"]) simp
next
  case True
  let ?key = "case data_plane_api_key env cfg of Inr k \<Rightarrow> k | Inl _ \<Rightarrow> None"
  obtain r1 s1 where one: "send_tx env cfg (cf_router_url cfg) ?key b64 True (on_telemetry record_parity_retry_router s) = (r1, s1)"
    by (cases "send_tx env cfg (cf_router_url cfg) ?key b64 True (on_telemetry record_parity_retry_router s)")
  obtain b where b: "added (on_telemetry record_parity_retry_router s) b s1"
    "burst env cfg (cf_router_url cfg) (SendTransaction b64 True) b" "isl r1 \<or> b \<noteq> []"
    using send_tx_requests [OF one assms(2) router_key_ok] by blast
  have "s' = s1 \<and> (\<forall>resp final retried. r = Inr (resp, final, retried) \<longrightarrow> \<not> isl r1 \<and> retried \<and> final = cf_router_url cfg)"
    using assms(1) one unfolding parity_retry_def Let_def if_P [OF True] by (cases r1) auto
  with b True show ?thesis by (auto simp: added_def)
qed

lemma submit_tx_requests:
  assumes "submit_tx env cfg policy host b64 s = (r, s')" and "cf_retries cfg < usize_max"
  shows "\<exists>b3 b4 b5. added s (b3 @ b4 @ b5) s'
     \<and> burst env cfg host (SimulateTransaction b64) b3
     \<and> burst env cfg host (SendTransaction b64 (initial_skip_preflight cfg policy)) b4
     \<and> burst env cfg (cf_router_url cfg) (SendTransaction b64 True) b5
     \<and> (b3 \<noteq> [] \<longrightarrow> run_simulation cfg policy) \<and> (b4 \<noteq> [] \<and> run_simulation cfg policy \<longrightarrow> b3 \<noteq> [])
     \<and> (b5 \<noteq> [] \<longrightarrow> b4 \<noteq> [] \<and> policy = OverrideThenRouterParityRetry)
     \<and> (\<forall>sig final retried. r = Inr (sig, final, retried) \<longrightarrow>
          b4 \<noteq> [] \<and> (retried \<longleftrightarrow> b5 \<noteq> []) \<and> final = (if retried then cf_router_url cfg else host))"
proof -
  obtain r1 s1 where one: "(if run_simulation cfg policy then simulate_tx env cfg host b64 s else (Inr (), s)) = (r1, s1)"
    by (cases "if run_simulation cfg policy then simulate_tx env cfg host b64 s else (Inr (), s)")
  obtain b3 where b3: "added s b3 s1" "burst env cfg host (SimulateTransaction b64) b3" "b3 \<noteq> [] \<longrightarrow> run_simulation cfg policy"
    "isl r1 \<or> (run_simulation cfg policy \<longrightarrow> b3 \<noteq> [])"
  proof (cases "run_simulation cfg policy")
    case True
    then show thesis using one simulate_tx_requests [of env cfg host b64 s r1 s1] assms(2) that by auto
  next
    case False
    then show thesis using one that [of "[]"] by simp
  qed
  show ?thesis
  proof (cases r1)
    case (Inl e)
    then show ?thesis using assms(1) b3
      by - (rule exI [of _ b3], rule exI [of _ "[]"], rule exI [of _ "[]"], auto simp: submit_tx_def one)
  next
    case (Inr u)
    obtain r2 s2 where two: "send_tx env cfg host (submit_key env cfg host) b64 (initial_skip_preflight cfg policy) s1 = (r2, s2)"
      by (cases "send_tx env cfg host (submit_key env cfg host) b64 (initial_skip_preflight cfg policy) s1")
    obtain b4 where b4: "added s1 b4 s2" "burst env cfg host (SendTransaction b64 (initial_skip_preflight cfg policy)) b4"
      "isl r2 \<or> b4 \<noteq> []"
      using send_tx_requests [OF two assms(2) submit_key_ok] by blast
    have t34: "added s (b3 @ b4) s2" using b3(1) b4(1) by (rule added_trans)
    show ?thesis
    proof (cases r2)
      case (Inl e)
      then show ?thesis using assms(1) b3 b4(2) t34 Inr
        by - (rule exI [of _ b3], rule exI [of _ b4], rule exI [of _ "[]"], auto simp: submit_tx_def one two)
    next
      case (Inr send_response)
      have p4: "b4 \<noteq> []" using b4(3) Inr by simp
      obtain r3 s3 where three: "parity_retry env cfg policy host b64 send_response s2 = (r3, s3)"
        by (cases "parity_retry env cfg policy host b64 send_response s2")
      obtain b5 where b5: "added s2 b5 s3" "burst env cfg (cf_router_url cfg) (SendTransaction b64 True) b5"
        "b5 \<noteq> [] \<longrightarrow> policy = OverrideThenRouterParityRetry"
        "\<And>resp final retried. r3 = Inr (resp, final, retried) \<Longrightarrow>
          (retried \<longleftrightarrow> b5 \<noteq> []) \<and> final = (if retried then cf_router_url cfg else host)"
        using parity_requests [OF three assms(2)] by blast
      have t345: "added s (b3 @ b4 @ b5) s3" using added_trans [OF t34 b5(1)] by simp
      have out: "rw_requests s' = rw_requests s3"
        "\<And>sig final retried. r = Inr (sig, final, retried) \<Longrightarrow> \<exists>resp. r3 = Inr (resp, final, retried)"
        using assms(1) Inr \<open>r1 = Inr u\<close>
        by (cases r3; auto simp: submit_tx_def one two three split: sum.splits if_splits prod.splits)+
      have "added s (b3 @ b4 @ b5) s'" using t345 out(1) by (rule added_same)
      then show ?thesis using b3 b4(2) p4 b5(2,3) out(2) b5(4) \<open>r1 = Inr u\<close>
        by - (rule exI [of _ b3], rule exI [of _ b4], rule exI [of _ b5], fastforce)
    qed
  qed
qed

lemma instructions_loop_ok: "instructions_loop idx intents out = Inr ixs \<Longrightarrow> ixs = out @ map ui_ix intents"
  by (induction idx intents out rule: instructions_loop.induct) (auto simp: Let_def split: if_splits)

lemma intents_to_instructions_ok:
  "intents_to_instructions intents = Inr ixs \<Longrightarrow> intents \<noteq> [] \<and> ixs = map ui_ix intents"
  by (auto simp: intents_to_instructions_def dest: instructions_loop_ok split: if_splits)

text \<open>The submission phase of a run, given the plan it uses.\<close>

definition submission ::
    "('u, 'j, 'w, 'tx) er_env \<Rightarrow> 'u er_client_config \<Rightarrow> 'u er_session \<Rightarrow> user_intent list \<Rightarrow> 'u er_blockhash_plan
      \<Rightarrow> ('u, string) http_request list \<Rightarrow> ('u, string) http_request list \<Rightarrow> ('u, string) http_request list \<Rightarrow> bool" where
  "submission env cfg session intents plan b3 b4 b5 \<longleftrightarrow>
     (let policy = decide_submit_policy (ne_web (ee_net env)) cfg (sn_hosts session) (eb_source (bp_blockhash plan) = FromRouter);
          host = ho_submit (sn_hosts session)
      in \<exists>tx b64. intents \<noteq> [] \<and> ee_sign env (map ui_ix intents) (eb_hash (bp_blockhash plan)) = Inr tx \<and> ee_encode env tx = Inr b64
           \<and> burst env cfg host (SimulateTransaction b64) b3
           \<and> burst env cfg host (SendTransaction b64 (initial_skip_preflight cfg policy)) b4
           \<and> burst env cfg (cf_router_url cfg) (SendTransaction b64 True) b5
           \<and> (b3 \<noteq> [] \<longrightarrow> run_simulation cfg policy) \<and> (b4 \<noteq> [] \<and> run_simulation cfg policy \<longrightarrow> b3 \<noteq> [])
           \<and> (b5 \<noteq> [] \<longrightarrow> b4 \<noteq> [] \<and> policy = OverrideThenRouterParityRetry))"

lemma execute_router_requests:
  assumes "execute_router H env cfg session intents s = (r, s')" and "cf_retries cfg < usize_max"
  shows "\<exists>b1 b2 b3 b4 b5. rw_requests s' = rw_requests s @ (b1 @ b2) @ (b3 @ b4 @ b5)
     \<and> burst env cfg (cf_router_url cfg) (GetBlockhashForAccounts (sn_accounts session)) b1
     \<and> (b2 \<noteq> [] \<longrightarrow> (\<exists>u. cf_endpoint_override cfg = Some u \<and> \<not> cf_require_router cfg
            \<and> burst env cfg u (GetBlockhashForAccounts (sn_accounts session)) b2))
     \<and> ((b3 @ b4 @ b5 = [] \<and> isl r)
        \<or> (\<exists>plan s1. acquire_plan env cfg session s = (Inr plan, s1) \<and> submission env cfg session intents plan b3 b4 b5
             \<and> (\<forall>out. r = Inr out \<longrightarrow> b4 \<noteq> [] \<and> eo_blockhash_plan out = Some plan \<and> eo_parity_retry out = (b5 \<noteq> [])
                  \<and> eo_final_submit_host out = (if b5 \<noteq> [] then cf_router_url cfg else ho_submit (sn_hosts session)))))"
proof (cases "intents_to_instructions intents")
  case (Inl e)
  then have "isl r \<and> s' = s" using assms(1) by (auto simp: execute_router_def with_context_def)
  then show ?thesis by - (rule exI [of _ "[]"], rule exI [of _ "[]"], rule exI [of _ "[]"], rule exI [of _ "[]"], rule exI [of _ "[]"], simp)
next
  case (Inr ixs)
  then have ixs: "intents \<noteq> []" "ixs = map ui_ix intents" using intents_to_instructions_ok by auto
  obtain pr s1 where acq: "acquire_plan env cfg session s = (pr, s1)" by (cases "acquire_plan env cfg session s")
  obtain b1 b2 where b12: "rw_requests s1 = rw_requests s @ b1 @ b2"
    "burst env cfg (cf_router_url cfg) (GetBlockhashForAccounts (sn_accounts session)) b1"
    "b2 \<noteq> [] \<longrightarrow> (\<exists>u. cf_endpoint_override cfg = Some u \<and> \<not> cf_require_router cfg
            \<and> burst env cfg u (GetBlockhashForAccounts (sn_accounts session)) b2)"
    using acquire_plan_requests [OF acq assms(2)] by (auto simp: added_def)
  have stop: ?thesis if "isl r" "s' = s1"
    using that b12 by - (rule exI [of _ b1], rule exI [of _ b2], rule exI [of _ "[]"], rule exI [of _ "[]"], rule exI [of _ "[]"], simp)
  show ?thesis
  proof (cases pr)
    case (Inl e)
    then show ?thesis using assms(1) Inr acq by (intro stop) (auto simp: execute_router_def with_context_def)
  next
    case pl: (Inr plan)
    let ?policy = "decide_submit_policy (ne_web (ee_net env)) cfg (sn_hosts session) (eb_source (bp_blockhash plan) = FromRouter)"
    let ?host = "ho_submit (sn_hosts session)"
    note unf = execute_router_def with_context_def Inr acq pl Let_def
    show ?thesis
    proof (cases "build_and_sign_transaction env ixs (eb_hash (bp_blockhash plan))")
      case (Inl e)
      then show ?thesis using assms(1) by (intro stop) (auto simp: unf)
    next
      case sg: (Inr tx)
      obtain gr gs where g: "wiretap_bhfa_guard env cfg tx (Some plan) s1 = (gr, gs)"
        by (cases "wiretap_bhfa_guard env cfg tx (Some plan) s1")
      have gs: "gs = s1" using g by (auto simp: wiretap_bhfa_guard_def ensure_def on_ok_def Let_def split: if_splits)
      show ?thesis
      proof (cases "isl gr \<or> isl (encode_transaction_base64 env tx)")
        case True
        then show ?thesis using assms(1) g gs sg
          by (intro stop; cases gr; cases "encode_transaction_base64 env tx") (auto simp: unf)
      next
        case False
        then obtain b64 u where enc: "encode_transaction_base64 env tx = Inr b64" "gr = Inr u"
          by (metis isl_def sum.collapse(2))
        obtain sr t where sub: "submit_tx env cfg ?policy ?host b64 s1 = (sr, t)"
          by (cases "submit_tx env cfg ?policy ?host b64 s1")
        obtain b3 b4 b5 where b: "added s1 (b3 @ b4 @ b5) t"
          "burst env cfg ?host (SimulateTransaction b64) b3"
          "burst env cfg ?host (SendTransaction b64 (initial_skip_preflight cfg ?policy)) b4"
          "burst env cfg (cf_router_url cfg) (SendTransaction b64 True) b5"
          "b3 \<noteq> [] \<longrightarrow> run_simulation cfg ?policy" "b4 \<noteq> [] \<and> run_simulation cfg ?policy \<longrightarrow> b3 \<noteq> []"
          "b5 \<noteq> [] \<longrightarrow> b4 \<noteq> [] \<and> ?policy = OverrideThenRouterParityRetry"
          "\<forall>sig final retried. sr = Inr (sig, final, retried) \<longrightarrow>
            b4 \<noteq> [] \<and> (retried \<longleftrightarrow> b5 \<noteq> []) \<and> final = (if retried then cf_router_url cfg else ?host)"
          using submit_tx_requests [OF sub assms(2)] by blast
        have "ee_sign env ixs (eb_hash (bp_blockhash plan)) = Inr tx" "ee_encode env tx = Inr b64"
          using sg enc(1) by (auto simp: build_and_sign_transaction_def encode_transaction_base64_def split: if_splits sum.splits)
        then have subm: "submission env cfg session intents plan b3 b4 b5"
          using ixs b(2-7) by (auto simp: submission_def Let_def)
        have t: "s' = t" and out: "\<And>o'. r = Inr o' \<Longrightarrow> \<exists>sig final retried. sr = Inr (sig, final, retried)
            \<and> eo_blockhash_plan o' = Some plan \<and> eo_parity_retry o' = retried \<and> eo_final_submit_host o' = final"
          using assms(1) by (cases sr; auto simp: unf sg g gs enc sub)+
        have "rw_requests s' = rw_requests s @ (b1 @ b2) @ (b3 @ b4 @ b5)" using b(1) b12(1) t by (simp add: added_def)
        moreover have "b4 \<noteq> [] \<and> eo_blockhash_plan o' = Some plan \<and> eo_parity_retry o' = (b5 \<noteq> [])
            \<and> eo_final_submit_host o' = (if b5 \<noteq> [] then cf_router_url cfg else ?host)" if "r = Inr o'" for o'
          using out [OF that] b(8) by auto
        ultimately show ?thesis
          using b12(2,3) acq pl subm
          by - (rule exI [of _ b1], rule exI [of _ b2], rule exI [of _ b3], rule exI [of _ b4], rule exI [of _ b5], simp)
      qed
    qed
  qed
qed

lemma execute_requests:
  assumes "execute H env cfg session intents s = (r, s')"
  obtains s1 where "execute_router H env cfg session intents s = (r, s1)" "rw_requests s' = rw_requests s1"
  using assms by (auto simp: execute_def Let_def split: prod.splits)

section \<open>A router and an override host for the examples\<close>

text \<open>
  The router answers every call; the override host rejects a transaction with the JSON-RPC error \<open>code\<close> and the
  message \<open>msg\<close>.
\<close>

definition reply_code :: "(string, string) http_request \<Rightarrow> nat" where
  "reply_code req =
     (case hr_call req of
        GetBlockhashForAccounts _ \<Rightarrow> 0
      | SimulateTransaction _ \<Rightarrow> 1
      | SendTransaction _ _ \<Rightarrow> (if hr_url req = ''router'' then 2 else 3)
      | _ \<Rightarrow> 1)"

definition reply_body :: "int \<Rightarrow> string \<Rightarrow> nat \<Rightarrow> json" where
  "reply_body code msg n =
     (if n = 0 then JObj [(''result'', JObj [(''blockhash'', JStr ''abc''), (''lastValidBlockHeight'', JInt 90)])]
      else if n = 1 then JObj [(''result'', JObj [(''err'', JNull)])]
      else if n = 2 then JObj [(''result'', JStr ''sig'')]
      else JObj [(''error'', JObj [(''code'', JInt code), (''message'', JStr msg)])])"

definition demo_net :: "int \<Rightarrow> string \<Rightarrow> (string, json, nat, string) net_env" where
  "demo_net code msg =
     \<lparr>ne_web = (sample_web JNull)\<lparr>wa_from_slice := \<lambda>b. Some (reply_body code msg (unat (hd b)))\<rparr>,
      ne_http = (\<lambda>req w. (HttpResponse 200 None (Inr [of_nat (reply_code req)]), w)), ne_now = id,
      ne_gen_range_to = (\<lambda>n w. (0, w)), ne_sleep = (\<lambda>ms w. w + ms)\<rparr>"

definition demo_env :: "int \<Rightarrow> string \<Rightarrow> (string, json, nat, hash32) er_env" where
  "demo_env code msg =
     \<lparr>ee_net = demo_net code msg, ee_header_value = Some, ee_hash_from_str = (\<lambda>t. Some (of_nat (length t))),
      ee_hash_to_string = (\<lambda>h. replicate (unat h) CHR ''x''), ee_decode_routes = (\<lambda>j. None), ee_decode_error = (\<lambda>j. None),
      ee_sign = (\<lambda>ixs h. Inr h), ee_encode = (\<lambda>tx. Inr ''tx''), ee_tx_blockhash = (\<lambda>tx. tx), ee_tx_signature_ready = (\<lambda>tx. True)\<rparr>"

definition demo_config :: "string er_client_config" where
  "demo_config =
     \<lparr>cf_endpoint_override = Some ''override'', cf_retries = 0, cf_privacy_mode = PublicMode, cf_router_url = ''router'',
      cf_router_api_key = None, cf_route_cache_ttl = 1000, cf_circuit_breaker_failures = 0, cf_circuit_breaker_cooldown = 0,
      cf_blockhash_cache_ttl = 0, cf_min_cu_threshold = 0, cf_merge_small_intents = False, cf_require_router = False,
      cf_wiretap_verify_blockhash = False, cf_skip_preflight_on_router = False, cf_skip_preflight_on_override = False\<rparr>"

definition demo_session :: "string er_session" where
  "demo_session =
     \<lparr>sn_id = ''router-session'',
      sn_route = \<lparr>ri_endpoint = ''override'', ri_ttl = 1000, ri_fetched_at = 0, ri_cache_hit = False\<rparr>,
      sn_endpoint = ''override'', sn_hosts = resolve_hosts demo_config, sn_accounts = [5], sn_started_at = 0,
      sn_route_duration = 0, sn_blockhash_plan = None, sn_data_plane = False, sn_fallback_reason = None\<rparr>"

definition demo_intent :: user_intent where
  "demo_intent =
     \<lparr>ui_actor = 1, ui_ix = \<lparr>ix_program_id = 9, ix_accounts = [], ix_data = [1]\<rparr>, ui_accesses = [], ui_priority = 0,
      ui_expires_at_slot = None\<rparr>"

definition demo_run :: "int \<Rightarrow> string \<Rightarrow> (er_error + string er_output) \<times> (string, nat) er_client" where
  "demo_run code msg = execute (\<lambda>_. 0) (demo_env code msg) demo_config demo_session [demo_intent] (er_client_new None 1 0)"

lemma demo_acquire:
  "acquire_plan (demo_env code msg) demo_config demo_session (er_client_new None 1 0) = (Inr \<lparr>bp_route = sn_route demo_session,
     bp_blockhash = \<lparr>eb_hash = 3, eb_last_valid_block_height = 90, eb_fetched_from = ''router'', eb_source = FromRouter,
       eb_request_id = 2\<rparr>, bp_route_duration = 0, bp_blockhash_duration = 0, bp_blockhash_fetched_at = 0\<rparr>,
     (er_client_new None 3 0)\<lparr>rw_requests := [\<lparr>hr_url = ''router'', hr_id = 1, hr_call = GetBlockhashForAccounts [5], hr_api_key = None\<rparr>]\<rparr>)"
  by (simp add: acquire_plan_def bhfa_at_router_def bhfa_at_override_def fetch_blockhash_for_accounts_at_def Let_def
      demo_config_def demo_session_def next_router_request_id_def er_client_new_def api_key_header_for_host_def
      er_post_def post_json_def breaker_of_def send_with_retries_def sat_plus_def usize_max_def http_call_def
      demo_env_def demo_net_def sample_web_def reply_code_def reply_body_def retryable_status_def error_code_def parse_bhfa_def
      convert_blockhash_plan_def get_or_def same_origin_def on_telemetry_def)

text \<open>
  C31: A transaction is never simulated or sent without a blockhash for its accounts. Every execution first asks for one
  (the router, then the override host if the router is not required), and only with the plan it got
  does it submit, always the one signed transaction that holds the intents' instructions and the plan's blockhash:
  simulations to the submit host before the first send if the policy simulates, sends to the submit host, and a
  retry at the router with \<open>skipPreflight\<close> only under the parity policy and after a send. Each of these is one request,
  repeated at most \<open>retries + 1\<close> times. A success has sent; its report names the plan, the host that
  was used last, and whether the retry happened.
\<close>

theorem execute_submits_plan:
  assumes "execute H env cfg session intents s = (r, s')" and "cf_retries cfg < usize_max"
  shows "\<exists>bhfa b3 b4 b5. rw_requests s' = rw_requests s @ bhfa @ b3 @ b4 @ b5
    \<and> length bhfa \<le> 2 * (cf_retries cfg + 1)
    \<and> (\<forall>q\<in>set bhfa. hr_call q = GetBlockhashForAccounts (sn_accounts session)
         \<and> (hr_url q = cf_router_url cfg \<or> cf_endpoint_override cfg = Some (hr_url q) \<and> \<not> cf_require_router cfg))
    \<and> (b3 @ b4 @ b5 = [] \<and> isl r
       \<or> (\<exists>plan s1. acquire_plan env cfg session s = (Inr plan, s1) \<and> submission env cfg session intents plan b3 b4 b5
            \<and> (\<forall>out. r = Inr out \<longrightarrow> b4 \<noteq> [] \<and> eo_blockhash_plan out = Some plan \<and> eo_parity_retry out = (b5 \<noteq> [])
                 \<and> eo_final_submit_host out = (if b5 \<noteq> [] then cf_router_url cfg else ho_submit (sn_hosts session)))))"
proof -
  obtain s1 where run: "execute_router H env cfg session intents s = (r, s1)" "rw_requests s' = rw_requests s1"
    using assms(1) by (rule execute_requests)
  from execute_router_requests [OF run(1) assms(2)] obtain b1 b2 b3 b4 b5 where
    reqs: "rw_requests s1 = rw_requests s @ (b1 @ b2) @ (b3 @ b4 @ b5)"
    and b1: "burst env cfg (cf_router_url cfg) (GetBlockhashForAccounts (sn_accounts session)) b1"
    and b2: "b2 \<noteq> [] \<longrightarrow> (\<exists>u. cf_endpoint_override cfg = Some u \<and> \<not> cf_require_router cfg
          \<and> burst env cfg u (GetBlockhashForAccounts (sn_accounts session)) b2)"
    and fin: "b3 @ b4 @ b5 = [] \<and> isl r
       \<or> (\<exists>plan s1. acquire_plan env cfg session s = (Inr plan, s1) \<and> submission env cfg session intents plan b3 b4 b5
            \<and> (\<forall>out. r = Inr out \<longrightarrow> b4 \<noteq> [] \<and> eo_blockhash_plan out = Some plan \<and> eo_parity_retry out = (b5 \<noteq> [])
                 \<and> eo_final_submit_host out = (if b5 \<noteq> [] then cf_router_url cfg else ho_submit (sn_hosts session))))"
    by blast
  have "length b2 \<le> cf_retries cfg + 1" using b2 by (cases "b2 = []") (auto dest: burst_length)
  then have "length (b1 @ b2) \<le> 2 * (cf_retries cfg + 1)" using burst_length [OF b1] by simp
  moreover have "\<forall>q\<in>set (b1 @ b2). hr_call q = GetBlockhashForAccounts (sn_accounts session)
      \<and> (hr_url q = cf_router_url cfg \<or> cf_endpoint_override cfg = Some (hr_url q) \<and> \<not> cf_require_router cfg)"
    using burst_mem [OF b1] b2 by (auto dest: burst_mem)
  ultimately show ?thesis
    using reqs run(2) fin by - (rule exI [of _ "b1 @ b2"], rule exI [of _ b3], rule exI [of _ b4], rule exI [of _ b5], simp)
qed

theorem execute_submits_plan_witness:
  "\<exists>bhfa b3 b4 b5. rw_requests (snd (demo_run 0 ''x'')) = bhfa @ b3 @ b4 @ b5 \<and> length bhfa \<le> 2"
proof -
  have facts: "cf_retries demo_config < usize_max" "cf_retries demo_config = 0"
    "rw_requests (er_client_new None 1 0 :: (string, nat) er_client) = []"
    by (simp_all add: demo_config_def usize_max_def er_client_new_def)
  obtain r s' where run: "demo_run 0 ''x'' = (r, s')" by (cases "demo_run 0 ''x''")
  show ?thesis using execute_submits_plan [OF run [unfolded demo_run_def] facts(1)] by (auto simp: facts(2,3) run)
qed

text \<open>
  C32: An execution sends the router's API key only to the router: in every request of \<open>execute\<close> a key is present only in
  private mode and only if the host has the router's origin, also when transactions go to an override host. (The probes of the
  setup and the blockhash provider send it in public mode too; see \<open>Probe\<close> and \<open>Provider\<close>.)
\<close>

theorem api_key_only_to_router:
  assumes "execute H env cfg session intents s = (r, s')" and "cf_retries cfg < usize_max"
  shows "\<exists>reqs. rw_requests s' = rw_requests s @ reqs
    \<and> (\<forall>q\<in>set reqs. hr_api_key q = None
         \<or> cf_privacy_mode cfg = PrivateMode \<and> same_origin (ne_web (ee_net env)) (hr_url q) (cf_router_url cfg))"
proof -
  obtain s1 where run: "execute_router H env cfg session intents s = (r, s1)" "rw_requests s' = rw_requests s1"
    using assms(1) by (rule execute_requests)
  from execute_router_requests [OF run(1) assms(2)] obtain b1 b2 b3 b4 b5 where
    reqs: "rw_requests s1 = rw_requests s @ (b1 @ b2) @ (b3 @ b4 @ b5)"
    and b: "burst env cfg (cf_router_url cfg) (GetBlockhashForAccounts (sn_accounts session)) b1"
      "b2 \<noteq> [] \<longrightarrow> (\<exists>u. burst env cfg u (GetBlockhashForAccounts (sn_accounts session)) b2)"
      "b3 @ b4 @ b5 = [] \<or> (\<exists>plan. submission env cfg session intents plan b3 b4 b5)"
    by blast
  have key: "key_ok env cfg (hr_url q) (hr_api_key q)" if "burst env cfg u call bs" "q \<in> set bs" for u call bs q
    using burst_mem [OF that] by auto
  have "key_ok env cfg (hr_url q) (hr_api_key q)" if q: "q \<in> set ((b1 @ b2) @ (b3 @ b4 @ b5))" for q
  proof (cases "q \<in> set (b1 @ b2)")
    case True
    then show ?thesis using b(1,2) by (auto intro: key)
  next
    case False
    then have "q \<in> set b3 \<or> q \<in> set b4 \<or> q \<in> set b5" using q by auto
    then show ?thesis using b(3) by (auto simp: submission_def Let_def intro: key)
  qed
  then show ?thesis using reqs run(2) by (intro exI [of _ "(b1 @ b2) @ (b3 @ b4 @ b5)"]) (simp only: key_ok_def simp_thms, simp)
qed

definition demo_outcome :: "int \<Rightarrow> string \<Rightarrow> (bool \<times> (string \<times> string rpc_call) list) option" where
  "demo_outcome code msg =
     (case demo_run code msg of
        (Inr out, s) \<Rightarrow> Some (eo_parity_retry out, map (\<lambda>q. (hr_url q, hr_call q)) (rw_requests s))
      | (Inl e, s) \<Rightarrow> None)"

lemmas demo_eval_defs =
  demo_outcome_def demo_run_def execute_def execute_router_def intents_to_instructions_def demo_intent_def Let_def with_context_def
  demo_acquire decide_submit_policy_def build_and_sign_transaction_def wiretap_bhfa_guard_def encode_transaction_base64_def
  submit_tx_def run_simulation_def initial_skip_preflight_def simulate_tx_def send_tx_def parity_retry_def read_signature_def
  demo_config_def demo_session_def next_router_request_id_def er_client_new_def er_post_def post_json_def breaker_of_def
  send_with_retries_def sat_plus_def usize_max_def http_call_def demo_env_def demo_net_def sample_web_def reply_code_def reply_body_def
  retryable_status_def error_code_def same_origin_def on_telemetry_def ensure_simulation_success_def submit_key_def
  data_plane_api_key_def resolve_hosts_def is_retryable_jsonrpc_def is_blockhash_domain_error_def is_blockhash_not_found_def
  error_messages_def to_ascii_lowercase_def ascii_lower_def should_apply_circuit_def

text \<open>
  The parity retry also resends transactions whose preflight failed for another reason: the override host answers
  \<open>-32002\<close> with the message of a program error, the code treats the code alone as a missing blockhash, and the same
  transaction goes to the router with \<open>skipPreflight\<close>; an error that merely mentions a blockhash does so too.
  The run reports success.
\<close>

theorem parity_retry_on_any_preflight_failure:
  "demo_outcome (- 32002) ''custom program error'' =
     Some (True, [(''router'', GetBlockhashForAccounts [5]), (''override'', SimulateTransaction ''tx''),
        (''override'', SendTransaction ''tx'' False), (''router'', SendTransaction ''tx'' True)])
   \<and> demo_outcome 1 ''unsupported blockhash flag'' =
     Some (True, [(''router'', GetBlockhashForAccounts [5]), (''override'', SimulateTransaction ''tx''),
        (''override'', SendTransaction ''tx'' False), (''router'', SendTransaction ''tx'' True)])
   \<and> demo_outcome 1 ''custom program error'' = None"
proof -
  have "\<exists>i. i \<noteq> [] \<and> intents_to_instructions [demo_intent] = Inr i"
    by (simp add: intents_to_instructions_def demo_intent_def Let_def)
  then obtain i where instrs: "i \<noteq> []" "intents_to_instructions [demo_intent] = Inr i" by blast
  show ?thesis
    apply (simp add: demo_outcome_def demo_run_def execute_def execute_router_def instrs with_context_def demo_acquire)
    apply (simp add: demo_eval_defs instrs)
    done
qed

text \<open>In private mode the key goes to the router with both of its requests, and to the override host never.\<close>

definition keyed_config :: "string er_client_config" where
  "keyed_config = demo_config\<lparr>cf_privacy_mode := PrivateMode, cf_router_api_key := Some ''key''\<rparr>"

definition keyed_run :: "(er_error + string er_output) \<times> (string, nat) er_client" where
  "keyed_run = execute (\<lambda>_. 0) (demo_env (- 32002) ''x'') keyed_config demo_session [demo_intent] (er_client_new None 1 0)"

lemma keyed_acquire:
  "acquire_plan (demo_env code msg) keyed_config demo_session (er_client_new None 1 0) = (Inr \<lparr>bp_route = sn_route demo_session,
     bp_blockhash = \<lparr>eb_hash = 3, eb_last_valid_block_height = 90, eb_fetched_from = ''router'', eb_source = FromRouter,
       eb_request_id = 2\<rparr>, bp_route_duration = 0, bp_blockhash_duration = 0, bp_blockhash_fetched_at = 0\<rparr>,
     (er_client_new None 3 0)\<lparr>rw_requests :=
       [\<lparr>hr_url = ''router'', hr_id = 1, hr_call = GetBlockhashForAccounts [5], hr_api_key = Some ''key''\<rparr>]\<rparr>)"
  by (simp add: acquire_plan_def bhfa_at_router_def bhfa_at_override_def fetch_blockhash_for_accounts_at_def Let_def
      keyed_config_def demo_config_def demo_session_def next_router_request_id_def er_client_new_def api_key_header_for_host_def
      header_of_def er_post_def post_json_def breaker_of_def send_with_retries_def sat_plus_def usize_max_def http_call_def
      demo_env_def demo_net_def sample_web_def reply_code_def reply_body_def retryable_status_def error_code_def parse_bhfa_def
      convert_blockhash_plan_def get_or_def same_origin_def on_telemetry_def)

lemma keyed_requests:
  "map (\<lambda>q. (hr_url q, hr_api_key q)) (rw_requests (snd keyed_run)) =
     [(''router'', Some ''key''), (''override'', None), (''override'', None), (''router'', Some ''key'')]"
proof -
  have "\<exists>i. i \<noteq> [] \<and> intents_to_instructions [demo_intent] = Inr i"
    by (simp add: intents_to_instructions_def demo_intent_def Let_def)
  then obtain i where instrs: "i \<noteq> []" "intents_to_instructions [demo_intent] = Inr i" by blast
  show ?thesis
    apply (simp add: keyed_run_def execute_def execute_router_def instrs with_context_def keyed_acquire)
    apply (simp add: demo_eval_defs instrs keyed_config_def header_of_def api_key_header_for_host_def)
    done
qed

theorem api_key_only_to_router_witness:
  "\<exists>reqs. rw_requests (snd keyed_run) = reqs
     \<and> map (\<lambda>q. (hr_url q, hr_api_key q)) reqs =
         [(''router'', Some ''key''), (''override'', None), (''override'', None), (''router'', Some ''key'')]
     \<and> list_all (\<lambda>q. hr_api_key q = None
         \<or> same_origin (ne_web (ee_net (demo_env (- 32002) ''x''))) (hr_url q) (cf_router_url keyed_config)) reqs"
proof -
  have facts: "cf_retries keyed_config < usize_max" "rw_requests (er_client_new None 1 0 :: (string, nat) er_client) = []"
    by (simp_all add: keyed_config_def demo_config_def usize_max_def er_client_new_def)
  obtain r s' where run: "keyed_run = (r, s')" by (cases keyed_run)
  show ?thesis
    using api_key_only_to_router [OF run [unfolded keyed_run_def] facts(1)] keyed_requests
    by (auto simp: facts(2) run list_all_iff)
qed

end
