(* ===== verification/Merge.thy ===== *)
theory Merge
  imports Intents Estimator
begin

text \<open>
  The merging of small chunks, bundler/src/pipeline/rollup.rs: consecutive small chunk plans of a layer that belong to
  the same actor and do not conflict become one chunk, as long as the limits hold. Log lines (and the reasons they
  print) are left out. A computed number of compute units is a \<open>u64\<close>, whose addition wraps in a release build.
\<close>

section \<open>Data\<close>

definition ER_SMALL_MESSAGE_BYTES :: nat where
  "ER_SMALL_MESSAGE_BYTES = 400"

record chunk_estimates =
  ce_est_cu :: u64
  ce_est_msg_bytes :: nat
  ce_alt_ro_count :: nat
  ce_alt_wr_count :: nat

definition chunk_estimates_default :: chunk_estimates where
  "chunk_estimates_default = \<lparr>ce_est_cu = 0, ce_est_msg_bytes = 0, ce_alt_ro_count = 0, ce_alt_wr_count = 0\<rparr>"

record chunk_plan =
  cp_index :: nat
  cp_intents :: "user_intent list"
  cp_estimates :: chunk_estimates
  cp_merged_indices :: "nat list"

section \<open>Access maps\<close>

type_synonym access_map = "pubkey \<rightharpoonup> access_kind"

definition note_access :: "account_access \<Rightarrow> access_map \<Rightarrow> access_map" where
  "note_access access m =
     (case m (aa_pubkey access) of
        Some existing \<Rightarrow> m(aa_pubkey access \<mapsto> (if aa_access access = Writable then Writable else existing))
      | None \<Rightarrow> m(aa_pubkey access \<mapsto> aa_access access))"

definition note_intents :: "user_intent list \<Rightarrow> access_map \<Rightarrow> access_map" where
  "note_intents intents m = fold (\<lambda>intent. fold note_access (ui_accesses intent)) intents m"

definition build_access_map :: "user_intent list \<Rightarrow> access_map" where
  "build_access_map intents = note_intents intents Map.empty"

definition clashes :: "access_map \<Rightarrow> account_access \<Rightarrow> bool" where
  "clashes m access =
     (case m (aa_pubkey access) of
        Some existing \<Rightarrow> existing = Writable \<or> aa_access access = Writable
      | None \<Rightarrow> False)"

definition can_merge_intents :: "access_map \<Rightarrow> user_intent list \<Rightarrow> bool \<times> access_map" where
  "can_merge_intents m intents =
     (if list_ex (\<lambda>intent. list_ex (clashes m) (ui_accesses intent)) intents then (False, m)
      else (True, note_intents intents m))"

section \<open>\<open>merge_small_chunk_plans\<close>\<close>

text \<open>The limits of a call, and the locals of the inner loop.\<close>

record merge_limits =
  ml_min_cu_threshold :: u64
  ml_max_cu :: u64
  ml_max_message_bytes :: nat

definition merge_limits_of :: "u64 \<Rightarrow> safety_margins \<Rightarrow> merge_limits" where
  "merge_limits_of min_cu_threshold safety =
     \<lparr>ml_min_cu_threshold = min_cu_threshold, ml_max_cu = ucast (sm_max_chunk_cu safety),
      ml_max_message_bytes = max_message_bytes_with_signers safety 1\<rparr>"

record merge_state =
  mg_intents :: "user_intent list"
  mg_cu :: u64
  mg_msg :: nat
  mg_alt_ro :: nat
  mg_alt_wr :: nat
  mg_indices :: "nat list"
  mg_map :: access_map

definition merge_begin :: "chunk_plan \<Rightarrow> merge_state" where
  "merge_begin head =
     \<lparr>mg_intents = cp_intents head, mg_cu = ce_est_cu (cp_estimates head), mg_msg = ce_est_msg_bytes (cp_estimates head),
      mg_alt_ro = ce_alt_ro_count (cp_estimates head), mg_alt_wr = ce_alt_wr_count (cp_estimates head),
      mg_indices = [], mg_map = build_access_map (cp_intents head)\<rparr>"

definition merge_add :: "access_map \<Rightarrow> chunk_plan \<Rightarrow> merge_state \<Rightarrow> merge_state" where
  "merge_add m candidate g =
     \<lparr>mg_intents = mg_intents g @ cp_intents candidate,
      mg_cu = mg_cu g + ce_est_cu (cp_estimates candidate),
      mg_msg = mg_msg g + ce_est_msg_bytes (cp_estimates candidate),
      mg_alt_ro = mg_alt_ro g + ce_alt_ro_count (cp_estimates candidate),
      mg_alt_wr = mg_alt_wr g + ce_alt_wr_count (cp_estimates candidate),
      mg_indices = mg_indices g @ [cp_index candidate], mg_map = m\<rparr>"

text \<open>The inner loop: the combined head, and the plans that are left.\<close>

fun merge_candidates :: "merge_limits \<Rightarrow> pubkey \<Rightarrow> chunk_plan list \<Rightarrow> merge_state \<Rightarrow> merge_state \<times> chunk_plan list" where
  "merge_candidates lim actor [] g = (g, [])"
| "merge_candidates lim actor (candidate # rest) g =
     (if cp_intents candidate = [] then (g, candidate # rest)
      else if ce_est_cu (cp_estimates candidate) \<ge> ml_min_cu_threshold lim
              \<or> ce_est_msg_bytes (cp_estimates candidate) > ER_SMALL_MESSAGE_BYTES
      then (g, candidate # rest)
      else if ui_actor (hd (cp_intents candidate)) \<noteq> actor then (g, candidate # rest)
      else (case can_merge_intents (mg_map g) (cp_intents candidate) of
              (False, m) \<Rightarrow> (g\<lparr>mg_map := m\<rparr>, candidate # rest)
            | (True, m) \<Rightarrow>
                if mg_cu g + ce_est_cu (cp_estimates candidate) > ml_max_cu lim then (g\<lparr>mg_map := m\<rparr>, candidate # rest)
                else if mg_msg g + ce_est_msg_bytes (cp_estimates candidate) > ml_max_message_bytes lim
                then (g\<lparr>mg_map := m\<rparr>, candidate # rest)
                else merge_candidates lim actor rest (merge_add m candidate g)))"

definition merge_finish :: "chunk_plan \<Rightarrow> merge_state \<Rightarrow> chunk_plan" where
  "merge_finish head g =
     head\<lparr>cp_intents := mg_intents g,
          cp_estimates := \<lparr>ce_est_cu = mg_cu g, ce_est_msg_bytes = mg_msg g, ce_alt_ro_count = mg_alt_ro g,
                           ce_alt_wr_count = mg_alt_wr g\<rparr>,
          cp_merged_indices := mg_indices g\<rparr>"

lemma merge_candidates_length: "length (snd (merge_candidates lim actor plans g)) \<le> length plans"
  by (induction lim actor plans g rule: merge_candidates.induct) (auto intro: le_SucI split: prod.splits bool.splits)

function merge_plans :: "merge_limits \<Rightarrow> chunk_plan list \<Rightarrow> chunk_plan list" where
  "merge_plans lim [] = []"
| "merge_plans lim (head # plans) =
     (if cp_intents head = [] then head # merge_plans lim plans
      else if ce_est_cu (cp_estimates head) < ml_min_cu_threshold lim
              \<and> ce_est_msg_bytes (cp_estimates head) \<le> ER_SMALL_MESSAGE_BYTES
      then (let r = merge_candidates lim (ui_actor (hd (cp_intents head))) plans (merge_begin head)
            in if mg_indices (fst r) \<noteq> [] then merge_finish head (fst r) # merge_plans lim (snd r)
               else head\<lparr>cp_merged_indices := []\<rparr> # merge_plans lim plans)
      else head\<lparr>cp_merged_indices := []\<rparr> # merge_plans lim plans)"
  by pat_completeness auto
termination
  by (relation "measure (\<lambda>(lim, plans). length plans)") (auto simp: le_imp_less_Suc merge_candidates_length)

definition merge_small_chunk_plans :: "chunk_plan list \<Rightarrow> u64 \<Rightarrow> safety_margins \<Rightarrow> chunk_plan list" where
  "merge_small_chunk_plans plans min_cu_threshold safety = merge_plans (merge_limits_of min_cu_threshold safety) plans"

section \<open>What the access map says\<close>

definition accesses_of :: "user_intent list \<Rightarrow> account_access list" where
  "accesses_of intents = concat (map ui_accesses intents)"

lemma accesses_of_simps [simp]:
  "accesses_of [] = []" "accesses_of (i # is) = ui_accesses i @ accesses_of is"
  "accesses_of (is @ js) = accesses_of is @ accesses_of js"
  by (simp_all add: accesses_of_def)

lemma note_intents_fold: "note_intents intents m = fold note_access (accesses_of intents) m"
  by (induction intents arbitrary: m) (simp_all add: note_intents_def)

lemma note_intents_append: "note_intents (is @ js) m = note_intents js (note_intents is m)"
  by (simp add: note_intents_def)

lemma note_access_apply:
  "note_access a m pk =
     (if pk = aa_pubkey a then Some (if aa_access a = Writable \<or> m pk = Some Writable then Writable else ReadOnly) else m pk)"
  by (cases "aa_access a"; cases "m (aa_pubkey a)") (auto simp: note_access_def intro: access_kind.exhaust)

lemma fold_note_access:
  "fold note_access as Map.empty pk =
     (if \<exists>a\<in>set as. aa_pubkey a = pk \<and> aa_access a = Writable then Some Writable
      else if \<exists>a\<in>set as. aa_pubkey a = pk then Some ReadOnly else None)"
proof (induction as rule: rev_induct)
  case Nil
  then show ?case by simp
next
  case (snoc a as)
  have "fold note_access (as @ [a]) Map.empty pk = note_access a (fold note_access as Map.empty) pk" by simp
  then show ?case unfolding note_access_apply snoc.IH by auto
qed

lemma clashes_iff: "clashes (build_access_map is) b \<longleftrightarrow> (\<exists>a\<in>set (accesses_of is). conflicts a b)"
  unfolding clashes_def build_access_map_def note_intents_fold fold_note_access
  by (auto simp: conflicts_def)

definition intents_conflict :: "user_intent list \<Rightarrow> user_intent list \<Rightarrow> bool" where
  "intents_conflict is js \<longleftrightarrow> (\<exists>a\<in>set (accesses_of is). \<exists>b\<in>set (accesses_of js). conflicts a b)"

lemma can_merge_iff:
  "can_merge_intents (build_access_map is) js = (b, m) \<longleftrightarrow>
     b = (\<not> intents_conflict is js) \<and> m = (if b then build_access_map (is @ js) else build_access_map is)"
proof -
  have "list_ex (\<lambda>i. list_ex (clashes (build_access_map is)) (ui_accesses i)) js \<longleftrightarrow> intents_conflict is js"
    by (auto simp: list_ex_iff intents_conflict_def clashes_iff accesses_of_def)
  then show ?thesis
    by (auto simp: can_merge_intents_def build_access_map_def note_intents_append)
qed
section \<open>What merging does\<close>

definition small_plan :: "merge_limits \<Rightarrow> chunk_plan \<Rightarrow> bool" where
  "small_plan lim p \<longleftrightarrow>
     cp_intents p \<noteq> [] \<and> ce_est_cu (cp_estimates p) < ml_min_cu_threshold lim
     \<and> ce_est_msg_bytes (cp_estimates p) \<le> ER_SMALL_MESSAGE_BYTES"

definition plan_actor :: "chunk_plan \<Rightarrow> pubkey" where
  "plan_actor p = ui_actor (hd (cp_intents p))"

definition merged_plan :: "chunk_plan \<Rightarrow> chunk_plan list \<Rightarrow> chunk_plan" where
  "merged_plan head rest =
     (let est = map cp_estimates (head # rest)
      in head\<lparr>cp_intents := concat (map cp_intents (head # rest)),
              cp_estimates := \<lparr>ce_est_cu = sum_list (map ce_est_cu est), ce_est_msg_bytes = sum_list (map ce_est_msg_bytes est),
                               ce_alt_ro_count = sum_list (map ce_alt_ro_count est),
                               ce_alt_wr_count = sum_list (map ce_alt_wr_count est)\<rparr>,
              cp_merged_indices := map cp_index rest\<rparr>)"

text \<open>What may be merged into one chunk.\<close>

definition mergeable :: "merge_limits \<Rightarrow> chunk_plan list \<Rightarrow> bool" where
  "mergeable lim ps \<longleftrightarrow>
     (\<forall>p\<in>set ps. small_plan lim p \<and> plan_actor p = plan_actor (hd ps))
     \<and> sorted_wrt (\<lambda>p q. \<not> intents_conflict (cp_intents p) (cp_intents q)) ps
     \<and> (\<Sum>p\<leftarrow>ps. unat (ce_est_cu (cp_estimates p))) \<le> unat (ml_max_cu lim)
     \<and> (\<Sum>p\<leftarrow>ps. ce_est_msg_bytes (cp_estimates p)) \<le> ml_max_message_bytes lim"

fun group_plan :: "merge_limits \<Rightarrow> chunk_plan list \<Rightarrow> chunk_plan \<Rightarrow> bool" where
  "group_plan lim [] p = False"
| "group_plan lim [q] p = (p = (if cp_intents q = [] then q else q\<lparr>cp_merged_indices := []\<rparr>))"
| "group_plan lim (q # q' # qs) p = (mergeable lim (q # q' # qs) \<and> p = merged_plan q (q' # qs))"

text \<open>The inner loop has merged \<open>done\<close> into \<open>head\<close>.\<close>

definition merging :: "merge_limits \<Rightarrow> chunk_plan \<Rightarrow> chunk_plan list \<Rightarrow> merge_state \<Rightarrow> bool" where
  "merging lim head ds g \<longleftrightarrow>
     merge_finish head g = merged_plan head ds
     \<and> mg_map g = build_access_map (mg_intents g)
     \<and> (\<forall>p\<in>set (head # ds). small_plan lim p \<and> plan_actor p = plan_actor head)
     \<and> sorted_wrt (\<lambda>p q. \<not> intents_conflict (cp_intents p) (cp_intents q)) (head # ds)
     \<and> unat (mg_cu g) = (\<Sum>p\<leftarrow>head # ds. unat (ce_est_cu (cp_estimates p)))
     \<and> (ds \<noteq> [] \<longrightarrow> mg_cu g \<le> ml_max_cu lim \<and> mg_msg g \<le> ml_max_message_bytes lim)"

lemma merging_fields:
  assumes "merging lim head ds g"
  shows "mg_intents g = concat (map cp_intents (head # ds))" "mg_indices g = map cp_index ds"
    "mg_msg g = (\<Sum>p\<leftarrow>head # ds. ce_est_msg_bytes (cp_estimates p))"
proof -
  have fin: "merge_finish head g = merged_plan head ds" using assms by (simp add: merging_def)
  show "mg_intents g = concat (map cp_intents (head # ds))"
    using arg_cong [OF fin, of cp_intents] by (simp add: merge_finish_def merged_plan_def Let_def)
  show "mg_indices g = map cp_index ds"
    using arg_cong [OF fin, of cp_merged_indices] by (simp add: merge_finish_def merged_plan_def Let_def)
  show "mg_msg g = (\<Sum>p\<leftarrow>head # ds. ce_est_msg_bytes (cp_estimates p))"
    using arg_cong [OF fin, of cp_estimates] by (simp add: merge_finish_def merged_plan_def Let_def comp_def)
qed

lemma merging_begin: "small_plan lim head \<Longrightarrow> merging lim head [] (merge_begin head)"
  by (simp add: merging_def merge_begin_def merge_finish_def merged_plan_def Let_def)

lemma intents_conflict_concat:
  "intents_conflict (concat (map cp_intents ps)) js \<longleftrightarrow> (\<exists>p\<in>set ps. intents_conflict (cp_intents p) js)"
  by (induction ps) (auto simp: intents_conflict_def)

lemma sum_list_append_one: "sum_list (map f (xs @ [x])) = sum_list (map f xs) + (f x :: 'a::monoid_add)"
  by simp

lemma merging_add:
  assumes g: "merging lim head ds g" and p: "small_plan lim p" "plan_actor p = plan_actor head"
    and free: "\<not> intents_conflict (mg_intents g) (cp_intents p)"
    and lim: "mg_cu g + ce_est_cu (cp_estimates p) \<le> ml_max_cu lim"
      "mg_msg g + ce_est_msg_bytes (cp_estimates p) \<le> ml_max_message_bytes lim"
    and bounds: "unat (ml_min_cu_threshold lim) \<le> 2 ^ 63" "unat (ml_max_cu lim) < 2 ^ 63"
  shows "merging lim head (ds @ [p]) (merge_add (build_access_map (mg_intents g @ cp_intents p)) p g)"
proof -
  have fin: "merge_finish head g = merged_plan head ds" using g by (simp add: merging_def)
  have "merge_finish head (merge_add m p g) = merged_plan head (ds @ [p])" for m
  proof -
    have "mg_alt_ro g = (\<Sum>q\<leftarrow>head # ds. ce_alt_ro_count (cp_estimates q))"
      "mg_alt_wr g = (\<Sum>q\<leftarrow>head # ds. ce_alt_wr_count (cp_estimates q))"
      "mg_cu g = (\<Sum>q\<leftarrow>head # ds. ce_est_cu (cp_estimates q))"
      using arg_cong [OF fin, of cp_estimates] by (simp_all add: merge_finish_def merged_plan_def Let_def comp_def)
    then show ?thesis
      by (simp add: merge_finish_def merge_add_def merged_plan_def Let_def merging_fields [OF g] comp_def add.assoc)
  qed
  moreover have "unat (mg_cu g + ce_est_cu (cp_estimates p)) = unat (mg_cu g) + unat (ce_est_cu (cp_estimates p))"
  proof -
    have "unat (mg_cu g) < 2 ^ 63"
    proof (cases "ds = []")
      case True
      then show ?thesis using g bounds(1) by (auto simp: merging_def small_plan_def word_less_nat_alt)
    next
      case False
      then show ?thesis using g bounds(2) by (auto simp: merging_def word_le_nat_alt)
    qed
    moreover have "unat (ce_est_cu (cp_estimates p)) < 2 ^ 63"
      using p(1) bounds(1) by (auto simp: small_plan_def word_less_nat_alt)
    ultimately show ?thesis by (simp add: unat_word_ariths)
  qed
  moreover have "\<forall>q\<in>set (head # ds). \<not> intents_conflict (cp_intents q) (cp_intents p)"
    using free unfolding merging_fields(1) [OF g] intents_conflict_concat by blast
  ultimately show ?thesis
    using g p lim by (simp add: merging_def merge_add_def sorted_wrt_append)
qed

lemma mergeable_snoc:
  assumes "merging lim head ds g"
  shows "mergeable lim (head # ds @ [p]) \<longleftrightarrow>
     small_plan lim p \<and> plan_actor p = plan_actor head \<and> \<not> intents_conflict (mg_intents g) (cp_intents p)
     \<and> unat (mg_cu g) + unat (ce_est_cu (cp_estimates p)) \<le> unat (ml_max_cu lim)
     \<and> mg_msg g + ce_est_msg_bytes (cp_estimates p) \<le> ml_max_message_bytes lim"
  using assms unfolding mergeable_def merging_fields(3) [OF assms] merging_fields(1) [OF assms] intents_conflict_concat
  by (auto simp: merging_def sorted_wrt_append)

lemma merge_candidates_merging:
  assumes "merge_candidates lim (plan_actor head) plans g = (g', rest)" and "merging lim head ds g"
    and bounds: "unat (ml_min_cu_threshold lim) \<le> 2 ^ 63" "unat (ml_max_cu lim) < 2 ^ 63"
  shows "\<exists>more. plans = more @ rest \<and> merging lim head (ds @ more) (g'\<lparr>mg_map := build_access_map (mg_intents g')\<rparr>)
    \<and> (rest \<noteq> [] \<longrightarrow> \<not> mergeable lim (head # (ds @ more) @ [hd rest]))"
  using assms(1,2)
proof (induction plans arbitrary: g ds)
  case Nil
  then have "g' = g" "rest = []" "g\<lparr>mg_map := build_access_map (mg_intents g)\<rparr> = g"
    by (auto simp: merging_def intro: merge_state.equality)
  then show ?case using Nil.prems(2) by simp
next
  case (Cons p plans)
  have map: "mg_map g = build_access_map (mg_intents g)" using Cons.prems(2) by (simp add: merging_def)
  let ?go = "mergeable lim (head # ds @ [p])"
  note snoc = mergeable_snoc [OF Cons.prems(2), of p]
  have same: "g\<lparr>mg_map := build_access_map (mg_intents g)\<rparr> = g" using map by (auto intro: merge_state.equality)
  have le: "mg_cu g + ce_est_cu (cp_estimates p) \<le> ml_max_cu lim \<longleftrightarrow>
      unat (mg_cu g) + unat (ce_est_cu (cp_estimates p)) \<le> unat (ml_max_cu lim)" if "small_plan lim p"
  proof -
    have "unat (mg_cu g) < 2 ^ 63"
      using Cons.prems(2) bounds
      by (cases "ds = []") (auto simp: merging_def small_plan_def word_less_nat_alt word_le_nat_alt)
    moreover have "unat (ce_est_cu (cp_estimates p)) < 2 ^ 63"
      using that bounds(1) by (auto simp: small_plan_def word_less_nat_alt)
    ultimately show ?thesis by (simp add: word_le_nat_alt unat_word_ariths)
  qed
  show ?case
  proof (cases ?go)
    case True
    then have ok: "small_plan lim p" "plan_actor p = plan_actor head" "\<not> intents_conflict (mg_intents g) (cp_intents p)"
      "mg_cu g + ce_est_cu (cp_estimates p) \<le> ml_max_cu lim"
      "mg_msg g + ce_est_msg_bytes (cp_estimates p) \<le> ml_max_message_bytes lim"
      using snoc le by auto
    let ?g = "merge_add (build_access_map (mg_intents g @ cp_intents p)) p g"
    have can: "can_merge_intents (mg_map g) (cp_intents p) = (True, build_access_map (mg_intents g @ cp_intents p))"
      using ok(3) unfolding map can_merge_iff by simp
    have "merge_candidates lim (plan_actor head) plans ?g = (g', rest)"
      using Cons.prems(1) ok by (simp add: small_plan_def plan_actor_def can not_le [symmetric] del: not_le)
    from Cons.IH [OF this merging_add [OF Cons.prems(2) ok(1,2,3,4,5) bounds]]
    obtain more where "plans = more @ rest \<and> merging lim head ((ds @ [p]) @ more) (g'\<lparr>mg_map := build_access_map (mg_intents g')\<rparr>)
      \<and> (rest \<noteq> [] \<longrightarrow> \<not> mergeable lim (head # ((ds @ [p]) @ more) @ [hd rest]))" by blast
    then show ?thesis by (intro exI [of _ "p # more"]) simp
  next
    case False
    have can: "can_merge_intents (mg_map g) (cp_intents p) =
        (if intents_conflict (mg_intents g) (cp_intents p) then (False, build_access_map (mg_intents g))
         else (True, build_access_map (mg_intents g @ cp_intents p)))"
      unfolding map by (auto simp: can_merge_iff)
    have "\<exists>m. (g', rest) = (g\<lparr>mg_map := m\<rparr>, p # plans)"
    proof (cases "small_plan lim p \<and> plan_actor p = plan_actor head \<and> \<not> intents_conflict (mg_intents g) (cp_intents p)")
      case True
      then show ?thesis
        using Cons.prems(1) False snoc le
        by (auto simp: small_plan_def plan_actor_def can not_le [symmetric] simp del: not_le split: if_splits)
    next
      case no: False
      have "\<exists>m. g = g\<lparr>mg_map := m\<rparr>" by (rule exI [of _ "mg_map g"]) simp
      then show ?thesis
        using Cons.prems(1) no
        by (auto simp: small_plan_def plan_actor_def can not_le [symmetric] simp del: not_le split: if_splits)
    qed
    then obtain m where eq: "g' = g\<lparr>mg_map := m\<rparr>" "rest = p # plans" by auto
    then show ?thesis using Cons.prems(2) False same by (intro exI [of _ "[]"]) simp
  qed
qed

lemma merging_single: "\<not> small_plan lim p \<Longrightarrow> \<not> mergeable lim ([p] @ ps)"
  by (simp add: mergeable_def)

lemma merging_mergeable:
  assumes "merging lim head ds g" and "ds \<noteq> []"
  shows "mergeable lim (head # ds)"
  using assms merging_fields(3) [OF assms(1)] by (auto simp: merging_def mergeable_def word_le_nat_alt)

lemma group_plan_intents: "group_plan lim ps p \<Longrightarrow> cp_intents p = concat (map cp_intents ps)"
  by (cases "(lim, ps, p)" rule: group_plan.cases) (auto simp: merged_plan_def Let_def)

lemma groups_intents:
  "list_all2 (group_plan lim) groups ps \<Longrightarrow> concat (map cp_intents ps) = concat (map cp_intents (concat groups))"
  by (induction groups ps rule: list_all2_induct) (auto dest: group_plan_intents)

definition grouping :: "merge_limits \<Rightarrow> chunk_plan list \<Rightarrow> chunk_plan list list \<Rightarrow> chunk_plan list \<Rightarrow> bool" where
  "grouping lim plans groups merged \<longleftrightarrow>
     concat groups = plans \<and> list_all2 (group_plan lim) groups merged
     \<and> successively (\<lambda>g g'. \<not> mergeable lim (g @ [hd g'])) groups"

lemma grouping_Cons:
  assumes "grouping lim rest groups merged" and "group_plan lim (head # ms) p"
    and "rest \<noteq> [] \<longrightarrow> \<not> mergeable lim ((head # ms) @ [hd rest])"
  shows "grouping lim (head # ms @ rest) ((head # ms) # groups) (p # merged)"
proof -
  have "hd (hd groups) = hd rest \<and> rest \<noteq> []" if ne: "groups \<noteq> []"
  proof -
    obtain q qs where "groups = q # qs" using ne by (cases groups) auto
    moreover from this have "q \<noteq> []" using assms(1) by (cases q) (auto simp: grouping_def list_all2_Cons1)
    ultimately show ?thesis using assms(1) by (auto simp: grouping_def)
  qed
  then show ?thesis using assms by (auto simp: grouping_def successively_Cons)
qed

lemma merge_plans_grouping:
  assumes bounds: "unat (ml_min_cu_threshold lim) \<le> 2 ^ 63" "unat (ml_max_cu lim) < 2 ^ 63"
  shows "\<exists>groups. grouping lim plans groups (merge_plans lim plans)"
proof (induction plans rule: length_induct)
  case (1 ps)
  show ?case
  proof (cases ps)
    case Nil
    then show ?thesis by (intro exI [of _ "[]"]) (simp add: grouping_def)
  next
    case (Cons head plans)
    have step: ?thesis
      if "plans = ms @ rest" and "merge_plans lim ps = p # merge_plans lim rest" and "group_plan lim (head # ms) p"
        and "rest \<noteq> [] \<longrightarrow> \<not> mergeable lim ((head # ms) @ [hd rest])" for ms rest p
    proof -
      have "length rest < length ps" using that(1) Cons by simp
      with 1 obtain groups where "grouping lim rest groups (merge_plans lim rest)" by blast
      from grouping_Cons [OF this that(3,4)] show ?thesis using that(1,2) Cons by auto
    qed
    note def = merge_plans.simps(2) [of lim head plans, folded Cons]
    show ?thesis
    proof (cases "small_plan lim head")
      case False
      have one: "\<not> mergeable lim ([head] @ [hd plans])" using False by (rule merging_single)
      show ?thesis
      proof (cases "cp_intents head = []")
        case True
        show ?thesis by (rule step [of "[]" plans head]) (use True one def in simp_all)
      next
        case nonempty: False
        have "merge_plans lim ps = head\<lparr>cp_merged_indices := []\<rparr> # merge_plans lim plans"
          using False nonempty def by (auto simp: small_plan_def)
        then show ?thesis by (intro step [of "[]" plans "head\<lparr>cp_merged_indices := []\<rparr>"]) (use nonempty False one in simp_all)
      qed
    next
      case small: True
      obtain g' rest where run: "merge_candidates lim (plan_actor head) plans (merge_begin head) = (g', rest)"
        by (cases "merge_candidates lim (plan_actor head) plans (merge_begin head)")
      from merge_candidates_merging [OF run merging_begin [OF small] bounds]
      obtain ms where msx: "plans = ms @ rest"
        "merging lim head ms (g'\<lparr>mg_map := build_access_map (mg_intents g')\<rparr>)"
        "rest \<noteq> [] \<longrightarrow> \<not> mergeable lim (head # ms @ [hd rest])" by auto
      have idx: "mg_indices g' = map cp_index ms" using merging_fields(2) [OF msx(2)] by simp
      have conds: "cp_intents head \<noteq> []" "ce_est_cu (cp_estimates head) < ml_min_cu_threshold lim"
        "ce_est_msg_bytes (cp_estimates head) \<le> ER_SMALL_MESSAGE_BYTES"
        using small by (auto simp: small_plan_def)
      show ?thesis
      proof (cases ms)
        case Nil
        then have "merge_plans lim ps = head\<lparr>cp_merged_indices := []\<rparr> # merge_plans lim plans"
          using def conds run idx by (simp add: plan_actor_def)
        then show ?thesis
          by (intro step [of "[]" plans "head\<lparr>cp_merged_indices := []\<rparr>"]) (use Nil msx conds run idx in \<open>auto simp: plan_actor_def\<close>)
      next
        case (Cons q qs)
        then have tail: "merge_plans lim ps = merged_plan head ms # merge_plans lim rest"
          using def conds run idx msx(2) by (simp add: plan_actor_def merging_def merge_finish_def)
        have "mergeable lim (head # ms)" using merging_mergeable [OF msx(2)] Cons by simp
        then show ?thesis
          by (intro step [OF msx(1) tail]) (use Cons msx conds run idx in \<open>auto simp: plan_actor_def\<close>)
      qed
    qed
  qed
qed

lemma max_cu_bound: "unat (ml_max_cu (merge_limits_of threshold safety)) < 2 ^ 63"
proof -
  have small: "unat (sm_max_chunk_cu safety) < 2 ^ 32" using unsigned_less [of "sm_max_chunk_cu safety"] by simp
  then have "unat (ucast (sm_max_chunk_cu safety) :: u64) = unat (sm_max_chunk_cu safety)"
    by (simp only: unsigned_ucast_eq) (simp add: take_bit_eq_mod)
  with small show ?thesis by (simp add: merge_limits_of_def)
qed

section \<open>Properties\<close>

text \<open>
  C14: Merging keeps the intents and their order, and is greedy: it splits the plans into consecutive groups.
  A group of several plans becomes one chunk, with the index of its first plan and the sums of the estimates; its
  plans are all small, of one actor and free of conflicts with each other, and the sums stay within the compute units of
  a chunk and the bytes of a message. A group of one plan is kept as it is, apart from its list of merged indices. No
  group could have taken in the first plan of the next one. The sums do not wrap around as long as
  the threshold is at most \<open>2 ^ 63\<close>.
\<close>

theorem merge_small_chunk_plans_correct:
  assumes "unat threshold \<le> 2 ^ 63"
  shows "concat (map cp_intents (merge_small_chunk_plans plans threshold safety)) = concat (map cp_intents plans)
    \<and> (\<exists>groups. grouping (merge_limits_of threshold safety) plans groups (merge_small_chunk_plans plans threshold safety))"
proof -
  obtain groups where
    "grouping (merge_limits_of threshold safety) plans groups (merge_small_chunk_plans plans threshold safety)"
    using merge_plans_grouping [OF _ max_cu_bound, of threshold safety plans] assms
    by (auto simp: merge_small_chunk_plans_def merge_limits_of_def)
  then show ?thesis using groups_intents by (auto simp: grouping_def)
qed

definition small_sample :: "nat \<Rightarrow> chunk_plan" where
  "small_sample i =
     \<lparr>cp_index = i,
      cp_intents = [\<lparr>ui_actor = 1, ui_ix = \<lparr>ix_program_id = 9, ix_accounts = [], ix_data = [of_nat i]\<rparr>,
                     ui_accesses = [\<lparr>aa_pubkey = of_nat i + 20, aa_access = Writable\<rparr>], ui_priority = 0,
                     ui_expires_at_slot = None\<rparr>],
      cp_estimates = \<lparr>ce_est_cu = 60, ce_est_msg_bytes = 100, ce_alt_ro_count = 0, ce_alt_wr_count = 0\<rparr>,
      cp_merged_indices = []\<rparr>"

theorem merge_small_chunk_plans_correct_witness:
  "map cp_merged_indices (merge_small_chunk_plans [small_sample 0, small_sample 1, small_sample 2] 100 safety_margins_default)
      = [[1, 2]]
   \<and> (\<exists>groups. grouping (merge_limits_of 100 safety_margins_default) [small_sample 0, small_sample 1, small_sample 2] groups
        (merge_small_chunk_plans [small_sample 0, small_sample 1, small_sample 2] 100 safety_margins_default))"
proof
  show "\<exists>groups. grouping (merge_limits_of 100 safety_margins_default) [small_sample 0, small_sample 1, small_sample 2] groups
        (merge_small_chunk_plans [small_sample 0, small_sample 1, small_sample 2] 100 safety_margins_default)"
    using merge_small_chunk_plans_correct [of 100] by simp
next
  show "map cp_merged_indices (merge_small_chunk_plans [small_sample 0, small_sample 1, small_sample 2] 100 safety_margins_default)
      = [[1, 2]]"
    by (simp add: merge_small_chunk_plans_def merge_limits_of_def small_sample_def merge_begin_def merge_add_def
        merge_finish_def can_merge_intents_def clashes_def build_access_map_def note_intents_def note_access_def
        ER_SMALL_MESSAGE_BYTES_def safety_margins_default_def max_message_bytes_with_signers_def sig_shortvec_len_def
        PACKET_DATA_SIZE_def Let_def)
qed
end
