(* ===== verification/ErStage.thy ===== *)
theory ErStage
  imports Er Merge
begin

text \<open>
  The ER stage of a chunk, bundler/src/pipeline/rollup.rs: \<open>ErExecutionCtx\<close> with \<open>prepare_chunk\<close>, and
  \<open>prepare_er_stage\<close>. The client behind \<open>dyn ErClient\<close> is a record of its three operations on a state \<open>'e\<close>,
  together with the update of the telemetry that it shares with the context; \<open>http_ctx\<close> is the record of the HTTP client
  of the theory Er. Wall-clock durations that are only reported, and log lines, are left out; an endpoint is
  kept as a URL where the code keeps its text.
\<close>

section \<open>The context\<close>

record ('u, 'e) er_execution_ctx =
  ex_enabled :: bool
  ex_begin_session :: "pubkey list \<Rightarrow> 'e \<Rightarrow> (er_error + 'u er_session) \<times> 'e"
  ex_execute :: "'u er_session \<Rightarrow> user_intent list \<Rightarrow> 'e \<Rightarrow> (er_error + 'u er_output) \<times> 'e"
  ex_end_session :: "'u er_session \<Rightarrow> 'e \<Rightarrow> (er_error + unit) \<times> 'e"
  ex_telemetry :: "(er_telemetry \<Rightarrow> er_telemetry) \<Rightarrow> 'e \<Rightarrow> 'e"
  ex_error_text :: "er_error \<Rightarrow> string"
  ex_simulate_on_failure :: bool
  ex_require_router :: bool
  ex_min_cu_threshold :: u64
  ex_merge_small_intents :: bool

record 'u er_chunk_meta =
  mt_plan_fingerprint :: "hash32 option"
  mt_blockhash_plan :: "'u er_blockhash_plan option"
  mt_settlement_accounts :: "pubkey list"
  mt_bhfa_ms :: "nat option"
  mt_simulated :: bool
  mt_route_endpoint :: "'u option"
  mt_route_cache_hit :: "bool option"
  mt_session_id :: "string option"
  mt_fallback_reason :: "string option"
  mt_signature :: "string option"
  mt_preflight_skipped :: "bool option"
  mt_submit_policy :: "submit_policy option"
  mt_submit_host :: "'u option"
  mt_bhfa_host :: "'u option"
  mt_parity_retry :: "bool option"

record 'u er_prepared_chunk =
  pc_intents :: "user_intent list"
  pc_meta :: "'u er_chunk_meta"

record 'u er_chunk_diagnostics =
  dg_er_ctx_present :: bool
  dg_er_enabled :: bool
  dg_attempted :: bool
  dg_session_established :: bool
  dg_simulated :: bool
  dg_route_endpoint :: "'u option"
  dg_route_cache_hit :: "bool option"
  dg_session_id :: "string option"
  dg_fallback_reason :: "string option"

definition diagnostics_default :: "'u er_chunk_diagnostics" where
  "diagnostics_default =
     \<lparr>dg_er_ctx_present = False, dg_er_enabled = False, dg_attempted = False, dg_session_established = False,
      dg_simulated = False, dg_route_endpoint = None, dg_route_cache_hit = None, dg_session_id = None,
      dg_fallback_reason = None\<rparr>"

record 'u prepared_chunk_state =
  ps_intents :: "user_intent list"
  ps_er_meta :: "'u er_chunk_meta option"
  ps_er_diag :: "'u er_chunk_diagnostics"

text \<open>The errors of the stage: its own, and those of the client.\<close>

datatype prepare_error = ErDisabled | NoIntentsForEr | NoSessionAccounts | NoSettlement | ClientError er_error

fun prepare_error_text :: "(er_error \<Rightarrow> string) \<Rightarrow> prepare_error \<Rightarrow> string" where
  "prepare_error_text text ErDisabled = ''ER disabled''"
| "prepare_error_text text NoIntentsForEr = ''no intents to execute via ER''"
| "prepare_error_text text NoSessionAccounts = ''no accounts derived for ER session''"
| "prepare_error_text text NoSettlement = ''ER returned zero settlement instructions''"
| "prepare_error_text text (ClientError e) = text e"

section \<open>\<open>prepare_chunk\<close>\<close>

definition collect_session_accounts :: "pubkey \<Rightarrow> user_intent list \<Rightarrow> pubkey list" where
  "collect_session_accounts payer intents =
     fold (\<lambda>intent set. fold (\<lambda>access set. insort_insert (aa_pubkey access) set) (ui_accesses intent) set) intents [payer]"

definition simulate_chunk ::
    "(bytes \<Rightarrow> hash32) \<Rightarrow> user_intent list \<Rightarrow> string option \<Rightarrow> 'u er_prepared_chunk" where
  "simulate_chunk H intents reason =
     \<lparr>pc_intents = intents,
      pc_meta = \<lparr>mt_plan_fingerprint = Some (compute_plan_fingerprint H intents), mt_blockhash_plan = None,
                 mt_settlement_accounts = [], mt_bhfa_ms = None, mt_simulated = True, mt_route_endpoint = None,
                 mt_route_cache_hit = None, mt_session_id = None, mt_fallback_reason = reason, mt_signature = None,
                 mt_preflight_skipped = None, mt_submit_policy = None, mt_submit_host = None, mt_bhfa_host = None,
                 mt_parity_retry = None\<rparr>\<rparr>"

definition record_kind_of :: "er_error \<Rightarrow> er_telemetry \<Rightarrow> er_telemetry" where
  "record_kind_of err t =
     (case classify_router_error err of Some kind \<Rightarrow> record_router_error_kind kind t | None \<Rightarrow> t)"

text \<open>What a new session, a failed one, and a failed execution record.\<close>

definition note_session :: "'u er_session \<Rightarrow> er_telemetry \<Rightarrow> er_telemetry" where
  "note_session session t =
     (let t = record_session_begin_ok t
      in case sn_blockhash_plan session of
           Some plan \<Rightarrow>
             record_route_cache (ri_cache_hit (sn_route session))
               (record_blockhash True (record_route (Some (bp_route_duration plan)) True t))
         | None \<Rightarrow>
             record_route_cache (ri_cache_hit (sn_route session))
               (record_blockhash True (record_route (Some (sn_route_duration session)) True t)))"

definition note_begin_failure :: "(er_error \<Rightarrow> string) \<Rightarrow> er_error \<Rightarrow> er_telemetry \<Rightarrow> er_telemetry" where
  "note_begin_failure text err t =
     record_kind_of err
       (record_fallback
         (record_blockhash False
           (record_route None False
             (record_last_router_error text err (record_session_begin_err t)))))"

definition note_execute_failure :: "(er_error \<Rightarrow> string) \<Rightarrow> er_error \<Rightarrow> er_telemetry \<Rightarrow> er_telemetry" where
  "note_execute_failure text err t = record_kind_of err (record_last_router_error text err (record_fallback t))"

text \<open>After a failure: the local fallback, or the error.\<close>

definition fall_back ::
    "(bytes \<Rightarrow> hash32) \<Rightarrow> ('u, 'e) er_execution_ctx \<Rightarrow> user_intent list \<Rightarrow> string \<Rightarrow> prepare_error \<Rightarrow> 'e
      \<Rightarrow> (prepare_error + 'u er_prepared_chunk) \<times> 'e" where
  "fall_back H ctx intents prefix_text err e =
     (if ex_simulate_on_failure ctx
      then (Inr (simulate_chunk H intents (Some (prefix_text @ prepare_error_text (ex_error_text ctx) err))), e)
      else (Inl err, e))"

text \<open>\<open>UserIntent::new\<close> never panics (\<open>Intents.user_intent_new_correct\<close>), so \<open>the\<close> has a value here.\<close>

definition settlement_intents_of :: "pubkey \<Rightarrow> instruction list \<Rightarrow> user_intent list" where
  "settlement_intents_of payer ixs = map (\<lambda>ix. normalized (the (user_intent_new payer ix 0 None))) ixs"

definition settle ::
    "(bytes \<Rightarrow> hash32) \<Rightarrow> ('u, 'e) er_execution_ctx \<Rightarrow> pubkey \<Rightarrow> user_intent list \<Rightarrow> 'u er_session \<Rightarrow> 'u er_output \<Rightarrow> 'e
      \<Rightarrow> (prepare_error + 'u er_prepared_chunk) \<times> 'e" where
  "settle H ctx payer intents session output e =
     (let accounts = collect_session_accounts payer intents;
          settlement_accounts = (if eo_settlement_accounts output = [] then accounts else eo_settlement_accounts output);
          settlement_plan_fp = (case eo_plan_fingerprint output of
                                  Some fp \<Rightarrow> Some fp | None \<Rightarrow> Some (compute_plan_fingerprint H intents));
          settlement_blockhash = (case eo_blockhash_plan output of Some p \<Rightarrow> Some p | None \<Rightarrow> sn_blockhash_plan session);
          settlement_intents = settlement_intents_of payer (eo_settlement_instructions output)
      in if settlement_intents = []
         then fall_back H ctx intents ''execute produced no settlement instructions: '' NoSettlement
                (ex_telemetry ctx record_fallback e)
         else (Inr \<lparr>pc_intents = settlement_intents,
                    pc_meta = \<lparr>mt_plan_fingerprint = settlement_plan_fp, mt_blockhash_plan = settlement_blockhash,
                               mt_settlement_accounts = settlement_accounts,
                               mt_bhfa_ms = map_option bp_blockhash_duration settlement_blockhash, mt_simulated = False,
                               mt_route_endpoint = Some (sn_endpoint session),
                               mt_route_cache_hit = Some (ri_cache_hit (sn_route session)),
                               mt_session_id = Some (sn_id session), mt_fallback_reason = None,
                               mt_signature = eo_signature output,
                               mt_preflight_skipped = Some (eo_preflight_skipped output),
                               mt_submit_policy = Some (eo_submit_policy output),
                               mt_submit_host = Some (eo_final_submit_host output),
                               mt_bhfa_host = map_option (\<lambda>p. eb_fetched_from (bp_blockhash p)) settlement_blockhash,
                               mt_parity_retry = Some (eo_parity_retry output)\<rparr>\<rparr>, e))"

definition prepare_chunk_inner ::
    "(bytes \<Rightarrow> hash32) \<Rightarrow> ('u, 'e) er_execution_ctx \<Rightarrow> pubkey \<Rightarrow> user_intent list \<Rightarrow> 'e
      \<Rightarrow> (prepare_error + 'u er_prepared_chunk) \<times> 'e" where
  "prepare_chunk_inner H ctx payer intents e =
     (if intents = [] then (Inl NoIntentsForEr, e)
      else let accounts = collect_session_accounts payer intents
      in if accounts = [] then (Inl NoSessionAccounts, e)
      else (case ex_begin_session ctx accounts (ex_telemetry ctx record_session_begin_attempt e) of
              (Inl err, e) \<Rightarrow>
                fall_back H ctx intents ''begin_session failed: '' (ClientError err)
                  (ex_telemetry ctx (note_begin_failure (ex_error_text ctx) err) e)
            | (Inr session, e) \<Rightarrow>
                (case ex_execute ctx session intents (ex_telemetry ctx (note_session session) e) of
                   (Inl err, e) \<Rightarrow>
                     fall_back H ctx intents ''execute failed: '' (ClientError err)
                       (snd (ex_end_session ctx session
                              (ex_telemetry ctx (note_execute_failure (ex_error_text ctx) err) e)))
                 | (Inr output, e) \<Rightarrow>
                     settle H ctx payer intents session output (snd (ex_end_session ctx session e)))))"

definition prepare_chunk ::
    "(bytes \<Rightarrow> hash32) \<Rightarrow> ('u, 'e) er_execution_ctx \<Rightarrow> pubkey \<Rightarrow> user_intent list \<Rightarrow> 'e
      \<Rightarrow> (prepare_error + 'u er_prepared_chunk) \<times> 'e" where
  "prepare_chunk H ctx payer intents e =
     (if \<not> ex_enabled ctx then (Inl ErDisabled, e) else prepare_chunk_inner H ctx payer intents e)"

section \<open>\<open>prepare_er_stage\<close>\<close>

datatype attempt_stage = StageOcc | StageAltResolution | StageBlockhash | StageSend

text \<open>Why an enabled context leaves a chunk to the local pipeline.\<close>

definition skip_reason :: "('u, 'e) er_execution_ctx \<Rightarrow> chunk_plan \<Rightarrow> string option" where
  "skip_reason ctx plan =
     (let threshold = ex_min_cu_threshold ctx;
          below_cu = threshold > 0 \<and> ce_est_cu (cp_estimates plan) < threshold;
          small_message = ce_est_msg_bytes (cp_estimates plan) \<le> ER_SMALL_MESSAGE_BYTES
      in if below_cu \<and> small_message then Some ''below_threshold+small_message''
         else if below_cu then Some ''below_threshold''
         else if small_message then Some ''small_message'' else None)"

definition stage_diagnostics :: "('u, 'e) er_execution_ctx option \<Rightarrow> 'u er_chunk_diagnostics" where
  "stage_diagnostics er =
     diagnostics_default\<lparr>dg_er_ctx_present := (er \<noteq> None),
       dg_er_enabled := (case er of Some ctx \<Rightarrow> ex_enabled ctx | None \<Rightarrow> False)\<rparr>"

definition prepared_diagnostics :: "'u er_chunk_meta \<Rightarrow> 'u er_chunk_diagnostics \<Rightarrow> 'u er_chunk_diagnostics" where
  "prepared_diagnostics meta diag =
     diag\<lparr>dg_simulated := mt_simulated meta, dg_session_established := (\<not> mt_simulated meta),
          dg_route_endpoint := mt_route_endpoint meta, dg_route_cache_hit := mt_route_cache_hit meta,
          dg_session_id := mt_session_id meta,
          dg_fallback_reason := (case mt_fallback_reason meta of Some r \<Rightarrow> Some r | None \<Rightarrow> dg_fallback_reason diag)\<rparr>"

text \<open>The failure of the stage is not retriable and belongs to the send stage.\<close>

definition prepare_er_stage ::
    "(bytes \<Rightarrow> hash32) \<Rightarrow> ('u, 'e) er_execution_ctx option \<Rightarrow> pubkey \<Rightarrow> chunk_plan \<Rightarrow> 'e
      \<Rightarrow> (prepare_error \<times> 'u er_chunk_diagnostics + 'u prepared_chunk_state) \<times> 'e" where
  "prepare_er_stage H er payer plan e =
     (let diag = stage_diagnostics er
      in case er of
           None \<Rightarrow> (Inr \<lparr>ps_intents = cp_intents plan, ps_er_meta = None, ps_er_diag = diag\<rparr>, e)
         | Some ctx \<Rightarrow>
             (if \<not> ex_enabled ctx
              then (Inr \<lparr>ps_intents = cp_intents plan, ps_er_meta = None,
                         ps_er_diag = diag\<lparr>dg_fallback_reason := Some ''er_disabled''\<rparr>\<rparr>, e)
              else (case skip_reason ctx plan of
                      Some reason \<Rightarrow>
                        (Inr \<lparr>ps_intents = cp_intents plan, ps_er_meta = None,
                              ps_er_diag = diag\<lparr>dg_fallback_reason := Some reason\<rparr>\<rparr>,
                         ex_telemetry ctx record_small_chunk_skip e)
                    | None \<Rightarrow>
                        (let diag = diag\<lparr>dg_attempted := True\<rparr>;
                             e = (if cp_merged_indices plan \<noteq> []
                                  then ex_telemetry ctx (record_small_chunk_merge (of_nat (length (cp_merged_indices plan)))) e
                                  else e)
                         in case prepare_chunk H ctx payer (cp_intents plan) e of
                              (Inr prepared, e) \<Rightarrow>
                                (Inr \<lparr>ps_intents = pc_intents prepared, ps_er_meta = Some (pc_meta prepared),
                                      ps_er_diag = prepared_diagnostics (pc_meta prepared) diag\<rparr>, e)
                            | (Inl err, e) \<Rightarrow>
                                if ex_require_router ctx then (Inl (err, diag), e)
                                else (Inr \<lparr>ps_intents = cp_intents plan, ps_er_meta = None,
                                           ps_er_diag = diag\<lparr>dg_fallback_reason :=
                                              Some (prepare_error_text (ex_error_text ctx) err)\<rparr>\<rparr>, e)))))"

section \<open>The contract of the client\<close>

text \<open>
  What the stage relies on: a client that executes a list of intents returns their instructions as the instructions to
  settle.
\<close>

locale er_client_contract =
  fixes ctx :: "('u, 'e) er_execution_ctx"
  assumes execute_output: "ex_execute ctx session intents e = (Inr out, e') \<Longrightarrow>
    eo_settlement_instructions out = map ui_ix intents"
begin

lemma settled_instructions:
  assumes "settle H ctx payer intents session out e = (Inr prepared, e')"
    and "eo_settlement_instructions out = map ui_ix intents"
  shows "map ui_ix (pc_intents prepared) = map ui_ix intents"
  using assms
  by (auto simp: settle_def Let_def fall_back_def simulate_chunk_def settlement_intents_of_def normalized_def
      user_intent_new_correct split: if_splits)

lemma prepared_instructions:
  assumes "prepare_er_stage H (Some ctx) payer plan e = (Inr st, e')"
  shows "map ui_ix (ps_intents st) = map ui_ix (cp_intents plan)"
proof -
  have "map ui_ix (pc_intents prepared) = map ui_ix (cp_intents plan)"
    if "prepare_chunk H ctx payer (cp_intents plan) e1 = (Inr prepared, e2)" for prepared e1 e2
    using that
    by (auto simp: prepare_chunk_def prepare_chunk_inner_def Let_def fall_back_def simulate_chunk_def
        split: if_splits prod.splits sum.splits intro: settled_instructions execute_output)
  then show ?thesis
    using assms by (auto simp: prepare_er_stage_def Let_def split: if_splits option.splits prod.splits sum.splits)
qed

end

section \<open>The HTTP client as context\<close>

definition http_ctx ::
    "(bytes \<Rightarrow> hash32) \<Rightarrow> ('u, 'j, 'w, 'tx) er_env \<Rightarrow> 'u er_client_config \<Rightarrow> (er_error \<Rightarrow> string) \<Rightarrow> bool \<Rightarrow> bool
      \<Rightarrow> ('u, ('u, 'w) er_client) er_execution_ctx" where
  "http_ctx H env cfg err_text enabled simulate_on_failure =
     \<lparr>ex_enabled = enabled, ex_begin_session = begin_session env cfg, ex_execute = execute H env cfg,
      ex_end_session = end_session, ex_telemetry = on_telemetry, ex_error_text = err_text,
      ex_simulate_on_failure = simulate_on_failure, ex_require_router = cf_require_router cfg,
      ex_min_cu_threshold = cf_min_cu_threshold cfg, ex_merge_small_intents = cf_merge_small_intents cfg\<rparr>"

lemma with_context_Inr: "with_context c r = (Inr x, s) \<longleftrightarrow> r = (Inr x, s)"
  by (auto simp: with_context_def split: prod.splits sum.splits)

lemma execute_settlement:
  assumes "execute H env cfg session intents s = (Inr out, s')"
  shows "eo_settlement_instructions out = map ui_ix intents"
  using assms
  by (auto simp: execute_def execute_router_def Let_def on_ok_Inr with_context_Inr dest: intents_to_instructions_ok
      split: prod.splits)

interpretation http: er_client_contract "http_ctx H env cfg err_text enabled simulate_on_failure"
  for H env cfg err_text enabled simulate_on_failure
  by unfold_locales (simp add: http_ctx_def execute_settlement)

section \<open>What a run at the router leaves behind\<close>

text \<open>The log of requests only grows.\<close>

definition grows :: "('u, 'w) er_client \<Rightarrow> ('u, 'w) er_client \<Rightarrow> bool" where
  "grows s t \<longleftrightarrow> prefix (rw_requests s) (rw_requests t)"

lemma grows_refl [simp]: "grows s s"
  by (simp add: grows_def)

lemma grows_trans: "grows s t \<Longrightarrow> grows t u \<Longrightarrow> grows s u"
  by (auto simp: grows_def)

lemma grows_same: "rw_requests s' = rw_requests s \<Longrightarrow> grows s' t = grows s t" "rw_requests t' = rw_requests t \<Longrightarrow> grows s t' = grows s t"
  by (simp_all add: grows_def)

lemma grows_telemetry [simp]: "grows (on_telemetry f s) t = grows s t" "grows s (on_telemetry f t) = grows s t"
  by (simp_all add: grows_def)

lemma grows_with_context: "grows s (snd r) \<Longrightarrow> grows s (snd (with_context c r))"
  by (auto simp: with_context_def split: prod.splits sum.splits)

lemma grows_on_ok:
  assumes "grows s (snd r)" and "\<And>x u. grows u (snd (k x u))"
  shows "grows s (snd (on_ok r k))"
proof -
  obtain a u where r: "r = (a, u)" by (cases r)
  show ?thesis
  proof (cases a)
    case (Inl e)
    then show ?thesis using assms(1) r by simp
  next
    case (Inr x)
    have "grows s u" using assms(1) r by simp
    then show ?thesis using assms(2) [of u x] by (auto simp: r Inr intro: grows_trans)
  qed
qed

lemma grows_er_post:
  assumes "cf_retries cfg < usize_max"
  shows "grows s (snd (er_post env cfg req s))"
proof -
  obtain r s' where run: "er_post env cfg req s = (r, s')" by (cases "er_post env cfg req s")
  then obtain k where "added s (replicate k req) s'" using er_post_added [OF run assms] by blast
  then show ?thesis by (simp add: grows_def added_def run)
qed

lemma grows_fetch_route:
  assumes "cf_retries cfg < usize_max"
  shows "grows s (snd (fetch_route_from_router env cfg s))"
proof -
  have "grows s (snd (header_of env key s))" for key :: "string option" and s :: "('u, 'w) er_client"
    by (cases "header_of env key s") (auto dest: header_of_keeps)
  moreover have "grows u (snd (case next_router_request_id u of
      (i, u) \<Rightarrow> on_ok (with_context c (er_post env cfg (req i) u)) (\<lambda>x u. (f x u, u))))" for u c f req
    by (cases "next_router_request_id u")
      (auto simp: next_router_request_id_def intro!: grows_on_ok grows_with_context
        intro: grows_er_post [OF assms, THEN iffD1 [OF grows_same(1), rotated]])
  ultimately show ?thesis
    unfolding fetch_route_from_router_def
    by (intro grows_on_ok) (auto split: er_privacy_mode.splits)
qed

lemma grows_resolve_route:
  assumes "cf_retries cfg < usize_max"
  shows "grows s (snd (resolve_route env cfg s))"
proof (cases "cf_endpoint_override cfg")
  case None
  obtain c u where cr: "cached_route (ne_now (ee_net env) (rw_net s)) s = (c, u)"
    by (cases "cached_route (ne_now (ee_net env) (rw_net s)) s")
  have u: "rw_requests u = rw_requests s" using cr by (auto simp: cached_route_def split: option.splits if_splits)
  show ?thesis
  proof (cases c)
    case (Some route)
    then show ?thesis using None cr u by (simp add: resolve_route_def Let_def grows_def)
  next
    case no: None
    have "grows s (snd (fetch_route_from_router env cfg u))"
      using grows_fetch_route [OF assms, of u env] grows_same(1) [OF u] by simp
    then have "grows s (snd (on_ok (fetch_route_from_router env cfg u)
        (\<lambda>fresh s. (Inr \<lparr>ri_endpoint = ca_endpoint fresh, ri_ttl = ca_ttl fresh, ri_fetched_at = ca_fetched_at fresh,
                         ri_cache_hit = False\<rparr>, s\<lparr>ec_route_cache := Some fresh\<rparr>))))"
      by (intro grows_on_ok) (simp_all add: grows_def)
    then show ?thesis using None no cr by (simp add: resolve_route_def Let_def)
  qed
qed (simp add: resolve_route_def Let_def)

lemma http_ctx_simps [simp]:
  "ex_enabled (http_ctx H env cfg t en sim) = en"
  "ex_begin_session (http_ctx H env cfg t en sim) = begin_session env cfg"
  "ex_execute (http_ctx H env cfg t en sim) = execute H env cfg"
  "ex_end_session (http_ctx H env cfg t en sim) = end_session"
  "ex_telemetry (http_ctx H env cfg t en sim) = on_telemetry"
  "ex_require_router (http_ctx H env cfg t en sim) = cf_require_router cfg"
  "ex_min_cu_threshold (http_ctx H env cfg t en sim) = cf_min_cu_threshold cfg"
  "ex_merge_small_intents (http_ctx H env cfg t en sim) = cf_merge_small_intents cfg"
  "ex_simulate_on_failure (http_ctx H env cfg t en sim) = sim"
  by (simp_all add: http_ctx_def)

lemma grows_begin_session:
  assumes "cf_retries cfg < usize_max"
  shows "grows s (snd (begin_session env cfg accounts s))"
proof -
  let ?s = "s\<lparr>ec_router_bhfa_degraded := False\<rparr>"
  have "grows ?s (snd (begin_session_router env cfg accounts s))"
    unfolding begin_session_router_def Let_def
    by (intro grows_on_ok grows_resolve_route [OF assms]) simp
  then show ?thesis by (simp add: begin_session_def grows_def)
qed

lemma execute_sends:
  assumes "execute H env cfg session intents s = (r, s')" and "cf_retries cfg < usize_max"
  shows "grows s s'"
    and "r = Inr out \<Longrightarrow> \<exists>plan tx b64 skip reqs. eo_blockhash_plan out = Some plan
      \<and> ee_sign env (map ui_ix intents) (eb_hash (bp_blockhash plan)) = Inr tx \<and> ee_encode env tx = Inr b64
      \<and> rw_requests s' = rw_requests s @ reqs \<and> (\<exists>q\<in>set reqs. hr_call q = SendTransaction b64 skip)"
proof -
  obtain s1 where run: "execute_router H env cfg session intents s = (r, s1)" "rw_requests s' = rw_requests s1"
    using assms(1) by (rule execute_requests)
  from execute_router_requests [OF run(1) assms(2)] obtain b1 b2 b3 b4 b5 where
    reqs: "rw_requests s1 = rw_requests s @ (b1 @ b2) @ (b3 @ b4 @ b5)"
    and fin: "b3 @ b4 @ b5 = [] \<and> isl r
       \<or> (\<exists>plan. submission env cfg session intents plan b3 b4 b5
            \<and> (\<forall>out. r = Inr out \<longrightarrow> b4 \<noteq> [] \<and> eo_blockhash_plan out = Some plan))"
    by blast
  show "grows s s'" using reqs run(2) by (simp add: grows_def)
  assume "r = Inr out"
  then obtain plan where sub: "submission env cfg session intents plan b3 b4 b5" "b4 \<noteq> []" "eo_blockhash_plan out = Some plan"
    using fin by auto
  then obtain tx b64 skip u where "ee_sign env (map ui_ix intents) (eb_hash (bp_blockhash plan)) = Inr tx"
    "ee_encode env tx = Inr b64" "burst env cfg u (SendTransaction b64 skip) b4"
    by (auto simp: submission_def Let_def)
  moreover from this sub(2) have "\<exists>q\<in>set ((b1 @ b2) @ (b3 @ b4 @ b5)). hr_call q = SendTransaction b64 skip"
    by (cases b4) (auto dest: burst_mem)
  ultimately show "\<exists>plan tx b64 skip reqs. eo_blockhash_plan out = Some plan
      \<and> ee_sign env (map ui_ix intents) (eb_hash (bp_blockhash plan)) = Inr tx \<and> ee_encode env tx = Inr b64
      \<and> rw_requests s' = rw_requests s @ reqs \<and> (\<exists>q\<in>set reqs. hr_call q = SendTransaction b64 skip)"
    using sub(3) reqs run(2) by metis
qed

text \<open>A prepared chunk that is not simulated: the client has submitted its instructions, over the hash of its plan.\<close>

lemma stage_er_run:
  assumes stage: "prepare_er_stage H (Some (http_ctx H env cfg t en sim)) payer plan e = (Inr st, e')"
    and meta: "ps_er_meta st = Some meta" "\<not> mt_simulated meta" and retries: "cf_retries cfg < usize_max"
  shows "\<exists>bplan tx b64 skip reqs. mt_blockhash_plan meta = Some bplan
    \<and> ee_sign env (map ui_ix (cp_intents plan)) (eb_hash (bp_blockhash bplan)) = Inr tx \<and> ee_encode env tx = Inr b64
    \<and> rw_requests e' = rw_requests e @ reqs \<and> (\<exists>q\<in>set reqs. hr_call q = SendTransaction b64 skip)"
proof -
  let ?ctx = "http_ctx H env cfg t en sim"
  define e1 where "e1 = (if cp_merged_indices plan \<noteq> []
    then on_telemetry (record_small_chunk_merge (of_nat (length (cp_merged_indices plan)))) e else e)"
  have e1: "rw_requests e1 = rw_requests e" by (simp add: e1_def)
  obtain prepared where prep: "prepare_chunk H ?ctx payer (cp_intents plan) e1 = (Inr prepared, e')" "pc_meta prepared = meta"
    using stage meta(1)
    by (auto simp: prepare_er_stage_def Let_def e1_def split: if_splits option.splits prod.splits sum.splits)
  have no: "fall_back H ?ctx us c err s \<noteq> (Inr prepared, e')" for us c err s
    using prep(2) meta(2) by (auto simp: fall_back_def simulate_chunk_def split: if_splits)
  obtain br e2 where beg: "begin_session env cfg (collect_session_accounts payer (cp_intents plan))
      (on_telemetry record_session_begin_attempt e1) = (br, e2)"
    by (cases "begin_session env cfg (collect_session_accounts payer (cp_intents plan))
      (on_telemetry record_session_begin_attempt e1)")
  have body: "prepare_chunk_inner H ?ctx payer (cp_intents plan) e1 = (Inr prepared, e')"
    using prep(1) by (auto simp: prepare_chunk_def split: if_splits)
  note unf = body [unfolded prepare_chunk_inner_def Let_def http_ctx_simps beg]
  obtain session where session: "br = Inr session" using unf no by (cases br) (auto split: if_splits)
  obtain xr e3 where exec: "execute H env cfg session (cp_intents plan) (on_telemetry (note_session session) e2) = (xr, e3)"
    by (cases "execute H env cfg session (cp_intents plan) (on_telemetry (note_session session) e2)")
  obtain out where out: "xr = Inr out" using unf session exec no by (cases xr) (auto split: if_splits)
  have settled: "settle H ?ctx payer (cp_intents plan) session out e3 = (Inr prepared, e')"
    using unf session exec out by (auto simp: end_session_def split: if_splits)
  have "grows e1 e2"
    using grows_begin_session [OF retries, of "on_telemetry record_session_begin_attempt e1" env
        "collect_session_accounts payer (cp_intents plan)"]
    unfolding beg by simp
  then obtain r1 where r1: "rw_requests e2 = rw_requests e @ r1" using e1 by (auto simp: grows_def prefix_def)
  from execute_sends(2) [OF exec retries out, unfolded requests_simps] obtain bplan tx b64 skip reqs where ex:
    "eo_blockhash_plan out = Some bplan" "ee_sign env (map ui_ix (cp_intents plan)) (eb_hash (bp_blockhash bplan)) = Inr tx"
    "ee_encode env tx = Inr b64" "rw_requests e3 = rw_requests e2 @ reqs" "\<exists>q\<in>set reqs. hr_call q = SendTransaction b64 skip"
    by blast
  have fin: "mt_blockhash_plan meta = Some bplan" "rw_requests e' = rw_requests e3"
    using settled prep(2) ex(1) no by (auto simp: settle_def Let_def split: if_splits)
  have "rw_requests e' = rw_requests e @ (r1 @ reqs)" using fin(2) ex(4) r1 by simp
  moreover have "\<exists>q\<in>set (r1 @ reqs). hr_call q = SendTransaction b64 skip" using ex(5) by auto
  ultimately show ?thesis using ex(2,3) fin(1) by blast
qed
end
