(* ===== verification/Rollup.thy ===== *)
theory Rollup
  imports ErStage Blockhash Occ Alt Serializer Sender
begin

text \<open>
  The layer driver of bundler/src/pipeline/rollup.rs: one attempt of a chunk (\<open>process_chunk_once\<close>), its retry loop
  (\<open>process_chunk\<close>), and the parallel execution of a layer (\<open>send_layer_parallel\<close>).

  The collaborators behind \<open>dyn\<close> traits are functions of a record of dependencies on their own state: the ALT
  manager, the blockhash provider, the account fetcher, the ER client. The sender is the one of the theory Sender;
  its RPC calls stay parameters. Wall-clock durations that are only reported, and log lines, are left out.
\<close>

section \<open>Configuration\<close>

record parallel_layer_config =
  lc_max_concurrency :: nat
  lc_max_attempts :: nat
  lc_base_backoff :: nat
  lc_max_backoff :: nat
  lc_dry_run :: bool

definition clamp :: "nat \<Rightarrow> nat \<Rightarrow> nat \<Rightarrow> nat" where
  "clamp lo hi n = (if n < lo then lo else if n > hi then hi else n)"

definition sanitised :: "parallel_layer_config \<Rightarrow> parallel_layer_config" where
  "sanitised self =
     (let max_concurrency = clamp 1 64 (lc_max_concurrency self);
          max_attempts = clamp 1 8 (lc_max_attempts self);
          base_backoff = (if lc_base_backoff self = 0 then 150 else lc_base_backoff self);
          max_backoff = (if lc_max_backoff self < base_backoff then base_backoff else lc_max_backoff self)
      in \<lparr>lc_max_concurrency = max_concurrency, lc_max_attempts = max_attempts, lc_base_backoff = base_backoff,
          lc_max_backoff = max_backoff, lc_dry_run = lc_dry_run self\<rparr>)"

section \<open>Classification of errors by their text\<close>

definition transient_markers :: "string list" where
  "transient_markers =
     [''timeout'', ''timed out'', ''deadline'', ''connection reset'', ''connection refused'', ''broken pipe'',
      ''rate limit'', ''overloaded'', ''temporar'', ''unavailable'', ''http2'', ''gateway'', ''network'']"

definition is_transient_error :: "string \<Rightarrow> bool" where
  "is_transient_error err =
     (let msg = to_ascii_lowercase err
      in list_ex (contains_str msg) transient_markers
         \<or> list_ex (contains_str msg) [''500'', ''502'', ''503'', ''504''])"

definition is_stale_blockhash_error :: "string \<Rightarrow> bool" where
  "is_stale_blockhash_error err = contains_str (to_ascii_lowercase err) ''stale blockhash''"

text \<open>The texts of the errors that are classified: \<open>anyhow\<close> shows the outermost message.\<close>

fun decimal :: "nat \<Rightarrow> string" where
  "decimal n = (if n < 10 then [char_of (48 + n)] else decimal (n div 10) @ [char_of (48 + n mod 10)])"

declare decimal.simps [simp del]

fun build_error_text :: "(pubkey \<Rightarrow> string) \<Rightarrow> build_error \<Rightarrow> string" where
  "build_error_text key_text build_error.NoIntents = ''no intents''"
| "build_error_text key_text (AltNoAddresses i key) = ''ALT table #'' @ decimal i @ '' ('' @ key_text key @ '') has no addresses''"
| "build_error_text key_text (AltDuplicate key pk) =
     ''ALT table '' @ key_text key @ '' contains duplicate address '' @ key_text pk"
| "build_error_text key_text (CompileError e) = e"
| "build_error_text key_text (SerializeError e) = e"
| "build_error_text key_text (MessageTooLarge bytes budget signers) =
     ''message '' @ decimal bytes @ ''B exceeds budget '' @ decimal budget @ ''B (reserved for '' @ decimal signers @ '' signers)''"

fun send_error_text :: "send_error \<Rightarrow> string" where
  "send_error_text (BuildFailed e) = e"
| "send_error_text (SignFailed e) = e"
| "send_error_text (SimulateCallFailed e) = e"
| "send_error_text (SimulationError e) = ''simulation error: '' @ e"
| "send_error_text (EncodeFailed e) = e"
| "send_error_text (BlockhashCallFailed e) = e"
| "send_error_text StaleBlockhash = ''stale blockhash; rebuild required''"
| "send_error_text (SendFailed e) = e"
| "send_error_text SignatureMissing = ''signature missing in send report''"

section \<open>Dependencies and state\<close>

record ('u, 's, 'e, 'a, 'b, 'o, 'w, 'm, 'tx, 'sig) layer_deps =
  ld_hash :: "bytes \<Rightarrow> hash32"
  ld_payer :: pubkey
  ld_safety :: safety_margins
  ld_er :: "('u, 'e) er_execution_ctx option"
  ld_fetch :: "'s fetcher"
  ld_occ_jitter :: "nat \<Rightarrow> u64"
  ld_occ_config :: occ_config
  ld_resolve_tables :: "pubkey \<Rightarrow> user_intent list \<Rightarrow> 'a \<Rightarrow> alt_resolution \<times> 'a"
  ld_lease_for_intents :: "user_intent list \<Rightarrow> 'b \<Rightarrow> (string + blockhash_lease) \<times> 'b"
  ld_record_outcome :: "blockhash_lease \<Rightarrow> lease_outcome \<Rightarrow> 'b \<Rightarrow> 'b"
  ld_api :: "'m message_api"
  ld_key_text :: "pubkey \<Rightarrow> string"
  ld_send :: "('o, 'w, 'm, 'tx, 'sig) send_env"
  ld_join_text :: string
  ld_retry_jitter :: "nat \<Rightarrow> nat \<Rightarrow> nat"

record ('s, 'e, 'a, 'b, 'o, 'w, 'tx) layer_world =
  lw_occ :: "'s occ_world"
  lw_er :: 'e
  lw_alt :: 'a
  lw_blockhash :: 'b
  lw_sender :: "('o, 'w, 'tx) sender_state"
  lw_sleeps :: "nat list"

section \<open>Results\<close>

datatype attempt_failure =
    PrepareFailed prepare_error
  | OccTaskFailed
  | OccFailed occ_error
  | LeaseNotIssued string
  | SendTaskFailed string
  | SendNotDone send_error

record 'u chunk_attempt_error =
  ae_stage :: attempt_stage
  ae_error :: attempt_failure
  ae_retriable :: bool
  ae_er_diag :: "'u er_chunk_diagnostics"

record ('u, 'sig) chunk_success_data =
  sd_report :: "'sig send_report"
  sd_occ_snapshot :: occ_snapshot
  sd_alt_resolution :: alt_resolution
  sd_lease :: blockhash_lease
  sd_plan_fingerprint :: "hash32 option"
  sd_er_blockhash_plan :: "'u er_blockhash_plan option"
  sd_er_simulated :: bool
  sd_er_bhfa_ms :: "nat option"
  sd_er_signature :: "string option"
  sd_er_preflight_skipped :: "bool option"
  sd_er_submit_policy :: "submit_policy option"
  sd_er_submit_host :: "'u option"
  sd_er_bhfa_host :: "'u option"
  sd_er_parity_retry :: "bool option"

record ('u, 'sig) chunk_success =
  su_data :: "('u, 'sig) chunk_success_data"
  su_er_diag :: "'u er_chunk_diagnostics"

datatype ('u, 'sig) chunk_outcome =
    ChunkSucceeded "('u, 'sig) chunk_success_data"
  | ChunkFailed attempt_failure bool attempt_stage
  | WorkerPanicked

record ('u, 'sig) chunk_result =
  cr_index :: nat
  cr_attempts :: nat
  cr_outcome :: "('u, 'sig) chunk_outcome"
  cr_occ_accounts :: nat
  cr_alt_tables :: nat
  cr_estimates :: chunk_estimates
  cr_er :: "'u er_chunk_diagnostics"

definition chunk_success_result :: "chunk_plan \<Rightarrow> nat \<Rightarrow> ('u, 'sig) chunk_success \<Rightarrow> ('u, 'sig) chunk_result" where
  "chunk_success_result plan attempts success =
     \<lparr>cr_index = cp_index plan, cr_attempts = attempts, cr_outcome = ChunkSucceeded (su_data success),
      cr_occ_accounts = length (sn_versions (sd_occ_snapshot (su_data success))),
      cr_alt_tables = length (ar_tables (sd_alt_resolution (su_data success))),
      cr_estimates = cp_estimates plan, cr_er = su_er_diag success\<rparr>"

definition chunk_failure_result :: "chunk_plan \<Rightarrow> nat \<Rightarrow> 'u chunk_attempt_error \<Rightarrow> ('u, 'sig) chunk_result" where
  "chunk_failure_result plan attempts err =
     \<lparr>cr_index = cp_index plan, cr_attempts = attempts,
      cr_outcome = ChunkFailed (ae_error err) (ae_retriable err) (ae_stage err),
      cr_occ_accounts = 0, cr_alt_tables = 0, cr_estimates = cp_estimates plan, cr_er = ae_er_diag err\<rparr>"

definition occ_error_to_chunk_error :: "occ_error \<Rightarrow> 'u er_chunk_diagnostics \<Rightarrow> 'u chunk_attempt_error" where
  "occ_error_to_chunk_error err diag =
     \<lparr>ae_stage = StageOcc, ae_error = OccFailed err, ae_retriable = (\<not> occ_is_fatal err), ae_er_diag = diag\<rparr>"

section \<open>\<open>process_chunk_once\<close>\<close>

datatype lease_origin = BaselineLease | ErLease

text \<open>The settlement accounts of a real ER run replace the accounts of the intents.\<close>

definition occ_accounts_override :: "'u prepared_chunk_state \<Rightarrow> pubkey list option" where
  "occ_accounts_override prepared =
     (case ps_er_meta prepared of
        Some meta \<Rightarrow>
          (if \<not> mt_simulated meta \<and> mt_settlement_accounts meta \<noteq> [] then Some (mt_settlement_accounts meta) else None)
      | None \<Rightarrow> None)"

definition er_plan_of :: "'u prepared_chunk_state \<Rightarrow> 'u er_blockhash_plan option" where
  "er_plan_of prepared =
     (case ps_er_meta prepared of
        Some meta \<Rightarrow> (if mt_simulated meta then None else mt_blockhash_plan meta)
      | None \<Rightarrow> None)"

definition er_lease :: "'u er_blockhash_plan \<Rightarrow> blockhash_lease" where
  "er_lease plan =
     \<lparr>bl_hash = eb_hash (bp_blockhash plan), bl_last_valid_block_height = eb_last_valid_block_height (bp_blockhash plan),
      bl_fetched_at = bp_blockhash_fetched_at plan, bl_refresh_reason = ManualRefresh\<rparr>"

definition acquire_lease ::
    "('u, 's, 'e, 'a, 'b, 'o, 'w, 'm, 'tx, 'sig) layer_deps \<Rightarrow> 'u prepared_chunk_state \<Rightarrow> 'b
      \<Rightarrow> (string + blockhash_lease \<times> lease_origin) \<times> 'b" where
  "acquire_lease deps prepared b =
     (case er_plan_of prepared of
        Some plan \<Rightarrow> (Inr (er_lease plan, ErLease), b)
      | None \<Rightarrow>
          (case ld_lease_for_intents deps (ps_intents prepared) b of
             (Inl e, b) \<Rightarrow> (Inl e, b)
           | (Inr lease, b) \<Rightarrow> (Inr (lease, BaselineLease), b)))"

text \<open>The closure that builds the message of a fee plan, and the sender with it.\<close>

definition build_closure ::
    "('u, 's, 'e, 'a, 'b, 'o, 'w, 'm, 'tx, 'sig) layer_deps \<Rightarrow> blockhash_lease \<Rightarrow> alt_resolution \<Rightarrow> user_intent list
      \<Rightarrow> fee_plan \<Rightarrow> 'w \<Rightarrow> (string + 'm) \<times> 'w" where
  "build_closure deps lease alts intents plan w =
     (let ctx = \<lparr>bc_payer = ld_payer deps, bc_blockhash = bl_hash lease, bc_fee = plan, bc_alts = alts,
                 bc_safety = ld_safety deps\<rparr>
      in (case build_v0_message (ld_api deps) ctx intents of
            Inl e \<Rightarrow> Inl (build_error_text (ld_key_text deps) e)
          | Inr msg \<Rightarrow> Inr msg, w))"

definition chunk_success_data_of ::
    "'u prepared_chunk_state \<Rightarrow> 'sig send_report \<Rightarrow> occ_snapshot \<Rightarrow> alt_resolution \<Rightarrow> blockhash_lease
      \<Rightarrow> ('u, 'sig) chunk_success_data" where
  "chunk_success_data_of prepared report snapshot alts lease =
     (let meta = ps_er_meta prepared
      in \<lparr>sd_report = report, sd_occ_snapshot = snapshot, sd_alt_resolution = alts, sd_lease = lease,
          sd_plan_fingerprint = Option.bind meta mt_plan_fingerprint,
          sd_er_blockhash_plan = Option.bind meta mt_blockhash_plan,
          sd_er_simulated = (case meta of Some m \<Rightarrow> mt_simulated m | None \<Rightarrow> False),
          sd_er_bhfa_ms = Option.bind meta mt_bhfa_ms, sd_er_signature = Option.bind meta mt_signature,
          sd_er_preflight_skipped = Option.bind meta mt_preflight_skipped,
          sd_er_submit_policy = Option.bind meta mt_submit_policy, sd_er_submit_host = Option.bind meta mt_submit_host,
          sd_er_bhfa_host = Option.bind meta mt_bhfa_host, sd_er_parity_retry = Option.bind meta mt_parity_retry\<rparr>)"

text \<open>The send with its lease; only the provider's own leases are reported back to it.\<close>

definition send_chunk ::
    "('u, 's, 'e, 'a, 'b, 'o, 'w, 'm, 'tx, 'sig) layer_deps \<Rightarrow> bool \<Rightarrow> 'u prepared_chunk_state \<Rightarrow> occ_snapshot
      \<Rightarrow> alt_resolution \<Rightarrow> blockhash_lease \<Rightarrow> lease_origin \<Rightarrow> ('s, 'e, 'a, 'b, 'o, 'w, 'tx) layer_world
      \<Rightarrow> ('u chunk_attempt_error + ('u, 'sig) chunk_success) \<times> ('s, 'e, 'a, 'b, 'o, 'w, 'tx) layer_world" where
  "send_chunk deps dry_run prepared snapshot alts lease origin w =
     (let env = (ld_send deps)\<lparr>se_build := build_closure deps lease alts (ps_intents prepared)\<rparr>;
          send_failed = (\<lambda>err txt w.
            (Inl \<lparr>ae_stage = StageSend, ae_error = err,
                  ae_retriable = (is_transient_error txt \<or> is_stale_blockhash_error txt),
                  ae_er_diag = ps_er_diag prepared\<rparr>,
             if is_stale_blockhash_error txt \<and> origin = BaselineLease
             then w\<lparr>lw_blockhash := ld_record_outcome deps lease StaleDetected (lw_blockhash w)\<rparr> else w))
      in case simulate_build_and_send_with_report env dry_run (lw_sender w) of
           None \<Rightarrow>
             (let txt = ''blocking send task join error: '' @ ld_join_text deps in send_failed (SendTaskFailed txt) txt w)
         | Some (Inl e, s) \<Rightarrow> send_failed (SendNotDone e) (send_error_text e) (w\<lparr>lw_sender := s\<rparr>)
         | Some (Inr report, s) \<Rightarrow>
             (Inr \<lparr>su_data = chunk_success_data_of prepared report snapshot alts lease, su_er_diag = ps_er_diag prepared\<rparr>,
              let w = w\<lparr>lw_sender := s\<rparr>
              in if origin = BaselineLease
                 then w\<lparr>lw_blockhash := ld_record_outcome deps lease LeaseSuccess (lw_blockhash w)\<rparr> else w))"

definition process_chunk_once ::
    "('u, 's, 'e, 'a, 'b, 'o, 'w, 'm, 'tx, 'sig) layer_deps \<Rightarrow> bool \<Rightarrow> 'u prepared_chunk_state
      \<Rightarrow> ('s, 'e, 'a, 'b, 'o, 'w, 'tx) layer_world
      \<Rightarrow> ('u chunk_attempt_error + ('u, 'sig) chunk_success) \<times> ('s, 'e, 'a, 'b, 'o, 'w, 'tx) layer_world" where
  "process_chunk_once deps dry_run prepared w =
     (let diag = ps_er_diag prepared
      in case (case occ_accounts_override prepared of
                 Some accounts \<Rightarrow>
                   capture_occ_with_retries_on_keys (ld_hash deps) (ld_fetch deps) (ld_occ_jitter deps) accounts
                     (ld_occ_config deps) (lw_occ w)
               | None \<Rightarrow>
                   capture_occ_with_retries (ld_hash deps) (ld_fetch deps) (ld_occ_jitter deps) (ps_intents prepared)
                     (ld_occ_config deps) (lw_occ w)) of
           (None, o') \<Rightarrow>
             (Inl \<lparr>ae_stage = StageOcc, ae_error = OccTaskFailed, ae_retriable = True, ae_er_diag = diag\<rparr>,
              w\<lparr>lw_occ := o'\<rparr>)
         | (Some (Inl e), o') \<Rightarrow> (Inl (occ_error_to_chunk_error e diag), w\<lparr>lw_occ := o'\<rparr>)
         | (Some (Inr snapshot), o') \<Rightarrow>
             (case ld_resolve_tables deps (ld_payer deps) (ps_intents prepared) (lw_alt w) of
                (alts, a) \<Rightarrow>
                  (case acquire_lease deps prepared (lw_blockhash w) of
                     (Inl e, b) \<Rightarrow>
                       (Inl \<lparr>ae_stage = StageBlockhash, ae_error = LeaseNotIssued e, ae_retriable = is_transient_error e,
                             ae_er_diag = diag\<rparr>,
                        w\<lparr>lw_occ := o', lw_alt := a, lw_blockhash := b\<rparr>)
                   | (Inr (lease, origin), b) \<Rightarrow>
                       send_chunk deps dry_run prepared snapshot alts lease origin
                         (w\<lparr>lw_occ := o', lw_alt := a, lw_blockhash := b\<rparr>))))"

section \<open>\<open>process_chunk\<close>\<close>

text \<open>One attempt: the ER stage, then the rest under a permit.\<close>

definition prepare_attempt ::
    "('u, 's, 'e, 'a, 'b, 'o, 'w, 'm, 'tx, 'sig) layer_deps \<Rightarrow> chunk_plan \<Rightarrow> ('s, 'e, 'a, 'b, 'o, 'w, 'tx) layer_world
      \<Rightarrow> ('u chunk_attempt_error + 'u prepared_chunk_state) \<times> ('s, 'e, 'a, 'b, 'o, 'w, 'tx) layer_world" where
  "prepare_attempt deps plan w =
     (case prepare_er_stage (ld_hash deps) (ld_er deps) (ld_payer deps) plan (lw_er w) of
        (Inl (err, diag), e) \<Rightarrow>
          (Inl \<lparr>ae_stage = StageSend, ae_error = PrepareFailed err, ae_retriable = False, ae_er_diag = diag\<rparr>,
           w\<lparr>lw_er := e\<rparr>)
      | (Inr prepared, e) \<Rightarrow> (Inr prepared, w\<lparr>lw_er := e\<rparr>))"

definition chunk_attempt ::
    "('u, 's, 'e, 'a, 'b, 'o, 'w, 'm, 'tx, 'sig) layer_deps \<Rightarrow> bool \<Rightarrow> chunk_plan \<Rightarrow> ('s, 'e, 'a, 'b, 'o, 'w, 'tx) layer_world
      \<Rightarrow> ('u chunk_attempt_error + ('u, 'sig) chunk_success) \<times> ('s, 'e, 'a, 'b, 'o, 'w, 'tx) layer_world" where
  "chunk_attempt deps dry_run plan w =
     (case prepare_attempt deps plan w of
        (Inl err, w) \<Rightarrow> (Inl err, w)
      | (Inr prepared, w) \<Rightarrow> process_chunk_once deps dry_run prepared w)"

definition retry_delay ::
    "('u, 's, 'e, 'a, 'b, 'o, 'w, 'm, 'tx, 'sig) layer_deps \<Rightarrow> parallel_layer_config \<Rightarrow> nat \<Rightarrow> nat \<Rightarrow> nat" where
  "retry_delay deps cfg attempt backoff =
     (let base_ms = max backoff 1; jitter_ms = ld_retry_jitter deps attempt (base_ms div 4)
      in min (base_ms + jitter_ms) (lc_max_backoff cfg))"

text \<open>The loop; \<open>attempt\<close> counts the attempts made before.\<close>

function attempt_loop ::
    "('u, 's, 'e, 'a, 'b, 'o, 'w, 'm, 'tx, 'sig) layer_deps \<Rightarrow> parallel_layer_config \<Rightarrow> chunk_plan \<Rightarrow> nat \<Rightarrow> nat
      \<Rightarrow> ('s, 'e, 'a, 'b, 'o, 'w, 'tx) layer_world
      \<Rightarrow> ('u, 'sig) chunk_result \<times> ('s, 'e, 'a, 'b, 'o, 'w, 'tx) layer_world" where
  "attempt_loop deps cfg plan attempt backoff w =
     (case chunk_attempt deps (lc_dry_run cfg) plan w of
        (Inr success, w) \<Rightarrow> (chunk_success_result plan (attempt + 1) success, w)
      | (Inl err, w) \<Rightarrow>
          if \<not> ae_retriable err \<or> attempt + 1 \<ge> lc_max_attempts cfg
          then (chunk_failure_result plan (attempt + 1) err, w)
          else attempt_loop deps cfg plan (attempt + 1) (min (lc_max_backoff cfg) (2 * backoff))
                 (w\<lparr>lw_sleeps := lw_sleeps w @ [retry_delay deps cfg (attempt + 1) backoff]\<rparr>))"
  by pat_completeness auto
termination
  by (relation "measure (\<lambda>(deps, cfg, plan, attempt, backoff, w). lc_max_attempts cfg - attempt)") auto

declare attempt_loop.simps [simp del]

definition process_chunk ::
    "('u, 's, 'e, 'a, 'b, 'o, 'w, 'm, 'tx, 'sig) layer_deps \<Rightarrow> parallel_layer_config \<Rightarrow> chunk_plan
      \<Rightarrow> ('s, 'e, 'a, 'b, 'o, 'w, 'tx) layer_world
      \<Rightarrow> ('u, 'sig) chunk_result \<times> ('s, 'e, 'a, 'b, 'o, 'w, 'tx) layer_world" where
  "process_chunk deps cfg plan w = attempt_loop deps cfg plan 0 (lc_base_backoff cfg) w"

section \<open>The retry loop\<close>

lemma min_pow: "min mx (2 ^ i * min mx c) = min mx (2 ^ i * (c :: nat))"
proof (cases "c \<le> mx")
  case False
  have "1 * mx \<le> 2 ^ i * mx" "1 * c \<le> 2 ^ i * c" by (rule mult_right_mono; simp)+
  then have "mx \<le> 2 ^ i * mx" "mx \<le> 2 ^ i * c" using False by linarith+
  then show ?thesis using False by (simp add: min_absorb1)
qed (simp add: min_def)

definition loop_result ::
    "('u, 's, 'e, 'a, 'b, 'o, 'w, 'm, 'tx, 'sig) layer_deps \<Rightarrow> parallel_layer_config \<Rightarrow> chunk_plan \<Rightarrow> nat \<Rightarrow> nat
      \<Rightarrow> ('s, 'e, 'a, 'b, 'o, 'w, 'tx) layer_world
      \<Rightarrow> ('u, 'sig) chunk_result \<Rightarrow> ('s, 'e, 'a, 'b, 'o, 'w, 'tx) layer_world \<Rightarrow> bool" where
  "loop_result deps cfg plan attempt backoff w r w' \<longleftrightarrow>
     attempt < cr_attempts r \<and> cr_attempts r \<le> max (attempt + 1) (lc_max_attempts cfg)
     \<and> cr_index r = cp_index plan \<and> cr_estimates r = cp_estimates plan
     \<and> (case cr_outcome r of
          ChunkSucceeded _ \<Rightarrow> True
        | ChunkFailed _ retriable _ \<Rightarrow> retriable \<longrightarrow> cr_attempts r = max (attempt + 1) (lc_max_attempts cfg)
        | WorkerPanicked \<Rightarrow> False)
     \<and> lw_sleeps w' = lw_sleeps w @
          map (\<lambda>i. retry_delay deps cfg (attempt + Suc i) (min (lc_max_backoff cfg) (2 ^ i * backoff)))
            [0..<cr_attempts r - attempt - 1]"

lemma prepare_attempt_sleeps: "prepare_attempt deps plan w = (r, w') \<Longrightarrow> lw_sleeps w' = lw_sleeps w"
  by (auto simp: prepare_attempt_def split: prod.splits sum.splits)

lemma process_chunk_once_sleeps: "process_chunk_once deps dry prepared w = (r, w') \<Longrightarrow> lw_sleeps w' = lw_sleeps w"
  by (auto simp: process_chunk_once_def send_chunk_def Let_def split: prod.splits sum.splits option.splits if_splits)

lemma chunk_attempt_sleeps: "chunk_attempt deps dry plan w = (r, w') \<Longrightarrow> lw_sleeps w' = lw_sleeps w"
  by (auto simp: chunk_attempt_def split: prod.splits sum.splits dest!: prepare_attempt_sleeps process_chunk_once_sleeps)

lemma attempt_loop_result:
  assumes "attempt_loop deps cfg plan attempt backoff w = (r, w')" and "backoff \<le> lc_max_backoff cfg"
  shows "loop_result deps cfg plan attempt backoff w r w'"
  using assms
proof (induction deps cfg plan attempt backoff w rule: attempt_loop.induct)
  case (1 deps cfg plan attempt backoff w)
  obtain res w1 where run: "chunk_attempt deps (lc_dry_run cfg) plan w = (res, w1)"
    by (cases "chunk_attempt deps (lc_dry_run cfg) plan w")
  note sl = chunk_attempt_sleeps [OF run]
  note unfold = attempt_loop.simps [of deps cfg plan attempt backoff w]
  show ?case
  proof (cases res)
    case (Inr success)
    then show ?thesis using 1(2) run sl unfold by (auto simp: loop_result_def chunk_success_result_def)
  next
    case (Inl err)
    show ?thesis
    proof (cases "\<not> ae_retriable err \<or> attempt + 1 \<ge> lc_max_attempts cfg")
      case True
      then show ?thesis using 1(2) run Inl sl unfold by (auto simp: loop_result_def chunk_failure_result_def)
    next
      case False
      let ?w = "w1\<lparr>lw_sleeps := lw_sleeps w1 @ [retry_delay deps cfg (attempt + 1) backoff]\<rparr>"
      have "attempt_loop deps cfg plan (attempt + 1) (min (lc_max_backoff cfg) (2 * backoff)) ?w = (r, w')"
        using 1(2) run Inl False unfold by simp
      then have IH: "loop_result deps cfg plan (attempt + 1) (min (lc_max_backoff cfg) (2 * backoff)) ?w r w'"
        using 1(1) run [symmetric] Inl False by (metis min.cobounded1)
      let ?n = "cr_attempts r - attempt - 1"
      have n: "?n = Suc (cr_attempts r - (attempt + 1) - 1)" using IH by (auto simp: loop_result_def)
      have "retry_delay deps cfg (attempt + 1) backoff #
          map (\<lambda>i. retry_delay deps cfg (attempt + 1 + Suc i)
             (min (lc_max_backoff cfg) (2 ^ i * min (lc_max_backoff cfg) (2 * backoff)))) [0..<cr_attempts r - (attempt + 1) - 1]
        = map (\<lambda>i. retry_delay deps cfg (attempt + Suc i) (min (lc_max_backoff cfg) (2 ^ i * backoff))) [0..<?n]"
        unfolding n map_upt_Suc using 1(3) by (simp add: min_pow mult.assoc [symmetric] mult.commute min_absorb2)
      then show ?thesis using IH False sl by (auto simp: loop_result_def max_def split: chunk_outcome.splits)
    qed
  qed
qed

section \<open>What an attempt sends\<close>

text \<open>A transaction that carries the given instructions after the two compute-budget instructions.\<close>

definition carries ::
    "('u, 's, 'e, 'a, 'b, 'o, 'w, 'm, 'tx, 'sig) layer_deps \<Rightarrow> instruction list \<Rightarrow> hash32 \<Rightarrow> 'tx \<Rightarrow> bool" where
  "carries deps ixs hash tx \<longleftrightarrow>
     (\<exists>(fee :: fee_plan) tables msg. ma_try_compile (ld_api deps) (ld_payer deps)
          ([ma_set_cu_limit (ld_api deps) (ucast (pl_cu_limit fee)), ma_set_cu_price (ld_api deps) (pl_cu_price fee)] @ ixs)
          tables hash = Inr msg
        \<and> se_sign (ld_send deps) msg = Inr tx)"

lemma build_closure_carries:
  assumes "build_closure deps lease alts intents fee x = (Inr msg, y)" and "se_sign (ld_send deps) msg = Inr tx"
  shows "carries deps (map ui_ix intents) (bl_hash lease) tx"
  using assms
  by (auto simp: build_closure_def build_v0_message_def message_instructions_def carries_def Let_def
      split: sum.splits option.splits if_splits)

fun is_send :: "'tx rpc_event \<Rightarrow> bool" where
  "is_send (EvSend tx) = True"
| "is_send _ = False"

text \<open>The events of one attempt: at most one send, and none in a dry run.\<close>

definition attempt_events ::
    "('u, 's, 'e, 'a, 'b, 'o, 'w, 'm, 'tx, 'sig) layer_deps \<Rightarrow> bool \<Rightarrow> instruction list \<Rightarrow> (hash32 \<Rightarrow> bool) \<Rightarrow> 'tx rpc_event list \<Rightarrow> bool" where
  "attempt_events deps dry_run ixs P evs \<longleftrightarrow>
     length (filter is_send evs) \<le> (if dry_run then 0 else 1)
     \<and> (\<forall>tx. EvSend tx \<in> set evs \<longrightarrow> (\<exists>hash. P hash \<and> carries deps ixs hash tx))"

lemma event_order_sends: "event_order dry pre evs \<Longrightarrow> length (filter is_send evs) \<le> (if dry then 0 else 1)"
  by (auto simp: event_order_def)

lemma send_chunk_events:
  assumes "send_chunk deps dry prepared snapshot alts lease origin w = (r, w')"
  shows "\<exists>evs. ss_log (lw_sender w') = ss_log (lw_sender w) @ evs
    \<and> attempt_events deps dry (map ui_ix (ps_intents prepared)) (\<lambda>h. h = bl_hash lease) evs"
proof -
  let ?env = "(ld_send deps)\<lparr>se_build := build_closure deps lease alts (ps_intents prepared)\<rparr>"
  show ?thesis
  proof (cases "simulate_build_and_send_with_report ?env dry (lw_sender w)")
    case None
    then have "lw_sender w' = lw_sender w" using assms by (auto simp: send_chunk_def Let_def split: if_splits)
    then show ?thesis by (intro exI [of _ "[]"]) (simp add: attempt_events_def)
  next
    case (Some p)
    obtain res s where run: "simulate_build_and_send_with_report ?env dry (lw_sender w) = Some (res, s)"
      using Some by (cases p) auto
    have s: "lw_sender w' = s" using assms run by (auto simp: send_chunk_def Let_def split: if_splits sum.splits)
    obtain evs where evs: "ss_log s = ss_log (lw_sender w) @ evs" "event_order dry (ss_pre_check_blockhash (lw_sender w)) evs"
      using report_log [OF run] by blast
    have "\<exists>hash. hash = bl_hash lease \<and> carries deps (map ui_ix (ps_intents prepared)) hash tx" if "EvSend tx \<in> set evs" for tx
    proof -
      have "\<exists>plan w vmsg w'. se_build ?env plan w = (Inr vmsg, w') \<and> se_sign ?env vmsg = Inr tx"
        using report_sends [OF run evs(1) that] .
      then show ?thesis by (auto dest: build_closure_carries)
    qed
    then show ?thesis using evs event_order_sends [OF evs(2)] s by (intro exI [of _ evs]) (simp add: attempt_events_def)
  qed
qed

definition lease_hash_ok :: "'u prepared_chunk_state \<Rightarrow> hash32 \<Rightarrow> bool" where
  "lease_hash_ok prepared h \<longleftrightarrow> (\<forall>plan. er_plan_of prepared = Some plan \<longrightarrow> h = eb_hash (bp_blockhash plan))"

lemma attempt_events_mono:
  "attempt_events deps dry ixs P evs \<Longrightarrow> (\<And>h. P h \<Longrightarrow> Q h) \<Longrightarrow> attempt_events deps dry ixs Q evs"
  unfolding attempt_events_def by blast

lemma attempt_events_Nil: "attempt_events deps dry ixs P []"
  by (simp add: attempt_events_def)

lemma acquire_lease_Inr:
  assumes "acquire_lease deps prepared b = (Inr (lease, origin), b')"
  shows "lease_hash_ok prepared (bl_hash lease)"
    and "case er_plan_of prepared of
           Some plan \<Rightarrow> lease = er_lease plan \<and> origin = ErLease \<and> b' = b
         | None \<Rightarrow> origin = BaselineLease \<and> ld_lease_for_intents deps (ps_intents prepared) b = (Inr lease, b')"
  using assms by (auto simp: acquire_lease_def lease_hash_ok_def er_lease_def split: option.splits prod.splits sum.splits)

text \<open>An attempt either ends before the send, or is the send with the lease it got.\<close>

lemma process_chunk_once_cases:
  assumes "process_chunk_once deps dry prepared w = (r, w')"
  obtains (early) err where "r = Inl err" "lw_sender w' = lw_sender w"
      "lw_blockhash w' \<in> {lw_blockhash w, snd (acquire_lease deps prepared (lw_blockhash w))}"
  | (send) snapshot alts lease origin w1 where "send_chunk deps dry prepared snapshot alts lease origin w1 = (r, w')"
      "lw_sender w1 = lw_sender w" "acquire_lease deps prepared (lw_blockhash w) = (Inr (lease, origin), lw_blockhash w1)"
proof -
  let ?occ = "case occ_accounts_override prepared of
      Some accounts \<Rightarrow> capture_occ_with_retries_on_keys (ld_hash deps) (ld_fetch deps) (ld_occ_jitter deps) accounts
                         (ld_occ_config deps) (lw_occ w)
    | None \<Rightarrow> capture_occ_with_retries (ld_hash deps) (ld_fetch deps) (ld_occ_jitter deps) (ps_intents prepared)
                (ld_occ_config deps) (lw_occ w)"
  obtain ro oc where occ: "?occ = (ro, oc)" by (cases ?occ)
  obtain alts a where alts: "ld_resolve_tables deps (ld_payer deps) (ps_intents prepared) (lw_alt w) = (alts, a)"
    by (cases "ld_resolve_tables deps (ld_payer deps) (ps_intents prepared) (lw_alt w)")
  obtain rl b where lease: "acquire_lease deps prepared (lw_blockhash w) = (rl, b)"
    by (cases "acquire_lease deps prepared (lw_blockhash w)")
  note step = assms [unfolded process_chunk_once_def Let_def occ]
  show thesis
  proof (cases "\<exists>snapshot l og. ro = Some (Inr snapshot) \<and> rl = Inr (l, og)")
    case True
    then obtain snapshot l og where ok: "ro = Some (Inr snapshot)" "rl = Inr (l, og)" by blast
    then show thesis using step lease alts
      by (intro send [of snapshot alts l og "w\<lparr>lw_occ := oc, lw_alt := a, lw_blockhash := b\<rparr>"]) simp_all
  next
    case False
    then have "isl r \<and> lw_sender w' = lw_sender w \<and> lw_blockhash w' \<in> {lw_blockhash w, b}"
      using step lease alts by (auto split: option.splits sum.splits)
    then show thesis using early lease by (cases r) auto
  qed
qed

lemma process_chunk_once_events:
  assumes "process_chunk_once deps dry prepared w = (r, w')"
  shows "\<exists>evs. ss_log (lw_sender w') = ss_log (lw_sender w) @ evs
    \<and> attempt_events deps dry (map ui_ix (ps_intents prepared)) (lease_hash_ok prepared) evs"
  using assms
proof (cases rule: process_chunk_once_cases)
  case early
  then show ?thesis by (intro exI [of _ "[]"]) (simp add: attempt_events_Nil)
next
  case (send snapshot alts lease origin w1)
  from send_chunk_events [OF send(1)] send(2) acquire_lease_Inr(1) [OF send(3)]
  show ?thesis by (auto elim!: attempt_events_mono)
qed

section \<open>What a chunk sends\<close>

text \<open>The deployment has no ER client, or one that keeps the contract.\<close>

definition client_contract :: "('u, 's, 'e, 'a, 'b, 'o, 'w, 'm, 'tx, 'sig) layer_deps \<Rightarrow> bool" where
  "client_contract deps \<longleftrightarrow> (case ld_er deps of Some ctx \<Rightarrow> er_client_contract ctx | None \<Rightarrow> True)"

lemma prepare_attempt_keeps:
  assumes "prepare_attempt deps plan w = (Inr prepared, w')" and "client_contract deps"
  shows "map ui_ix (ps_intents prepared) = map ui_ix (cp_intents plan)"
proof -
  obtain e where stage: "prepare_er_stage (ld_hash deps) (ld_er deps) (ld_payer deps) plan (lw_er w) = (Inr prepared, e)"
    using assms(1) by (auto simp: prepare_attempt_def split: prod.splits sum.splits)
  show ?thesis
  proof (cases "ld_er deps")
    case None
    with stage show ?thesis by (auto simp: prepare_er_stage_def Let_def)
  next
    case (Some ctx)
    then have "er_client_contract ctx" using assms(2) by (simp add: client_contract_def)
    from er_client_contract.prepared_instructions [OF this stage [unfolded Some]] show ?thesis .
  qed
qed

lemma prepare_attempt_sender: "prepare_attempt deps plan w = (r, w') \<Longrightarrow> lw_sender w' = lw_sender w"
  by (auto simp: prepare_attempt_def split: prod.splits sum.splits)

lemma chunk_attempt_events:
  assumes "chunk_attempt deps dry plan w = (r, w')" and "client_contract deps"
  shows "\<exists>evs. ss_log (lw_sender w') = ss_log (lw_sender w) @ evs
    \<and> attempt_events deps dry (map ui_ix (cp_intents plan)) (\<lambda>_. True) evs"
proof -
  obtain pr w1 where prep: "prepare_attempt deps plan w = (pr, w1)" by (cases "prepare_attempt deps plan w")
  note same = prepare_attempt_sender [OF prep]
  show ?thesis
  proof (cases pr)
    case (Inl err)
    then show ?thesis using assms(1) prep same
      by (intro exI [of _ "[]"]) (simp add: chunk_attempt_def attempt_events_Nil)
  next
    case (Inr prepared)
    then have "process_chunk_once deps dry prepared w1 = (r, w')" using assms(1) prep by (simp add: chunk_attempt_def)
    from process_chunk_once_events [OF this] same prepare_attempt_keeps [OF prep [unfolded Inr] assms(2)]
    show ?thesis by (auto elim!: attempt_events_mono)
  qed
qed

lemma attempt_events_append:
  assumes "attempt_events deps dry ixs P xs"
    and "length (filter is_send ys) \<le> (if dry then 0 else n)"
    and "\<forall>tx. EvSend tx \<in> set ys \<longrightarrow> (\<exists>hash. P hash \<and> carries deps ixs hash tx)"
  shows "length (filter is_send (xs @ ys)) \<le> (if dry then 0 else Suc n)"
    and "\<forall>tx. EvSend tx \<in> set (xs @ ys) \<longrightarrow> (\<exists>hash. P hash \<and> carries deps ixs hash tx)"
  using assms by (auto simp: attempt_events_def split: if_splits)

lemma attempt_loop_events:
  assumes "attempt_loop deps cfg plan attempt backoff w = (r, w')" and "client_contract deps"
  shows "\<exists>evs. ss_log (lw_sender w') = ss_log (lw_sender w) @ evs
    \<and> length (filter is_send evs) \<le> (if lc_dry_run cfg then 0 else cr_attempts r - attempt)
    \<and> (\<forall>tx. EvSend tx \<in> set evs \<longrightarrow> (\<exists>hash. True \<and> carries deps (map ui_ix (cp_intents plan)) hash tx))
    \<and> attempt < cr_attempts r"
  using assms
proof (induction deps cfg plan attempt backoff w rule: attempt_loop.induct)
  case (1 deps cfg plan attempt backoff w)
  obtain res w1 where run: "chunk_attempt deps (lc_dry_run cfg) plan w = (res, w1)"
    by (cases "chunk_attempt deps (lc_dry_run cfg) plan w")
  from chunk_attempt_events [OF run 1(3)] obtain evs where evs: "ss_log (lw_sender w1) = ss_log (lw_sender w) @ evs"
    "attempt_events deps (lc_dry_run cfg) (map ui_ix (cp_intents plan)) (\<lambda>_. True) evs" by blast
  note unfold = attempt_loop.simps [of deps cfg plan attempt backoff w]
  show ?case
  proof (cases "\<exists>err. res = Inl err \<and> ae_retriable err \<and> attempt + 1 < lc_max_attempts cfg")
    case False
    then have "w' = w1 \<and> cr_attempts r = attempt + 1"
      using 1(2) run unfold by (auto simp: chunk_success_result_def chunk_failure_result_def split: sum.splits if_splits)
    then show ?thesis using evs by (intro exI [of _ evs]) (auto simp: attempt_events_def)
  next
    case True
    then obtain err where err: "res = Inl err" "ae_retriable err" "attempt + 1 < lc_max_attempts cfg" by blast
    let ?w = "w1\<lparr>lw_sleeps := lw_sleeps w1 @ [retry_delay deps cfg (attempt + 1) backoff]\<rparr>"
    have more: "attempt_loop deps cfg plan (attempt + 1) (min (lc_max_backoff cfg) (2 * backoff)) ?w = (r, w')"
      using 1(2) run err unfold by simp
    have "\<not> (\<not> ae_retriable err \<or> attempt + 1 \<ge> lc_max_attempts cfg)" using err by simp
    from 1(1) [OF run [symmetric] err(1) this more 1(3)] obtain ys where ys:
      "ss_log (lw_sender w') = ss_log (lw_sender w1) @ ys"
      "length (filter is_send ys) \<le> (if lc_dry_run cfg then 0 else cr_attempts r - (attempt + 1))"
      "\<forall>tx. EvSend tx \<in> set ys \<longrightarrow> (\<exists>hash. True \<and> carries deps (map ui_ix (cp_intents plan)) hash tx)"
      "attempt + 1 < cr_attempts r" by auto
    have "length (filter is_send (evs @ ys)) \<le> (if lc_dry_run cfg then 0 else cr_attempts r - attempt)"
      using attempt_events_append(1) [OF evs(2) ys(2,3)] ys(4) by (auto split: if_splits)
    then show ?thesis
      using evs(1) ys(1,4) attempt_events_append(2) [OF evs(2) ys(2,3)] by (intro exI [of _ "evs @ ys"]) simp
  qed
qed

lemma simulated_unsigned:
  assumes "prepare_er_stage H (Some ctx) payer plan e = (Inr st, e')" and "ps_er_meta st = Some meta" and "mt_signature meta \<noteq> None"
  shows "\<not> mt_simulated meta"
proof -
  have "\<not> mt_simulated (pc_meta prepared)"
    if "prepare_chunk H ctx payer (cp_intents plan) e1 = (Inr prepared, e2)" "mt_signature (pc_meta prepared) \<noteq> None"
    for prepared e1 e2
    using that
    by (auto simp: prepare_chunk_def prepare_chunk_inner_def settle_def Let_def fall_back_def simulate_chunk_def
        split: if_splits prod.splits sum.splits)
  then show ?thesis
    using assms by (auto simp: prepare_er_stage_def Let_def split: if_splits option.splits prod.splits sum.splits)
qed

lemma send_chunk_success:
  assumes "send_chunk deps dry prepared snapshot alts lease origin w = (Inr success, w')"
  shows "su_data success = chunk_success_data_of prepared (sd_report (su_data success)) snapshot alts lease"
    and "\<not> dry \<Longrightarrow> \<exists>evs tx. ss_log (lw_sender w') = ss_log (lw_sender w) @ evs \<and> EvSend tx \<in> set evs
          \<and> carries deps (map ui_ix (ps_intents prepared)) (bl_hash lease) tx"
    and "lw_er w' = lw_er w"
    and "lw_blockhash w' = (if origin = BaselineLease then ld_record_outcome deps lease LeaseSuccess (lw_blockhash w)
           else lw_blockhash w)"
proof -
  let ?env = "(ld_send deps)\<lparr>se_build := build_closure deps lease alts (ps_intents prepared)\<rparr>"
  obtain report s where run: "simulate_build_and_send_with_report ?env dry (lw_sender w) = Some (Inr report, s)"
    using assms by (auto simp: send_chunk_def Let_def split: option.splits prod.splits sum.splits)
  have res: "su_data success = chunk_success_data_of prepared report snapshot alts lease" "lw_sender w' = s"
    "lw_er w' = lw_er w"
    "lw_blockhash w' = (if origin = BaselineLease then ld_record_outcome deps lease LeaseSuccess (lw_blockhash w)
           else lw_blockhash w)"
    using assms run by (auto simp: send_chunk_def Let_def)
  then show "su_data success = chunk_success_data_of prepared (sd_report (su_data success)) snapshot alts lease"
    "lw_er w' = lw_er w"
    "lw_blockhash w' = (if origin = BaselineLease then ld_record_outcome deps lease LeaseSuccess (lw_blockhash w)
           else lw_blockhash w)"
    by (simp_all add: chunk_success_data_of_def Let_def)
  assume "\<not> dry"
  with report_success [OF run] obtain evs x vmsg y tx where
    "ss_log s = ss_log (lw_sender w) @ evs" "se_build ?env (sp_final_plan report) x = (Inr vmsg, y)" "se_sign ?env vmsg = Inr tx"
    "EvSend tx \<in> set evs" by auto
  then show "\<exists>evs tx. ss_log (lw_sender w') = ss_log (lw_sender w) @ evs \<and> EvSend tx \<in> set evs
          \<and> carries deps (map ui_ix (ps_intents prepared)) (bl_hash lease) tx"
    using res(2) by (auto intro!: exI [of _ evs] exI [of _ tx] dest: build_closure_carries)
qed

lemma process_chunk_once_er: "process_chunk_once deps dry prepared w = (r, w') \<Longrightarrow> lw_er w' = lw_er w"
  by (auto simp: process_chunk_once_def send_chunk_def Let_def split: prod.splits sum.splits option.splits if_splits)

lemma chunk_attempt_er_run:
  assumes run: "chunk_attempt deps False plan w = (Inr success, w')"
    and er: "ld_er deps = Some (http_ctx (ld_hash deps) env cfg t en sim)" and retries: "cf_retries cfg < usize_max"
    and signed: "sd_er_signature (su_data success) \<noteq> None"
  shows "\<exists>hash tx0 b64 skip reqs evs tx.
      ee_sign env (map ui_ix (cp_intents plan)) hash = Inr tx0 \<and> ee_encode env tx0 = Inr b64
      \<and> rw_requests (lw_er w') = rw_requests (lw_er w) @ reqs \<and> (\<exists>q\<in>set reqs. hr_call q = SendTransaction b64 skip)
      \<and> ss_log (lw_sender w') = ss_log (lw_sender w) @ evs \<and> EvSend tx \<in> set evs
      \<and> carries deps (map ui_ix (cp_intents plan)) hash tx"
proof -
  obtain prepared w1 where prep: "prepare_attempt deps plan w = (Inr prepared, w1)"
    and once: "process_chunk_once deps False prepared w1 = (Inr success, w')"
    using run by (auto simp: chunk_attempt_def split: prod.splits sum.splits)
  have stage: "prepare_er_stage (ld_hash deps) (Some (http_ctx (ld_hash deps) env cfg t en sim)) (ld_payer deps) plan (lw_er w)
      = (Inr prepared, lw_er w1)"
    using prep er by (auto simp: prepare_attempt_def split: prod.splits sum.splits)
  have ixs: "map ui_ix (ps_intents prepared) = map ui_ix (cp_intents plan)"
    using http.prepared_instructions [OF stage] .
  from once obtain snapshot alts lease origin w2 where
    send: "send_chunk deps False prepared snapshot alts lease origin w2 = (Inr success, w')" "lw_sender w2 = lw_sender w1"
    "acquire_lease deps prepared (lw_blockhash w1) = (Inr (lease, origin), lw_blockhash w2)"
    by (cases rule: process_chunk_once_cases) auto
  note s = send_chunk_success [OF send(1)]
  obtain meta where meta: "ps_er_meta prepared = Some meta" "mt_signature meta \<noteq> None"
    using signed arg_cong [OF s(1), of sd_er_signature] by (auto simp: chunk_success_data_of_def Let_def bind_eq_Some_conv)
  note real = simulated_unsigned [OF stage meta]
  from stage_er_run [OF stage meta(1) real retries] obtain bplan tx0 b64 skip reqs where ex:
    "mt_blockhash_plan meta = Some bplan" "ee_sign env (map ui_ix (cp_intents plan)) (eb_hash (bp_blockhash bplan)) = Inr tx0"
    "ee_encode env tx0 = Inr b64" "rw_requests (lw_er w1) = rw_requests (lw_er w) @ reqs"
    "\<exists>q\<in>set reqs. hr_call q = SendTransaction b64 skip" by blast
  have "bl_hash lease = eb_hash (bp_blockhash bplan)"
    using acquire_lease_Inr(1) [OF send(3)] meta(1) real ex(1) by (simp add: lease_hash_ok_def er_plan_of_def)
  with s(2) ixs send(2) prepare_attempt_sender [OF prep] obtain evs tx where
    "ss_log (lw_sender w') = ss_log (lw_sender w) @ evs" "EvSend tx \<in> set evs"
    "carries deps (map ui_ix (cp_intents plan)) (eb_hash (bp_blockhash bplan)) tx" by auto
  moreover have "rw_requests (lw_er w') = rw_requests (lw_er w) @ reqs" using ex(4) process_chunk_once_er [OF once] by simp
  ultimately show ?thesis using ex(2,3,5) by blast
qed

section \<open>A deployment for the examples\<close>

text \<open>
  The HTTP client of the theory Er, whose override host fails every transaction with \<open>-32002\<close>; every account exists at
  slot 5, there are no lookup tables, a lease has the hash 9, and the chain accepts every transaction.
\<close>

definition demo_ctx :: "(string, (string, nat) er_client) er_execution_ctx" where
  "demo_ctx = http_ctx (\<lambda>_. 0) (demo_env (- 32002) ''custom program error'') demo_config (\<lambda>_. ''error'') True True"

definition demo_plan :: chunk_plan where
  "demo_plan =
     \<lparr>cp_index = 0, cp_intents = [demo_intent],
      cp_estimates = \<lparr>ce_est_cu = 50000, ce_est_msg_bytes = 600, ce_alt_ro_count = 0, ce_alt_wr_count = 0\<rparr>,
      cp_merged_indices = []\<rparr>"

definition demo_client :: "(string, nat) er_client" where
  "demo_client = er_client_new None 1 0"

lemma demo_begin:
  "begin_session (demo_env code msg) demo_config [5] demo_client = (Inr demo_session, demo_client)"
  by (simp add: begin_session_def begin_session_router_def resolve_route_def Let_def demo_client_def er_client_new_def
      demo_session_def demo_config_def demo_env_def demo_net_def resolve_hosts_def)

lemma demo_execute:
  "\<exists>out s' p. execute (\<lambda>_. 0) (demo_env (- 32002) ''custom program error'') demo_config demo_session [demo_intent] demo_client = (Inr out, s')
     \<and> eo_settlement_instructions out = [ui_ix demo_intent] \<and> eo_settlement_accounts out = []
     \<and> eo_signature out = Some ''sig'' \<and> eo_plan_fingerprint out \<noteq> None
     \<and> eo_blockhash_plan out = Some p \<and> eb_hash (bp_blockhash p) = 3
     \<and> map (\<lambda>q. (hr_url q, hr_call q)) (rw_requests s') =
         [(''router'', GetBlockhashForAccounts [5]), (''override'', SimulateTransaction ''tx''),
          (''override'', SendTransaction ''tx'' False), (''router'', SendTransaction ''tx'' True)]"
proof -
  have "intents_to_instructions [demo_intent] = Inr [ui_ix demo_intent]"
    by (simp add: intents_to_instructions_def demo_intent_def Let_def)
  then show ?thesis
    apply (simp add: demo_client_def execute_def execute_router_def with_context_def demo_acquire)
    apply (simp add: demo_eval_defs)
    done
qed

lemma on_telemetry_demo [simp]: "on_telemetry f demo_client = demo_client"
  by (simp add: on_telemetry_def demo_client_def er_client_new_def)

lemma demo_stage:
  "\<exists>st e' meta p. prepare_er_stage (\<lambda>_. 0) (Some demo_ctx) 5 demo_plan demo_client = (Inr st, e')
     \<and> ps_er_meta st = Some meta \<and> \<not> mt_simulated meta \<and> mt_signature meta = Some ''sig'' \<and> mt_settlement_accounts meta = [5]
     \<and> map ui_ix (ps_intents st) = [ui_ix demo_intent] \<and> ps_intents st \<noteq> []
     \<and> mt_blockhash_plan meta = Some p \<and> eb_hash (bp_blockhash p) = 3
     \<and> map (\<lambda>q. (hr_url q, hr_call q)) (rw_requests e') =
         [(''router'', GetBlockhashForAccounts [5]), (''override'', SimulateTransaction ''tx''),
          (''override'', SendTransaction ''tx'' False), (''router'', SendTransaction ''tx'' True)]"
proof -
  obtain out s' p where out: "execute (\<lambda>_. 0) (demo_env (- 32002) ''custom program error'') demo_config demo_session [demo_intent] demo_client = (Inr out, s')"
    "eo_settlement_instructions out = [ui_ix demo_intent]" "eo_settlement_accounts out = []"
    "eo_signature out = Some ''sig''" "eo_blockhash_plan out = Some p" "eb_hash (bp_blockhash p) = 3"
    "map (\<lambda>q. (hr_url q, hr_call q)) (rw_requests s') =
         [(''router'', GetBlockhashForAccounts [5]), (''override'', SimulateTransaction ''tx''),
          (''override'', SendTransaction ''tx'' False), (''router'', SendTransaction ''tx'' True)]"
    using demo_execute by (elim exE conjE) (rule that)
  have accounts: "collect_session_accounts 5 [demo_intent] = [5]"
    by (simp add: collect_session_accounts_def demo_intent_def)
  have skip: "skip_reason demo_ctx demo_plan = None"
    by (simp add: skip_reason_def demo_plan_def ER_SMALL_MESSAGE_BYTES_def demo_ctx_def demo_config_def Let_def)
  have fields: "cp_intents demo_plan = [demo_intent]" "cp_merged_indices demo_plan = []" "ex_enabled demo_ctx"
    "ex_begin_session demo_ctx = begin_session (demo_env (- 32002) ''custom program error'') demo_config"
    "ex_execute demo_ctx = execute (\<lambda>_. 0) (demo_env (- 32002) ''custom program error'') demo_config"
    "ex_telemetry demo_ctx = on_telemetry" "ex_end_session demo_ctx = end_session"
    by (simp_all add: demo_plan_def demo_ctx_def)
  show ?thesis
    by (simp add: prepare_er_stage_def skip Let_def fields prepare_chunk_def prepare_chunk_inner_def accounts demo_begin out
        end_session_def settle_def settlement_intents_of_def normalized_def user_intent_new_correct)
qed

definition demo_fetch :: "unit fetcher" where
  "demo_fetch s keys =
     (Some (Inr (\<lambda>k. Some \<lparr>fa_key = k, fa_lamports = 1, fa_owner = 0, fa_data = [], fa_slot = 5\<rparr>)), s)"

definition demo_api :: "(hash32 \<times> instruction list) message_api" where
  "demo_api =
     \<lparr>ma_set_cu_limit = (\<lambda>l. \<lparr>ix_program_id = 77, ix_accounts = [], ix_data = [2]\<rparr>),
      ma_set_cu_price = (\<lambda>p. \<lparr>ix_program_id = 77, ix_accounts = [], ix_data = [3]\<rparr>),
      ma_try_compile = (\<lambda>payer ixs tables bh. Inr (bh, ixs)),
      ma_bincode_len = (\<lambda>m. Inr (length (snd m))), ma_num_required_signatures = (\<lambda>_. 1)\<rparr>"

definition demo_send :: "(basic_fee_oracle, unit, hash32 \<times> instruction list, hash32 \<times> instruction list, nat) send_env" where
  "demo_send =
     \<lparr>se_suggest = (\<lambda>orc. Some (basic_suggest orc, orc)), se_clamp = basic_clamp, se_build = (\<lambda>plan w. (Inl [], w)),
      se_sign = Inr, se_simulate = (\<lambda>tx w. (Inr \<lparr>sr_err = None, sr_units_consumed = Some 300\<rparr>, w)),
      se_is_blockhash_valid = (\<lambda>bh w. (Inr True, w)), se_send = (\<lambda>tx w. (Inr 1, w)),
      se_bincode_len = (\<lambda>m. Inr (length (snd m))), se_required_signatures = (\<lambda>_. 1), se_recent_blockhash = fst\<rparr>"

definition demo_deps ::
    "(string, unit, (string, nat) er_client, unit, lease_outcome list, basic_fee_oracle, unit, hash32 \<times> instruction list,
      hash32 \<times> instruction list, nat) layer_deps" where
  "demo_deps =
     \<lparr>ld_hash = (\<lambda>_. 0), ld_payer = 5, ld_safety = safety_margins_default, ld_er = Some demo_ctx, ld_fetch = demo_fetch,
      ld_occ_jitter = (\<lambda>_. 0), ld_occ_config = occ_config_default,
      ld_resolve_tables = (\<lambda>payer intents a. (resolution_default, a)),
      ld_lease_for_intents = (\<lambda>intents b. (Inr \<lparr>bl_hash = 9, bl_last_valid_block_height = 50, bl_fetched_at = 0,
                                             bl_refresh_reason = InitialRefresh\<rparr>, b)),
      ld_record_outcome = (\<lambda>lease outcome b. b @ [outcome]), ld_api = demo_api, ld_key_text = (\<lambda>_. []),
      ld_send = demo_send, ld_join_text = ''task panicked'', ld_retry_jitter = (\<lambda>attempt n. 0)\<rparr>"

definition demo_world ::
    "(unit, (string, nat) er_client, unit, lease_outcome list, basic_fee_oracle, unit, hash32 \<times> instruction list) layer_world" where
  "demo_world =
     \<lparr>lw_occ = \<lparr>ow_fetcher = (), ow_metrics = \<lparr>om_captures = 0, om_retries = 0, om_slot_drift_rejects = 0, om_rpc_errors = 0\<rparr>, ow_sleeps = []\<rparr>, lw_er = demo_client, lw_alt = (),
      lw_blockhash = [], lw_sender = sender_new basic_fee_oracle_default () rpc_metrics_zero, lw_sleeps = []\<rparr>"

lemma demo_build:
  assumes "intents \<noteq> []" and "map ui_ix intents = [ui_ix demo_intent]"
  shows "\<exists>m. build_closure demo_deps lease resolution_default intents fee x = (Inr (bl_hash lease, m), x) \<and> length m = 3"
proof -
  have "length intents = 1" using arg_cong [OF assms(2), of length] by simp
  then show ?thesis
    using assms(1)
    by (simp add: build_closure_def build_v0_message_def demo_deps_def demo_api_def Let_def validate_alt_resolution_def
        resolution_default_def message_instructions_def safety_margins_default_def max_message_bytes_with_signers_def
        sig_shortvec_len_def PACKET_DATA_SIZE_def)
qed

lemma demo_sends:
  assumes "intents \<noteq> []" and "map ui_ix intents = [ui_ix demo_intent]"
  shows "\<exists>report s'. simulate_build_and_send_with_report
      ((ld_send demo_deps)\<lparr>se_build := build_closure demo_deps lease resolution_default intents\<rparr>) dry
      (lw_sender demo_world) = Some (Inr report, s')"
proof -
  define b where "b = (\<lambda>(fee :: fee_plan) (x :: unit). build_closure demo_deps lease resolution_default intents fee x)"
  have eta: "build_closure demo_deps lease resolution_default intents = b" by (simp add: b_def)
  have "\<forall>fee. \<exists>m. b fee () = (Inr (bl_hash lease, m), ())" using demo_build [OF assms] by (auto simp: b_def)
  then obtain m where m: "\<And>fee. b fee () = (Inr (bl_hash lease, m fee), ())" by metis
  show ?thesis
    unfolding eta
    by (simp add: simulate_build_and_send_with_report_def demo_deps_def demo_send_def demo_world_def sender_new_def Let_def
        simulate_step_def send_step_def tighten_plan_def m)
qed

lemma demo_capture:
  "\<exists>snapshot o'. capture_occ_with_retries_on_keys (\<lambda>_. 0) demo_fetch (\<lambda>_. 0) [5] occ_config_default (lw_occ demo_world)
     = (Some (Inr snapshot), o')"
  by (simp add: capture_occ_with_retries_on_keys_def capture_with_targets_def capture_loop.simps capture_once_def demo_fetch_def
      demo_world_def within_drift_def occ_config_default_def Let_def)

lemma demo_attempt:
  "\<exists>success w'. chunk_attempt demo_deps dry demo_plan demo_world = (Inr success, w')
     \<and> sd_er_signature (su_data success) = Some ''sig'' \<and> (sp_signature (sd_report (su_data success)) = None \<longleftrightarrow> dry)
     \<and> map (\<lambda>q. (hr_url q, hr_call q)) (rw_requests (lw_er w')) =
         [(''router'', GetBlockhashForAccounts [5]), (''override'', SimulateTransaction ''tx''),
          (''override'', SendTransaction ''tx'' False), (''router'', SendTransaction ''tx'' True)]"
proof -
  obtain st e' meta p where st: "prepare_er_stage (\<lambda>_. 0) (Some demo_ctx) 5 demo_plan demo_client = (Inr st, e')"
    "ps_er_meta st = Some meta" "\<not> mt_simulated meta" "mt_signature meta = Some ''sig''" "mt_settlement_accounts meta = [5]"
    "map ui_ix (ps_intents st) = [ui_ix demo_intent]" "ps_intents st \<noteq> []" "mt_blockhash_plan meta = Some p" "eb_hash (bp_blockhash p) = 3"
    "map (\<lambda>q. (hr_url q, hr_call q)) (rw_requests e') =
         [(''router'', GetBlockhashForAccounts [5]), (''override'', SimulateTransaction ''tx''),
          (''override'', SendTransaction ''tx'' False), (''router'', SendTransaction ''tx'' True)]"
    using demo_stage by (elim exE conjE) (rule that)
  obtain snapshot oc where cap: "capture_occ_with_retries_on_keys (\<lambda>_. 0) demo_fetch (\<lambda>_. 0) [5] occ_config_default (lw_occ demo_world)
     = (Some (Inr snapshot), oc)" using demo_capture by blast
  obtain report s' where send: "simulate_build_and_send_with_report
      ((ld_send demo_deps)\<lparr>se_build := build_closure demo_deps (er_lease p) resolution_default (ps_intents st)\<rparr>) dry
      (lw_sender demo_world) = Some (Inr report, s')"
    using demo_sends [OF st(7,6)] by blast
  have sig: "sp_signature report = None \<longleftrightarrow> dry" using report_success [OF send] by blast
  have fields: "ld_hash demo_deps = (\<lambda>_. 0)" "ld_er demo_deps = Some demo_ctx" "ld_payer demo_deps = 5" "ld_fetch demo_deps = demo_fetch"
    "ld_occ_jitter demo_deps = (\<lambda>_. 0)" "ld_occ_config demo_deps = occ_config_default"
    "ld_resolve_tables demo_deps payer is a = (resolution_default, a)" "lw_er demo_world = demo_client" for payer "is" a
    by (simp_all add: demo_deps_def demo_world_def)
  show ?thesis
    by (simp add: chunk_attempt_def prepare_attempt_def fields st process_chunk_once_def Let_def occ_accounts_override_def cap
        acquire_lease_def er_plan_of_def send_chunk_def send chunk_success_data_of_def sig)
qed

section \<open>Properties\<close>

text \<open>
  C10: The retry loop of a chunk ends: it makes between one and \<open>max_attempts\<close> attempts, a failure that could be retried
  is final only after the last of them, and the result names the chunk. Before attempt \<open>i + 2\<close> it
  sleeps once, for a back-off that doubles from the base with its jitter, and never more than the configured
  maximum.
\<close>

theorem process_chunk_bounded:
  assumes "process_chunk deps cfg plan w = (r, w')" and "lc_base_backoff cfg \<le> lc_max_backoff cfg"
  shows "loop_result deps cfg plan 0 (lc_base_backoff cfg) w r w'
    \<and> (\<exists>ds. lw_sleeps w' = lw_sleeps w @ ds \<and> length ds < cr_attempts r \<and> list_all (\<lambda>d. d \<le> lc_max_backoff cfg) ds)"
proof
  show res: "loop_result deps cfg plan 0 (lc_base_backoff cfg) w r w'"
    using assms by (auto simp: process_chunk_def intro: attempt_loop_result)
  have "retry_delay deps cfg k b \<le> lc_max_backoff cfg" for k b by (simp add: retry_delay_def Let_def)
  with res show "\<exists>ds. lw_sleeps w' = lw_sleeps w @ ds \<and> length ds < cr_attempts r \<and> list_all (\<lambda>d. d \<le> lc_max_backoff cfg) ds"
    by (auto simp: loop_result_def list_all_iff)
qed

definition demo_layer_config :: "bool \<Rightarrow> parallel_layer_config" where
  "demo_layer_config dry =
     \<lparr>lc_max_concurrency = 6, lc_max_attempts = 3, lc_base_backoff = 200, lc_max_backoff = 1500, lc_dry_run = dry\<rparr>"

theorem process_chunk_bounded_witness:
  "\<exists>r w'. process_chunk demo_deps (demo_layer_config False) demo_plan demo_world = (r, w') \<and> 0 < cr_attempts r \<and> cr_attempts r \<le> 3"
proof -
  obtain r w' where run: "process_chunk demo_deps (demo_layer_config False) demo_plan demo_world = (r, w')"
    by (cases "process_chunk demo_deps (demo_layer_config False) demo_plan demo_world")
  have cfg: "lc_max_attempts (demo_layer_config False) = 3"
    "lc_base_backoff (demo_layer_config False) \<le> lc_max_backoff (demo_layer_config False)"
    by (simp_all add: demo_layer_config_def)
  from process_chunk_bounded [OF run cfg(2)] have "0 < cr_attempts r \<and> cr_attempts r \<le> 3"
    by (simp add: loop_result_def cfg(1))
  then show ?thesis using run by blast
qed


lemma demo_contract: "client_contract demo_deps"
  using http.er_client_contract_axioms by (simp add: client_contract_def demo_deps_def demo_ctx_def)


text \<open>
  C33: What the ER client executed is executed again on the chain: whenever an attempt succeeds with a signature of the
  ER client, that client has submitted a signed transaction of the chunk's instructions over a blockhash, and the
  sender has sent a second transaction of the same instructions over the same blockhash.
\<close>

theorem er_run_is_sent_again:
  assumes "chunk_attempt deps False plan w = (Inr success, w')"
    and "ld_er deps = Some (http_ctx (ld_hash deps) env cfg t en sim)" and "cf_retries cfg < usize_max"
    and "sd_er_signature (su_data success) \<noteq> None"
  shows "\<exists>hash tx0 b64 skip reqs evs tx.
      ee_sign env (map ui_ix (cp_intents plan)) hash = Inr tx0 \<and> ee_encode env tx0 = Inr b64
      \<and> rw_requests (lw_er w') = rw_requests (lw_er w) @ reqs \<and> (\<exists>q\<in>set reqs. hr_call q = SendTransaction b64 skip)
      \<and> ss_log (lw_sender w') = ss_log (lw_sender w) @ evs \<and> EvSend tx \<in> set evs
      \<and> carries deps (map ui_ix (cp_intents plan)) hash tx"
  using assms by (rule chunk_attempt_er_run)

theorem er_run_is_sent_again_witness:
  "\<exists>success w' evs tx. chunk_attempt demo_deps False demo_plan demo_world = (Inr success, w')
     \<and> ss_log (lw_sender w') = ss_log (lw_sender demo_world) @ evs \<and> EvSend tx \<in> set evs"
proof -
  obtain success w' where run: "chunk_attempt demo_deps False demo_plan demo_world = (Inr success, w')"
    "sd_er_signature (su_data success) = Some ''sig''"
    using demo_attempt by blast
  have er: "ld_er demo_deps =
      Some (http_ctx (ld_hash demo_deps) (demo_env (- 32002) ''custom program error'') demo_config (\<lambda>_. ''error'') True True)"
    by (simp add: demo_deps_def demo_ctx_def)
  have "cf_retries demo_config < usize_max" by (simp add: demo_config_def usize_max_def)
  from er_run_is_sent_again [OF run(1) er this] run show ?thesis by fastforce
qed

text \<open>
  A dry run with the ER client is not dry: the chunk is reported as a success without a signature of the chain and
  no transaction went to the sender, but the ER client has sent the transaction twice, to the override host and to the router.
\<close>

theorem dry_run_still_executes:
  "\<exists>r w' data. process_chunk demo_deps (demo_layer_config True) demo_plan demo_world = (r, w')
     \<and> cr_outcome r = ChunkSucceeded data \<and> sp_signature (sd_report data) = None
     \<and> filter is_send (ss_log (lw_sender w')) = []
     \<and> [q. q \<leftarrow> map (\<lambda>q. (hr_url q, hr_call q)) (rw_requests (lw_er w')), snd q \<noteq> GetBlockhashForAccounts [5]] =
         [(''override'', SimulateTransaction ''tx''), (''override'', SendTransaction ''tx'' False),
          (''router'', SendTransaction ''tx'' True)]"
proof -
  obtain success w' where run: "chunk_attempt demo_deps True demo_plan demo_world = (Inr success, w')"
    "sp_signature (sd_report (su_data success)) = None"
    "map (\<lambda>q. (hr_url q, hr_call q)) (rw_requests (lw_er w')) =
         [(''router'', GetBlockhashForAccounts [5]), (''override'', SimulateTransaction ''tx''),
          (''override'', SendTransaction ''tx'' False), (''router'', SendTransaction ''tx'' True)]"
    using demo_attempt [of True] by auto
  have "process_chunk demo_deps (demo_layer_config True) demo_plan demo_world = (chunk_success_result demo_plan 1 success, w')"
    by (simp add: process_chunk_def attempt_loop.simps demo_layer_config_def run(1))
  moreover have "filter is_send (ss_log (lw_sender w')) = []"
    using chunk_attempt_events [OF run(1) demo_contract]
    by (auto simp: attempt_events_def demo_world_def sender_new_def)
  ultimately show ?thesis using run(2,3) by (auto simp: chunk_success_result_def)
qed

text \<open>
  Errors are retried by the digits and words in their text: a message of 1500 bytes that exceeds its budget, and a
  program error with the code 6500, count as the HTTP status 500 and are retried, although the same attempt fails
  again. A send that the chain rejects because the blockhash is not found is neither transient nor stale, so with the
  pre-check off an expired lease is neither refreshed nor retried.
\<close>

theorem errors_classified_by_text:
  "is_transient_error (send_error_text (BuildFailed (build_error_text key_text (MessageTooLarge 1500 1103 1))))
   \<and> is_transient_error (send_error_text (SimulationError ''InstructionError(0, Custom(6500))''))
   \<and> \<not> is_transient_error (send_error_text (SendFailed ''RPC response error -32002: Transaction simulation failed: Blockhash not found''))
   \<and> \<not> is_stale_blockhash_error (send_error_text (SendFailed ''RPC response error -32002: Transaction simulation failed: Blockhash not found''))
   \<and> is_stale_blockhash_error (send_error_text StaleBlockhash)"
proof -
  have "decimal 1500 = ''1500''" "decimal 1103 = ''1103''" "decimal 1 = ''1''"
    by code_simp+
  moreover have "is_transient_error ''message 1500B exceeds budget 1103B (reserved for 1 signers)''"
    "is_transient_error ''simulation error: InstructionError(0, Custom(6500))''"
    "\<not> is_transient_error ''RPC response error -32002: Transaction simulation failed: Blockhash not found''"
    "\<not> is_stale_blockhash_error ''RPC response error -32002: Transaction simulation failed: Blockhash not found''"
    "is_stale_blockhash_error ''stale blockhash; rebuild required''"
    by code_simp+
  ultimately show ?thesis by (simp only: send_error_text.simps build_error_text.simps append.simps simp_thms)
qed

section \<open>Where the blockhash of a transaction comes from\<close>

text \<open>
  The ER client, in the stage of the given state, begins a session for the chunk and executes it; the plan is the one it executed
  over, or else the one of the session.
\<close>

definition er_planned ::
    "('u, 's, 'e, 'a, 'b, 'o, 'w, 'm, 'tx, 'sig) layer_deps \<Rightarrow> chunk_plan \<Rightarrow> 'e \<Rightarrow> 'u er_blockhash_plan \<Rightarrow> bool" where
  "er_planned deps plan e p \<longleftrightarrow>
     (\<exists>ctx session e1 out e2.
        ld_er deps = Some ctx
        \<and> ex_begin_session ctx (collect_session_accounts (ld_payer deps) (cp_intents plan))
            (ex_telemetry ctx record_session_begin_attempt
               (if cp_merged_indices plan \<noteq> []
                then ex_telemetry ctx (record_small_chunk_merge (of_nat (length (cp_merged_indices plan)))) e else e)) = (Inr session, e1)
        \<and> ex_execute ctx session (cp_intents plan) (ex_telemetry ctx (note_session session) e1) = (Inr out, e2)
        \<and> (case eo_blockhash_plan out of Some q \<Rightarrow> q = p | None \<Rightarrow> sn_blockhash_plan session = Some p))"

lemma prepared_plan_source:
  assumes "prepare_chunk_inner H ctx payer intents e = (Inr prepared, e')" and "\<not> mt_simulated (pc_meta prepared)"
    and "mt_blockhash_plan (pc_meta prepared) = Some p"
  shows "\<exists>session e1 out e2. ex_begin_session ctx (collect_session_accounts payer intents) (ex_telemetry ctx record_session_begin_attempt e) = (Inr session, e1)
    \<and> ex_execute ctx session intents (ex_telemetry ctx (note_session session) e1) = (Inr out, e2)
    \<and> (case eo_blockhash_plan out of Some q \<Rightarrow> q = p | None \<Rightarrow> sn_blockhash_plan session = Some p)"
  using assms
  by (auto simp: prepare_chunk_inner_def fall_back_def simulate_chunk_def settle_def Let_def split: if_splits prod.splits sum.splits option.splits)

lemma attempt_planned:
  assumes "prepare_attempt deps plan w = (Inr prepared, w')" and "er_plan_of prepared = Some p"
  shows "er_planned deps plan (lw_er w) p"
proof -
  obtain e where stage: "prepare_er_stage (ld_hash deps) (ld_er deps) (ld_payer deps) plan (lw_er w) = (Inr prepared, e)"
    using assms(1) by (auto simp: prepare_attempt_def split: prod.splits sum.splits)
  obtain meta where meta: "ps_er_meta prepared = Some meta" "\<not> mt_simulated meta" "mt_blockhash_plan meta = Some p"
    using assms(2) by (auto simp: er_plan_of_def split: option.splits if_splits)
  from stage meta(1) obtain ctx pc e1 where "ld_er deps = Some ctx" "pc_meta pc = meta"
    "prepare_chunk_inner (ld_hash deps) ctx (ld_payer deps) (cp_intents plan)
       (if cp_merged_indices plan \<noteq> []
        then ex_telemetry ctx (record_small_chunk_merge (of_nat (length (cp_merged_indices plan)))) (lw_er w) else lw_er w) = (Inr pc, e1)"
    by (auto simp: prepare_er_stage_def prepare_chunk_def Let_def split: option.splits if_splits prod.splits sum.splits)
  with prepared_plan_source [OF this(3)] meta show ?thesis by (auto simp: er_planned_def)
qed

lemma send_chunk_provider:
  assumes "send_chunk deps dry prepared snapshot alts lease origin w = (r, w')"
  shows "lw_blockhash w' \<in> {lw_blockhash w} \<union>
    (if origin = BaselineLease then (\<lambda>out. ld_record_outcome deps lease out (lw_blockhash w)) ` {LeaseSuccess, StaleDetected} else {})"
  using assms by (auto simp: send_chunk_def Let_def split: option.splits prod.splits sum.splits if_splits)

text \<open>
  C2: Where the blockhash of a transaction comes from. In an attempt at a chunk, other tasks may change everything between the ER
  stage and the rest (\<open>w\<close> and \<open>w1\<close> are unrelated to \<open>w2\<close>). If the ER client planned a blockhash when it executed this very
  chunk in this stage, every transaction sent carries it, and the provider is neither asked nor told. Otherwise the provider is
  asked once: without a lease nothing is sent, and with one every transaction carries the hash of this lease, and only
  its outcome is reported.
\<close>

theorem attempt_blockhash_source:
  assumes "prepare_attempt deps plan w = (Inr prepared, w1)" and "process_chunk_once deps dry prepared w2 = (r, w3)"
  shows "\<exists>evs. ss_log (lw_sender w3) = ss_log (lw_sender w2) @ evs
    \<and> (case er_plan_of prepared of
         Some p \<Rightarrow> er_planned deps plan (lw_er w) p \<and> lw_blockhash w3 = lw_blockhash w2
           \<and> (\<forall>tx. EvSend tx \<in> set evs \<longrightarrow> carries deps (map ui_ix (ps_intents prepared)) (eb_hash (bp_blockhash p)) tx)
       | None \<Rightarrow>
           (case ld_lease_for_intents deps (ps_intents prepared) (lw_blockhash w2) of
              (Inl e, b) \<Rightarrow> evs = [] \<and> lw_blockhash w3 \<in> {lw_blockhash w2, b}
            | (Inr lease, b) \<Rightarrow>
                lw_blockhash w3 \<in> {lw_blockhash w2, b, ld_record_outcome deps lease LeaseSuccess b, ld_record_outcome deps lease StaleDetected b}
                \<and> (\<forall>tx. EvSend tx \<in> set evs \<longrightarrow> carries deps (map ui_ix (ps_intents prepared)) (bl_hash lease) tx)))"
  using assms(2)
proof (cases rule: process_chunk_once_cases)
  case (early err)
  have "snd (acquire_lease deps prepared (lw_blockhash w2)) =
      (case er_plan_of prepared of Some p \<Rightarrow> lw_blockhash w2 | None \<Rightarrow> snd (ld_lease_for_intents deps (ps_intents prepared) (lw_blockhash w2)))"
    by (simp add: acquire_lease_def split: option.split prod.split sum.split)
  with early(2,3) attempt_planned [OF assms(1)] show ?thesis
    by (intro exI [of _ "[]"]) (auto split: option.splits prod.splits sum.splits)
next
  case (send snapshot alts lease origin w4)
  from send_chunk_events [OF send(1)] send(2) obtain evs where evs: "ss_log (lw_sender w3) = ss_log (lw_sender w2) @ evs"
    "\<forall>tx. EvSend tx \<in> set evs \<longrightarrow> carries deps (map ui_ix (ps_intents prepared)) (bl_hash lease) tx"
    by (auto simp: attempt_events_def)
  show ?thesis
    using evs acquire_lease_Inr(2) [OF send(3)] send_chunk_provider [OF send(1)] attempt_planned [OF assms(1)]
    by (intro exI [of _ evs]) (auto simp: er_lease_def split: option.splits)
qed

theorem attempt_blockhash_source_witness:
  "\<exists>prepared p w1 r w3. prepare_attempt demo_deps demo_plan demo_world = (Inr prepared, w1)
     \<and> process_chunk_once demo_deps False prepared w1 = (r, w3) \<and> er_plan_of prepared = Some p
     \<and> er_planned demo_deps demo_plan (lw_er demo_world) p \<and> lw_blockhash w3 = lw_blockhash w1"
proof -
  obtain st e' meta p where st: "prepare_er_stage (\<lambda>_. 0) (Some demo_ctx) 5 demo_plan demo_client = (Inr st, e')"
    "ps_er_meta st = Some meta" "\<not> mt_simulated meta" "mt_blockhash_plan meta = Some p"
    using demo_stage by (elim exE conjE) (rule that)
  have prep: "prepare_attempt demo_deps demo_plan demo_world = (Inr st, demo_world\<lparr>lw_er := e'\<rparr>)"
    using st(1) by (simp add: prepare_attempt_def demo_deps_def demo_world_def)
  have plan: "er_plan_of st = Some p" using st by (simp add: er_plan_of_def)
  obtain r w3 where once: "process_chunk_once demo_deps False st (demo_world\<lparr>lw_er := e'\<rparr>) = (r, w3)" by fastforce
  from attempt_blockhash_source [OF prep once] plan prep once show ?thesis by auto
qed
end
