(* ===== verification/Layer.thy ===== *)
theory Layer
  imports Rollup
begin

text \<open>
  \<open>send_layer_parallel\<close> of bundler/src/pipeline/rollup.rs: the tasks of a layer as a step relation, with the
  semaphore that bounds how many run \<open>process_chunk_once\<close> at a time, and the joining of their results. The ER stage and
  the rest of an attempt are atomic steps on the shared state.
\<close>

section \<open>\<open>send_layer_parallel\<close>\<close>

definition layer_plans ::
    "('u, 's, 'e, 'a, 'b, 'o, 'w, 'm, 'tx, 'sig) layer_deps \<Rightarrow> chunk_plan list \<Rightarrow> chunk_plan list" where
  "layer_plans deps plans =
     (case ld_er deps of
        Some ctx \<Rightarrow>
          (if ex_enabled ctx \<and> ex_merge_small_intents ctx
           then merge_small_chunk_plans plans (ex_min_cu_threshold ctx) (ld_safety deps) else plans)
      | None \<Rightarrow> plans)"

definition panicked_result :: "nat \<Rightarrow> ('u, 'sig) chunk_result" where
  "panicked_result idx =
     \<lparr>cr_index = idx, cr_attempts = 0, cr_outcome = WorkerPanicked, cr_occ_accounts = 0, cr_alt_tables = 0,
      cr_estimates = chunk_estimates_default, cr_er = diagnostics_default\<rparr>"

text \<open>Joining the tasks in the order of the plans; \<open>None\<close> is a task that panicked.\<close>

definition collect_results :: "(nat \<times> ('u, 'sig) chunk_result option) list \<Rightarrow> ('u, 'sig) chunk_result list" where
  "collect_results handles =
     sort_key cr_index (map (\<lambda>(idx, r). case r of Some res \<Rightarrow> res | None \<Rightarrow> panicked_result idx) handles)"

text \<open>
  The spawned tasks. \<open>Preparing k b\<close> has made \<open>k\<close> attempts and is in the ER stage of the next, with back-off \<open>b\<close>;
  \<open>Waiting\<close> has finished that stage and waits for a permit; \<open>Running\<close> holds one; \<open>Sleeping\<close> backs off.
\<close>

datatype ('u, 'sig) worker =
    Preparing nat nat
  | Waiting nat nat "'u prepared_chunk_state"
  | Running nat nat "'u prepared_chunk_state"
  | Sleeping nat nat
  | Finished "('u, 'sig) chunk_result"
  | Panicked

record ('u, 's, 'e, 'a, 'b, 'o, 'w, 'tx, 'sig) layer_sys =
  ls_world :: "('s, 'e, 'a, 'b, 'o, 'w, 'tx) layer_world"
  ls_permits :: nat
  ls_workers :: "('u, 'sig) worker list"

definition layer_init ::
    "parallel_layer_config \<Rightarrow> chunk_plan list \<Rightarrow> ('s, 'e, 'a, 'b, 'o, 'w, 'tx) layer_world
      \<Rightarrow> ('u, 's, 'e, 'a, 'b, 'o, 'w, 'tx, 'sig) layer_sys" where
  "layer_init cfg plans w =
     \<lparr>ls_world = w, ls_permits = lc_max_concurrency cfg,
      ls_workers = map (\<lambda>_. Preparing 0 (lc_base_backoff cfg)) plans\<rparr>"

definition after_attempt ::
    "('u, 's, 'e, 'a, 'b, 'o, 'w, 'm, 'tx, 'sig) layer_deps \<Rightarrow> parallel_layer_config \<Rightarrow> chunk_plan \<Rightarrow> nat \<Rightarrow> nat
      \<Rightarrow> ('u chunk_attempt_error + ('u, 'sig) chunk_success) \<Rightarrow> ('s, 'e, 'a, 'b, 'o, 'w, 'tx) layer_world
      \<Rightarrow> ('u, 'sig) worker \<times> ('s, 'e, 'a, 'b, 'o, 'w, 'tx) layer_world" where
  "after_attempt deps cfg plan k backoff result w =
     (case result of
        Inr success \<Rightarrow> (Finished (chunk_success_result plan (k + 1) success), w)
      | Inl err \<Rightarrow>
          (if \<not> ae_retriable err \<or> k + 1 \<ge> lc_max_attempts cfg
           then (Finished (chunk_failure_result plan (k + 1) err), w)
           else (Sleeping (k + 1) (min (lc_max_backoff cfg) (2 * backoff)),
                 w\<lparr>lw_sleeps := lw_sleeps w @ [retry_delay deps cfg (k + 1) backoff]\<rparr>)))"

text \<open>The step of the task at hand; \<open>None\<close> when it is blocked or done.\<close>

definition worker_step ::
    "('u, 's, 'e, 'a, 'b, 'o, 'w, 'm, 'tx, 'sig) layer_deps \<Rightarrow> parallel_layer_config \<Rightarrow> chunk_plan \<Rightarrow> ('u, 'sig) worker
      \<Rightarrow> nat \<Rightarrow> ('s, 'e, 'a, 'b, 'o, 'w, 'tx) layer_world
      \<Rightarrow> (('u, 'sig) worker \<times> nat \<times> ('s, 'e, 'a, 'b, 'o, 'w, 'tx) layer_world) option" where
  "worker_step deps cfg plan wk permits w =
     (case wk of
        Preparing k b \<Rightarrow>
          (case prepare_attempt deps plan w of
             (Inr prepared, w) \<Rightarrow> Some (Waiting k b prepared, permits, w)
           | (Inl err, w) \<Rightarrow> (case after_attempt deps cfg plan k b (Inl err) w of (wk, w) \<Rightarrow> Some (wk, permits, w)))
      | Waiting k b prepared \<Rightarrow> (if permits = 0 then None else Some (Running k b prepared, permits - 1, w))
      | Running k b prepared \<Rightarrow>
          (case process_chunk_once deps (lc_dry_run cfg) prepared w of
             (result, w) \<Rightarrow> (case after_attempt deps cfg plan k b result w of (wk, w) \<Rightarrow> Some (wk, permits + 1, w)))
      | Sleeping k b \<Rightarrow> Some (Preparing k b, permits, w)
      | Finished r \<Rightarrow> None
      | Panicked \<Rightarrow> None)"

fun alive :: "('u, 'sig) worker \<Rightarrow> bool" where
  "alive (Finished r) = False"
| "alive Panicked = False"
| "alive _ = True"

fun holds_permit :: "('u, 'sig) worker \<Rightarrow> bool" where
  "holds_permit (Running k b p) = True"
| "holds_permit _ = False"

text \<open>Any task may step, or panic; unwinding drops its permit.\<close>

inductive layer_step ::
    "('u, 's, 'e, 'a, 'b, 'o, 'w, 'm, 'tx, 'sig) layer_deps \<Rightarrow> parallel_layer_config \<Rightarrow> chunk_plan list
      \<Rightarrow> ('u, 's, 'e, 'a, 'b, 'o, 'w, 'tx, 'sig) layer_sys \<Rightarrow> ('u, 's, 'e, 'a, 'b, 'o, 'w, 'tx, 'sig) layer_sys \<Rightarrow> bool"
  for deps cfg plans where
  advance: "i < length (ls_workers s) \<Longrightarrow>
    worker_step deps cfg (plans ! i) (ls_workers s ! i) (ls_permits s) (ls_world s) = Some (wk, permits, w) \<Longrightarrow>
    layer_step deps cfg plans s (s\<lparr>ls_world := w, ls_permits := permits, ls_workers := (ls_workers s)[i := wk]\<rparr>)"
| panic: "i < length (ls_workers s) \<Longrightarrow> alive (ls_workers s ! i) \<Longrightarrow>
    layer_step deps cfg plans s
      (s\<lparr>ls_permits := ls_permits s + (if holds_permit (ls_workers s ! i) then 1 else 0),
         ls_workers := (ls_workers s)[i := Panicked]\<rparr>)"

fun worker_result :: "('u, 'sig) worker \<Rightarrow> ('u, 'sig) chunk_result option" where
  "worker_result (Finished r) = Some r"
| "worker_result _ = None"

text \<open>The whole call: the plans, the sanitised configuration, the results once every task has ended.\<close>

definition layer_reaches ::
    "('u, 's, 'e, 'a, 'b, 'o, 'w, 'm, 'tx, 'sig) layer_deps \<Rightarrow> parallel_layer_config \<Rightarrow> chunk_plan list
      \<Rightarrow> ('s, 'e, 'a, 'b, 'o, 'w, 'tx) layer_world \<Rightarrow> ('u, 's, 'e, 'a, 'b, 'o, 'w, 'tx, 'sig) layer_sys \<Rightarrow> bool" where
  "layer_reaches deps cfg plans w s \<longleftrightarrow>
     (layer_step deps (sanitised cfg) (layer_plans deps plans))\<^sup>*\<^sup>*
       (layer_init (sanitised cfg) (layer_plans deps plans) w) s"

definition layer_chunks ::
    "('u, 's, 'e, 'a, 'b, 'o, 'w, 'm, 'tx, 'sig) layer_deps \<Rightarrow> chunk_plan list
      \<Rightarrow> ('u, 's, 'e, 'a, 'b, 'o, 'w, 'tx, 'sig) layer_sys \<Rightarrow> ('u, 'sig) chunk_result list" where
  "layer_chunks deps plans s =
     collect_results (zip (map cp_index (layer_plans deps plans)) (map worker_result (ls_workers s)))"

section \<open>The invariant\<close>

definition holders :: "('u, 's, 'e, 'a, 'b, 'o, 'w, 'tx, 'sig) layer_sys \<Rightarrow> nat" where
  "holders s = length (filter holds_permit (ls_workers s))"

definition result_ok :: "parallel_layer_config \<Rightarrow> chunk_plan \<Rightarrow> ('u, 'sig) chunk_result \<Rightarrow> bool" where
  "result_ok cfg plan r \<longleftrightarrow>
     1 \<le> cr_attempts r \<and> cr_attempts r \<le> lc_max_attempts cfg \<and> cr_index r = cp_index plan
     \<and> cr_estimates r = cp_estimates plan \<and> cr_outcome r \<noteq> WorkerPanicked"

fun worker_ok :: "parallel_layer_config \<Rightarrow> chunk_plan \<Rightarrow> ('u, 'sig) worker \<Rightarrow> bool" where
  "worker_ok cfg plan (Preparing k b) = (k < lc_max_attempts cfg)"
| "worker_ok cfg plan (Waiting k b p) = (k < lc_max_attempts cfg)"
| "worker_ok cfg plan (Running k b p) = (k < lc_max_attempts cfg)"
| "worker_ok cfg plan (Sleeping k b) = (k < lc_max_attempts cfg)"
| "worker_ok cfg plan (Finished r) = result_ok cfg plan r"
| "worker_ok cfg plan Panicked = True"

definition layer_inv :: "parallel_layer_config \<Rightarrow> chunk_plan list \<Rightarrow> ('u, 's, 'e, 'a, 'b, 'o, 'w, 'tx, 'sig) layer_sys \<Rightarrow> bool" where
  "layer_inv cfg plans s \<longleftrightarrow>
     length (ls_workers s) = length plans \<and> ls_permits s + holders s = lc_max_concurrency cfg
     \<and> (\<forall>i<length plans. worker_ok cfg (plans ! i) (ls_workers s ! i))"

lemma sanitised_bounds:
  "1 \<le> lc_max_concurrency (sanitised cfg)" "lc_max_concurrency (sanitised cfg) \<le> 64"
  "1 \<le> lc_max_attempts (sanitised cfg)" "lc_max_attempts (sanitised cfg) \<le> 8"
  "0 < lc_base_backoff (sanitised cfg)" "lc_base_backoff (sanitised cfg) \<le> lc_max_backoff (sanitised cfg)"
  by (simp_all add: sanitised_def Let_def clamp_def)

lemma holders_init: "holders (layer_init cfg plans w) = 0"
  by (simp add: holders_def layer_init_def)

lemma layer_inv_init: "1 \<le> lc_max_attempts cfg \<Longrightarrow> layer_inv cfg plans (layer_init cfg plans w)"
  by (auto simp: layer_inv_def holders_init) (simp_all add: layer_init_def)

lemma length_filter_update:
  "i < length xs \<Longrightarrow> length (filter P (xs[i := y])) + (if P (xs ! i) then 1 else 0)
     = length (filter P xs) + (if P y then 1 else 0)"
proof (induction xs arbitrary: i)
  case (Cons x xs)
  then show ?case using Cons.IH [of "i - 1"] by (cases i) (auto split: if_splits)
qed simp

lemma after_attempt_ok:
  assumes "after_attempt deps cfg plan k b r w = (wk, w')" and "k < lc_max_attempts cfg"
  shows "worker_ok cfg plan wk \<and> \<not> holds_permit wk"
  using assms
  by (auto simp: after_attempt_def result_ok_def chunk_success_result_def chunk_failure_result_def
      split: sum.splits if_splits)

text \<open>A step keeps the worker in order, and moves permits between it and the pool.\<close>

lemma worker_step_ok:
  assumes "worker_step deps cfg plan wk permits w = Some (wk', permits', w')" and "worker_ok cfg plan wk"
  shows "worker_ok cfg plan wk'
    \<and> permits' + (if holds_permit wk' then 1 else 0) = permits + (if holds_permit wk then 1 else 0)"
  using assms
  by (cases wk)
    (auto simp: worker_step_def split: prod.splits sum.splits if_splits dest!: after_attempt_ok)

lemma layer_inv_step:
  assumes "layer_step deps cfg plans s t" and "layer_inv cfg plans s"
  shows "layer_inv cfg plans t"
  using assms
proof (cases rule: layer_step.cases)
  case (advance i wk permits w)
  have "worker_ok cfg (plans ! i) (ls_workers s ! i)" using assms(2) advance(2) by (simp add: layer_inv_def)
  from worker_step_ok [OF advance(3) this] length_filter_update [OF advance(2), of holds_permit wk]
  show ?thesis using assms(2) advance(1,2)
    by (auto simp: layer_inv_def holders_def nth_list_update split: if_splits)
next
  case (panic i)
  from length_filter_update [OF panic(2), of holds_permit Panicked]
  show ?thesis using assms(2) panic(1,2)
    by (auto simp: layer_inv_def holders_def nth_list_update split: if_splits)
qed

lemma layer_reaches_inv:
  assumes "layer_reaches deps cfg plans w s"
  shows "layer_inv (sanitised cfg) (layer_plans deps plans) s"
  using assms unfolding layer_reaches_def
proof (induction rule: rtranclp_induct)
  case base
  show ?case by (rule layer_inv_init) (rule sanitised_bounds)
next
  case (step s t)
  then show ?case using layer_inv_step by blast
qed

section \<open>Progress and termination\<close>

fun worker_rank :: "nat \<Rightarrow> ('u, 'sig) worker \<Rightarrow> nat" where
  "worker_rank m (Preparing k b) = 4 * (m - k)"
| "worker_rank m (Waiting k b p) = 4 * (m - k) - 1"
| "worker_rank m (Running k b p) = 4 * (m - k) - 2"
| "worker_rank m (Sleeping k b) = 4 * (m - k) + 1"
| "worker_rank m (Finished r) = 0"
| "worker_rank m Panicked = 0"

definition layer_rank :: "parallel_layer_config \<Rightarrow> ('u, 's, 'e, 'a, 'b, 'o, 'w, 'tx, 'sig) layer_sys \<Rightarrow> nat" where
  "layer_rank cfg s = sum_list (map (worker_rank (lc_max_attempts cfg)) (ls_workers s))"

lemma sum_list_update_less:
  "i < length xs \<Longrightarrow> f y < f (xs ! i) \<Longrightarrow> sum_list (map f (xs[i := y])) < (sum_list (map f xs) :: nat)"
proof (induction xs arbitrary: i)
  case (Cons x xs)
  then show ?case using Cons.IH [of "i - 1"] by (cases i) auto
qed simp

lemma after_attempt_rank:
  assumes "after_attempt deps cfg plan k b r w = (wk, w')" and "k < lc_max_attempts cfg"
  shows "worker_rank (lc_max_attempts cfg) wk < 4 * (lc_max_attempts cfg - k) - 2"
  using assms by (auto simp: after_attempt_def split: sum.splits if_splits)

lemma worker_step_rank:
  assumes "worker_step deps cfg plan wk permits w = Some (wk', permits', w')" and "worker_ok cfg plan wk"
  shows "worker_rank (lc_max_attempts cfg) wk' < worker_rank (lc_max_attempts cfg) wk"
  using assms
  by (cases wk) (auto simp: worker_step_def split: prod.splits sum.splits if_splits dest!: after_attempt_rank)

lemma layer_step_rank:
  assumes "layer_step deps cfg plans s t" and "layer_inv cfg plans s"
  shows "layer_rank cfg t < layer_rank cfg s"
  using assms
proof (cases rule: layer_step.cases)
  case (advance i wk permits w)
  have "worker_ok cfg (plans ! i) (ls_workers s ! i)" using assms(2) advance(2) by (simp add: layer_inv_def)
  from worker_step_rank [OF advance(3) this] show ?thesis
    using advance(1,2) by (simp add: layer_rank_def sum_list_update_less)
next
  case (panic i)
  have "worker_ok cfg (plans ! i) (ls_workers s ! i)" using assms(2) panic(2) by (simp add: layer_inv_def)
  then have "worker_rank (lc_max_attempts cfg) Panicked < worker_rank (lc_max_attempts cfg) (ls_workers s ! i)"
    using panic(3) by (cases "ls_workers s ! i") auto
  then show ?thesis using panic(1,2) by (simp add: layer_rank_def sum_list_update_less)
qed

lemma holders_pos:
  assumes "0 < holders s"
  shows "\<exists>j<length (ls_workers s). holds_permit (ls_workers s ! j)"
proof -
  have "filter holds_permit (ls_workers s) \<noteq> []" using assms by (auto simp: holders_def)
  then show ?thesis by (auto simp: filter_empty_conv in_set_conv_nth)
qed

lemma worker_can_step:
  assumes "alive wk" and "0 < permits \<or> (\<forall>k b p. wk \<noteq> Waiting k b p)"
  shows "\<exists>wk' permits' w'. worker_step deps cfg plan wk permits w = Some (wk', permits', w')"
  using assms by (cases wk) (auto simp: worker_step_def split: prod.splits sum.splits)

text \<open>While a task is alive, some task can go on without a panic.\<close>

lemma layer_progress:
  assumes "layer_inv cfg plans s" and "1 \<le> lc_max_concurrency cfg" and "i < length (ls_workers s)" "alive (ls_workers s ! i)"
  shows "\<exists>j wk permits w. j < length (ls_workers s)
    \<and> worker_step deps cfg (plans ! j) (ls_workers s ! j) (ls_permits s) (ls_world s) = Some (wk, permits, w)"
proof (cases "ls_permits s = 0")
  case True
  then have "0 < holders s" using assms(1,2) by (simp add: layer_inv_def)
  then obtain j where j: "j < length (ls_workers s)" "holds_permit (ls_workers s ! j)" using holders_pos by blast
  then have "alive (ls_workers s ! j)" "\<forall>k b p. ls_workers s ! j \<noteq> Waiting k b p"
    by (cases "ls_workers s ! j"; simp)+
  then show ?thesis using worker_can_step j(1) by blast
next
  case False
  then show ?thesis using worker_can_step [OF assms(4)] assms(3) by blast
qed

lemma layer_steps_rank:
  assumes "(layer_step deps cfg plans ^^ n) s t" and "layer_inv cfg plans s"
  shows "layer_inv cfg plans t \<and> layer_rank cfg t + n \<le> layer_rank cfg s"
  using assms
proof (induction n arbitrary: t)
  case (Suc n)
  then obtain u where u: "(layer_step deps cfg plans ^^ n) s u" "layer_step deps cfg plans u t" by auto
  from Suc.IH [OF u(1) Suc.prems(2)] layer_step_rank [OF u(2)] layer_inv_step [OF u(2)] show ?case by auto
qed simp

lemma layer_reaches_rank:
  assumes "layer_reaches deps cfg plans w s"
  shows "layer_rank (sanitised cfg) s \<le> 32 * length (layer_plans deps plans)"
proof -
  let ?c = "sanitised cfg" let ?ps = "layer_plans deps plans"
  obtain n u where n: "(layer_step deps ?c ?ps ^^ n) u s" and u: "u = layer_init ?c ?ps w"
    using assms by (auto simp: layer_reaches_def dest: rtranclp_imp_relpowp)
  have "layer_rank ?c s \<le> layer_rank ?c u"
    using layer_steps_rank [OF n] layer_inv_init [OF sanitised_bounds(3)] u by fastforce
  also have "\<dots> = 4 * lc_max_attempts ?c * length ?ps"
    by (simp add: u layer_rank_def layer_init_def sum_list_triv comp_def)
  also have "\<dots> \<le> 32 * length ?ps" using sanitised_bounds(4) [of cfg] by (intro mult_right_mono) simp_all
  finally show ?thesis .
qed

section \<open>The results\<close>

definition ended :: "('u, 's, 'e, 'a, 'b, 'o, 'w, 'tx, 'sig) layer_sys \<Rightarrow> bool" where
  "ended s \<longleftrightarrow> list_all (\<lambda>wk. \<not> alive wk) (ls_workers s)"

definition joined :: "nat \<times> ('u, 'sig) chunk_result option \<Rightarrow> ('u, 'sig) chunk_result" where
  "joined h = (case h of (idx, Some res) \<Rightarrow> res | (idx, None) \<Rightarrow> panicked_result idx)"

lemma collect_results_joined: "collect_results hs = sort_key cr_index (map joined hs)"
  by (simp add: collect_results_def joined_def case_prod_unfold split: option.splits)
    (auto intro!: arg_cong [of _ _ "sort_key cr_index"] simp: joined_def split: option.splits prod.splits)

lemma worker_result_index: "worker_ok cfg plan wk \<Longrightarrow> cr_index (joined (cp_index plan, worker_result wk)) = cp_index plan"
  by (cases wk) (auto simp: joined_def result_ok_def panicked_result_def)

lemma layer_chunks_indices:
  assumes "layer_inv cfg (layer_plans deps plans) s"
  shows "mset (map cr_index (layer_chunks deps plans s)) = mset (map cp_index (layer_plans deps plans))"
proof -
  let ?ps = "layer_plans deps plans"
  have len: "length (ls_workers s) = length ?ps" using assms by (simp add: layer_inv_def)
  have "map (cr_index \<circ> joined) (zip (map cp_index ?ps) (map worker_result (ls_workers s))) = map cp_index ?ps"
  proof (rule nth_equalityI)
    show "length (map (cr_index \<circ> joined) (zip (map cp_index ?ps) (map worker_result (ls_workers s)))) = length (map cp_index ?ps)"
      using len by simp
    show "map (cr_index \<circ> joined) (zip (map cp_index ?ps) (map worker_result (ls_workers s))) ! i = map cp_index ?ps ! i"
      if "i < length (map (cr_index \<circ> joined) (zip (map cp_index ?ps) (map worker_result (ls_workers s))))" for i
      using that assms len by (auto simp: layer_inv_def worker_result_index)
  qed
  then show ?thesis
    unfolding layer_chunks_def collect_results_joined by (metis list.map_comp mset_map mset_sort)
qed

text \<open>A layer of one chunk whose first attempt is its last.\<close>

lemma single_chunk_run:
  assumes plans: "layer_plans deps [plan] = [plan]" and prep: "prepare_attempt deps plan w = (Inr prepared, w1)"
    and once: "process_chunk_once deps (lc_dry_run cfg) prepared w1 = (r, w')"
    and final: "after_attempt deps (sanitised cfg) plan 0 (lc_base_backoff (sanitised cfg)) r w' = (Finished res, w')"
  shows "\<exists>s. layer_reaches deps cfg [plan] w s \<and> ended s \<and> ls_world s = w' \<and> layer_chunks deps [plan] s = [res]"
proof -
  let ?c = "sanitised cfg"
  have dry: "lc_dry_run ?c = lc_dry_run cfg" by (simp add: sanitised_def Let_def)
  obtain p where p: "lc_max_concurrency ?c = Suc p" using sanitised_bounds(1) [of cfg] by (cases "lc_max_concurrency ?c") auto
  define b where "b = lc_base_backoff ?c"
  define s0 where "s0 = (layer_init ?c [plan] w :: ('a, 'b, 'c, 'd, 'e, 'f, 'g, 'i, 'j) layer_sys)"
  have s0: "s0 = \<lparr>ls_world = w, ls_permits = Suc p, ls_workers = [Preparing 0 b]\<rparr>"
    by (simp add: s0_def layer_init_def p b_def)
  let ?step = "layer_step deps ?c [plan]"
  have 1: "?step s0 \<lparr>ls_world = w1, ls_permits = Suc p, ls_workers = [Waiting 0 b prepared]\<rparr>"
    using layer_step.advance [of 0 s0 deps ?c "[plan]" "Waiting 0 b prepared" "Suc p" w1]
    by (simp add: s0 worker_step_def prep)
  have 2: "?step \<lparr>ls_world = w1, ls_permits = Suc p, ls_workers = [Waiting 0 b prepared]\<rparr>
      \<lparr>ls_world = w1, ls_permits = p, ls_workers = [Running 0 b prepared]\<rparr>"
    using layer_step.advance [of 0 "\<lparr>ls_world = w1, ls_permits = Suc p, ls_workers = [Waiting 0 b prepared]\<rparr>"
        deps ?c "[plan]" "Running 0 b prepared" p w1]
    by (simp add: worker_step_def)
  let ?t = "\<lparr>ls_world = w', ls_permits = Suc p, ls_workers = [Finished res]\<rparr>"
  have 3: "?step \<lparr>ls_world = w1, ls_permits = p, ls_workers = [Running 0 b prepared]\<rparr> ?t"
    using layer_step.advance [of 0 "\<lparr>ls_world = w1, ls_permits = p, ls_workers = [Running 0 b prepared]\<rparr>"
        deps ?c "[plan]" "Finished res" "Suc p" w'] final
    by (simp add: worker_step_def once dry b_def)
  have "?step\<^sup>*\<^sup>* s0 ?t" using 1 2 3 by (meson rtranclp.rtrancl_refl rtranclp.rtrancl_into_rtrancl)
  then have "layer_reaches deps cfg [plan] w ?t" by (simp add: layer_reaches_def plans s0_def)
  moreover have "ended ?t" by (simp add: ended_def)
  moreover have "layer_chunks deps [plan] ?t = [res]"
    by (simp add: layer_chunks_def plans collect_results_def)
  ultimately show ?thesis by (intro exI [of _ ?t]) simp
qed

lemma single_chunk_layer:
  assumes plans: "layer_plans deps [plan] = [plan]" and run: "chunk_attempt deps (lc_dry_run cfg) plan w = (Inr success, w')"
  shows "\<exists>s. layer_reaches deps cfg [plan] w s \<and> ended s \<and> ls_world s = w'
    \<and> layer_chunks deps [plan] s = [chunk_success_result plan 1 success]"
proof -
  obtain prepared w1 where prep: "prepare_attempt deps plan w = (Inr prepared, w1)"
    and once: "process_chunk_once deps (lc_dry_run cfg) prepared w1 = (Inr success, w')"
    using run by (auto simp: chunk_attempt_def split: prod.splits sum.splits)
  show ?thesis using single_chunk_run [OF plans prep once] by (simp add: after_attempt_def)
qed

lemma single_chunk_layer_fails:
  assumes plans: "layer_plans deps [plan] = [plan]" and prep: "prepare_attempt deps plan w = (Inr prepared, w1)"
    and once: "process_chunk_once deps (lc_dry_run cfg) prepared w1 = (Inl err, w')" and final: "\<not> ae_retriable err"
  shows "\<exists>s. layer_reaches deps cfg [plan] w s \<and> ended s \<and> ls_world s = w'
    \<and> layer_chunks deps [plan] s = [chunk_failure_result plan 1 err]"
  using single_chunk_run [OF plans prep once] final by (simp add: after_attempt_def)

lemma demo_layer:
  obtains s success where "layer_reaches demo_deps (demo_layer_config False) [demo_plan] demo_world s" "ended s"
    "layer_chunks demo_deps [demo_plan] s = [chunk_success_result demo_plan 1 success]"
proof -
  have plans: "layer_plans demo_deps [demo_plan] = [demo_plan]"
    by (simp add: layer_plans_def demo_deps_def demo_ctx_def demo_config_def)
  obtain success w' where "chunk_attempt demo_deps (lc_dry_run (demo_layer_config False)) demo_plan demo_world = (Inr success, w')"
    using demo_attempt [of False] by (auto simp: demo_layer_config_def)
  from single_chunk_layer [OF plans this] that show thesis by blast
qed

section \<open>Properties\<close>

text \<open>
  C11: In every interleaving of a layer's tasks the tasks that run an attempt on the chain hold the semaphore's permits,
  none is lost or duplicated, also when tasks panic: at most the sanitised concurrency, hence at most 64, run at a time.
  A task never starts more than the sanitised number of attempts, hence at most 8, and a finished task reports its
  own chunk.
\<close>

theorem layer_concurrency_bounded:
  assumes "layer_reaches deps cfg plans w s"
  shows "ls_permits s + holders s = lc_max_concurrency (sanitised cfg) \<and> holders s \<le> 64
    \<and> lc_max_attempts (sanitised cfg) \<le> 8
    \<and> list_all2 (worker_ok (sanitised cfg)) (layer_plans deps plans) (ls_workers s)"
proof -
  have inv: "layer_inv (sanitised cfg) (layer_plans deps plans) s" using assms by (rule layer_reaches_inv)
  then have "ls_permits s + holders s = lc_max_concurrency (sanitised cfg)" by (simp add: layer_inv_def)
  moreover from this have "holders s \<le> 64" using sanitised_bounds(2) [of cfg] by linarith
  moreover have "list_all2 (worker_ok (sanitised cfg)) (layer_plans deps plans) (ls_workers s)"
    using inv by (simp add: layer_inv_def list_all2_conv_all_nth)
  ultimately show ?thesis using sanitised_bounds(4) by blast
qed

theorem layer_concurrency_bounded_witness:
  "\<exists>s. layer_reaches demo_deps (demo_layer_config False) [demo_plan] demo_world s \<and> ls_permits s + holders s = 6"
proof -
  obtain s success where s: "layer_reaches demo_deps (demo_layer_config False) [demo_plan] demo_world s" "ended s"
    "layer_chunks demo_deps [demo_plan] s = [chunk_success_result demo_plan 1 success]" by (rule demo_layer)
  have "lc_max_concurrency (sanitised (demo_layer_config False)) = 6"
    by (simp add: sanitised_def demo_layer_config_def clamp_def Let_def)
  with layer_concurrency_bounded [OF s(1)] s(1) show ?thesis by auto
qed

text \<open>
  C12: A layer always finishes: no reachable state is stuck, that is, while a task is alive some task can take its next
  step without a panic; and from any reachable state every run has at most 32 steps for each chunk left.
\<close>

theorem layer_finishes:
  assumes "layer_reaches deps cfg plans w s"
  shows "(ended s \<or> (\<exists>j wk permits w'. j < length (ls_workers s)
      \<and> worker_step deps (sanitised cfg) (layer_plans deps plans ! j) (ls_workers s ! j) (ls_permits s) (ls_world s)
          = Some (wk, permits, w')))
    \<and> (\<forall>n t. (layer_step deps (sanitised cfg) (layer_plans deps plans) ^^ n) s t \<longrightarrow> n \<le> 32 * length (layer_plans deps plans))"
proof
  have inv: "layer_inv (sanitised cfg) (layer_plans deps plans) s" using assms by (rule layer_reaches_inv)
  show "ended s \<or> (\<exists>j wk permits w'. j < length (ls_workers s)
      \<and> worker_step deps (sanitised cfg) (layer_plans deps plans ! j) (ls_workers s ! j) (ls_permits s) (ls_world s)
          = Some (wk, permits, w'))"
  proof (cases "ended s")
    case False
    then obtain i where "i < length (ls_workers s)" "alive (ls_workers s ! i)"
      by (auto simp: ended_def list_all_length)
    then show ?thesis using layer_progress [OF inv sanitised_bounds(1)] by blast
  qed simp
  show "\<forall>n t. (layer_step deps (sanitised cfg) (layer_plans deps plans) ^^ n) s t \<longrightarrow> n \<le> 32 * length (layer_plans deps plans)"
    using layer_steps_rank [OF _ inv] layer_reaches_rank [OF assms] by fastforce
qed

theorem layer_finishes_witness:
  "\<exists>s. layer_reaches demo_deps (demo_layer_config False) [demo_plan] demo_world s
     \<and> \<not> (\<exists>t. (layer_step demo_deps (sanitised (demo_layer_config False)) (layer_plans demo_deps [demo_plan]) ^^ 33) s t)"
proof -
  obtain s success where s: "layer_reaches demo_deps (demo_layer_config False) [demo_plan] demo_world s" "ended s"
    "layer_chunks demo_deps [demo_plan] s = [chunk_success_result demo_plan 1 success]" by (rule demo_layer)
  have "layer_plans demo_deps [demo_plan] = [demo_plan]"
    by (simp add: layer_plans_def demo_deps_def demo_ctx_def demo_config_def)
  with layer_finishes [OF s(1)] have "\<not> (\<exists>t. (layer_step demo_deps (sanitised (demo_layer_config False)) (layer_plans demo_deps [demo_plan]) ^^ 33) s t)"
    by fastforce
  with s(1) show ?thesis by blast
qed

text \<open>
  C13: When every task has ended the layer reports exactly one result for each chunk plan (after merging), ordered by the
  index of the chunks, whatever the interleaving; also for the tasks that panicked.
\<close>

theorem layer_results_complete:
  assumes "layer_reaches deps cfg plans w s" and "ended s"
  shows "sorted (map cr_index (layer_chunks deps plans s))
    \<and> mset (map cr_index (layer_chunks deps plans s)) = mset (map cp_index (layer_plans deps plans))"
  using layer_chunks_indices [OF layer_reaches_inv [OF assms(1)]]
  by (simp add: layer_chunks_def collect_results_def)

theorem layer_results_complete_witness:
  "\<exists>s. layer_reaches demo_deps (demo_layer_config False) [demo_plan] demo_world s
     \<and> mset (map cr_index (layer_chunks demo_deps [demo_plan] s)) = {#0#}"
proof -
  obtain s success where s: "layer_reaches demo_deps (demo_layer_config False) [demo_plan] demo_world s" "ended s"
    "layer_chunks demo_deps [demo_plan] s = [chunk_success_result demo_plan 1 success]" by (rule demo_layer)
  have "map cp_index (layer_plans demo_deps [demo_plan]) = [0]"
    by (simp add: layer_plans_def demo_deps_def demo_ctx_def demo_config_def demo_plan_def)
  with layer_results_complete [OF s(1,2)] s(1) show ?thesis by auto
qed
end
