(* ===== verification/LayerSends.thy ===== *)
theory LayerSends
  imports Layer
begin

text \<open>
  What a layer of \<open>send_layer_parallel\<close> sends to the chain, in every interleaving of its tasks: only transactions of its
  own chunks, and at least one for each chunk that is reported as a success. Merging the plans of a layer
  keeps the sequence of its intents. A layer always reaches an end.
\<close>

section \<open>Merged plans carry the intents of the layer\<close>

lemma merge_candidates_intents:
  "merge_candidates lm actor plans g = (g', rest) \<Longrightarrow>
   mg_intents g' @ concat (map cp_intents rest) = mg_intents g @ concat (map cp_intents plans)"
proof (induction lm actor plans g rule: merge_candidates.induct)
  case (2 lm actor candidate rest' g)
  then show ?case
    by (auto simp: merge_add_def split: if_splits prod.splits bool.splits)
qed auto

lemma merge_plans_intents: "concat (map cp_intents (merge_plans lm plans)) = concat (map cp_intents plans)"
proof (induction lm plans rule: merge_plans.induct)
  case (2 lm head plans)
  obtain g rest where run: "merge_candidates lm (ui_actor (hd (cp_intents head))) plans (merge_begin head) = (g, rest)"
    by (cases "merge_candidates lm (ui_actor (hd (cp_intents head))) plans (merge_begin head)")
  from merge_candidates_intents [OF run]
  have "mg_intents g @ concat (map cp_intents rest) = cp_intents head @ concat (map cp_intents plans)"
    by (simp add: merge_begin_def)
  then show ?case using 2 run by (auto simp: Let_def merge_finish_def)
qed simp

lemma layer_plans_intents: "concat (map cp_intents (layer_plans deps plans)) = concat (map cp_intents plans)"
  by (simp add: layer_plans_def merge_small_chunk_plans_def merge_plans_intents split: option.split)

lemma sublist_concat: "xs \<in> set xss \<Longrightarrow> sublist xs (concat xss)"
  by (auto simp: in_set_conv_decomp)

lemma sublist_mapE:
  assumes "sublist ys (map f xs)"
  obtains zs where "sublist zs xs" "ys = map f zs"
proof -
  obtain ps ss where "map f xs = ps @ ys @ ss" using assms by (auto simp: sublist_def)
  then obtain as bs cs where "xs = as @ bs @ cs" "ys = map f bs" by (metis map_eq_append_conv append_assoc)
  then show thesis using that [of bs] by auto
qed

section \<open>The log of a layer\<close>

definition carries_plan ::
    "('u, 's, 'e, 'a, 'b, 'o, 'w, 'm, 'tx, 'sig) layer_deps \<Rightarrow> chunk_plan \<Rightarrow> 'tx \<Rightarrow> bool" where
  "carries_plan deps plan tx \<longleftrightarrow> (\<exists>hash. carries deps (map ui_ix (cp_intents plan)) hash tx)"

fun worker_log ::
    "('u, 's, 'e, 'a, 'b, 'o, 'w, 'm, 'tx, 'sig) layer_deps \<Rightarrow> bool \<Rightarrow> 'tx set \<Rightarrow> chunk_plan \<Rightarrow> ('u, 'sig) worker \<Rightarrow> bool" where
  "worker_log deps dry txs plan (Waiting k b p) = (map ui_ix (ps_intents p) = map ui_ix (cp_intents plan))"
| "worker_log deps dry txs plan (Running k b p) = (map ui_ix (ps_intents p) = map ui_ix (cp_intents plan))"
| "worker_log deps dry txs plan (Finished r) =
     ((\<exists>d. cr_outcome r = ChunkSucceeded d) \<and> \<not> dry \<longrightarrow> (\<exists>tx\<in>txs. carries_plan deps plan tx))"
| "worker_log deps dry txs plan _ = True"

abbreviation sent_in :: "'tx rpc_event list \<Rightarrow> 'tx set" where
  "sent_in evs \<equiv> {tx. EvSend tx \<in> set evs}"

definition layer_log ::
    "('u, 's, 'e, 'a, 'b, 'o, 'w, 'm, 'tx, 'sig) layer_deps \<Rightarrow> bool \<Rightarrow> chunk_plan list \<Rightarrow> 'tx rpc_event list
      \<Rightarrow> ('u, 'sig) worker list \<Rightarrow> bool" where
  "layer_log deps dry plans evs wks \<longleftrightarrow>
     list_all2 (worker_log deps dry (sent_in evs)) plans wks
     \<and> (\<forall>tx\<in>sent_in evs. \<not> dry \<and> (\<exists>plan\<in>set plans. carries_plan deps plan tx))"

lemma worker_log_mono: "worker_log deps dry txs plan wk \<Longrightarrow> txs \<subseteq> txs2 \<Longrightarrow> worker_log deps dry txs2 plan wk"
  by (cases wk) auto

lemma layer_log_append:
  assumes "layer_log deps dry plans evs wks" and "i < length plans" and "worker_log deps dry (sent_in (evs @ new)) (plans ! i) wk"
    and "\<forall>tx\<in>sent_in new. \<not> dry \<and> carries_plan deps (plans ! i) tx"
  shows "layer_log deps dry plans (evs @ new) (wks[i := wk])"
proof -
  have "list_all2 (worker_log deps dry (sent_in (evs @ new))) plans wks"
    using assms(1) by (auto simp: layer_log_def elim!: list_all2_mono worker_log_mono)
  then have "list_all2 (worker_log deps dry (sent_in (evs @ new))) plans (wks[i := wk])"
    using assms(2,3) list_all2_update_cong [of _ plans wks "plans ! i" wk i] by simp
  moreover have "\<forall>tx\<in>sent_in (evs @ new). \<not> dry \<and> (\<exists>plan\<in>set plans. carries_plan deps plan tx)"
    using assms(1,2,4) by (auto simp: layer_log_def)
  ultimately show ?thesis by (simp add: layer_log_def)
qed

lemma process_chunk_once_log:
  assumes "process_chunk_once deps dry prepared w = (r, w')"
  shows "\<exists>evs. ss_log (lw_sender w') = ss_log (lw_sender w) @ evs
    \<and> (\<forall>tx\<in>sent_in evs. \<not> dry \<and> (\<exists>hash. carries deps (map ui_ix (ps_intents prepared)) hash tx))
    \<and> (\<not> isl r \<and> \<not> dry \<longrightarrow> (\<exists>tx\<in>sent_in evs. \<exists>hash. carries deps (map ui_ix (ps_intents prepared)) hash tx))"
proof -
  obtain evs where evs: "ss_log (lw_sender w') = ss_log (lw_sender w) @ evs"
    "attempt_events deps dry (map ui_ix (ps_intents prepared)) (lease_hash_ok prepared) evs"
    using process_chunk_once_events [OF assms] by blast
  have "\<not> dry \<and> (\<exists>hash. carries deps (map ui_ix (ps_intents prepared)) hash tx)" if "EvSend tx \<in> set evs" for tx
  proof -
    have "filter is_send evs \<noteq> []" using that by (auto simp: filter_empty_conv intro!: bexI [of _ "EvSend tx"])
    with evs(2) that show ?thesis by (auto simp: attempt_events_def split: if_splits)
  qed
  moreover have "\<exists>tx. EvSend tx \<in> set evs \<and> (\<exists>hash. carries deps (map ui_ix (ps_intents prepared)) hash tx)"
    if ok: "\<not> isl r" "\<not> dry"
  proof -
    obtain success where r: "r = Inr success" using ok(1) by (cases r) auto
    from assms show ?thesis
    proof (cases rule: process_chunk_once_cases)
      case early
      then show ?thesis using r by simp
    next
      case (send snapshot alts lease origin w1)
      from send_chunk_success(2) [OF send(1) [unfolded r] ok(2)] send(2) evs(1) show ?thesis by auto
    qed
  qed
  ultimately show ?thesis using evs(1) by blast
qed

lemma after_attempt_sender: "after_attempt deps cfg plan k b r w = (wk, w') \<Longrightarrow> lw_sender w' = lw_sender w"
  by (auto simp: after_attempt_def split: sum.splits if_splits)

lemma after_attempt_log:
  assumes "after_attempt deps cfg plan k b r w = (wk, w')"
    and "\<not> isl r \<and> \<not> dry \<longrightarrow> (\<exists>tx\<in>txs. carries_plan deps plan tx)"
  shows "worker_log deps dry txs plan wk"
  using assms by (auto simp: after_attempt_def chunk_failure_result_def split: sum.splits if_splits)

text \<open>What one step of a task adds to the log.\<close>

lemma worker_step_log:
  assumes "worker_step deps cfg plan wk permits w = Some (wk', permits', w')" and "client_contract deps"
    and "worker_log deps (lc_dry_run cfg) txs plan wk"
  shows "\<exists>evs. ss_log (lw_sender w') = ss_log (lw_sender w) @ evs
    \<and> (\<forall>tx\<in>sent_in evs. \<not> lc_dry_run cfg \<and> carries_plan deps plan tx)
    \<and> worker_log deps (lc_dry_run cfg) (sent_in evs) plan wk'"
proof (cases wk)
  case (Preparing k b)
  obtain pr w1 where prep: "prepare_attempt deps plan w = (pr, w1)" by (cases "prepare_attempt deps plan w")
  have "lw_sender w' = lw_sender w \<and> worker_log deps (lc_dry_run cfg) {} plan wk'"
  proof (cases pr)
    case (Inl err)
    then obtain wk1 w2 where aft: "after_attempt deps cfg plan k b (Inl err) w1 = (wk1, w2)" by force
    then have "wk' = wk1" "w' = w2" using assms(1) Preparing prep Inl by (auto simp: worker_step_def)
    then show ?thesis using after_attempt_log [OF aft] after_attempt_sender [OF aft] prepare_attempt_sender [OF prep] by simp
  next
    case (Inr prepared)
    then show ?thesis
      using assms(1) Preparing prep prepare_attempt_sender [OF prep] prepare_attempt_keeps [OF prep [unfolded Inr] assms(2)]
      by (auto simp: worker_step_def)
  qed
  then show ?thesis by (intro exI [of _ "[]"]) simp
next
  case (Running k b prepared)
  obtain r w1 where once: "process_chunk_once deps (lc_dry_run cfg) prepared w = (r, w1)"
    by (cases "process_chunk_once deps (lc_dry_run cfg) prepared w")
  obtain wk1 w2 where aft: "after_attempt deps cfg plan k b r w1 = (wk1, w2)" by force
  have wk': "wk' = wk1" "w' = w2" using assms(1) Running once aft by (auto simp: worker_step_def)
  have ixs: "map ui_ix (ps_intents prepared) = map ui_ix (cp_intents plan)" using assms(3) Running by simp
  from process_chunk_once_log [OF once, unfolded ixs] obtain evs where
    evs: "ss_log (lw_sender w1) = ss_log (lw_sender w) @ evs"
    "\<forall>tx\<in>sent_in evs. \<not> lc_dry_run cfg \<and> carries_plan deps plan tx"
    "\<not> isl r \<and> \<not> lc_dry_run cfg \<longrightarrow> (\<exists>tx\<in>sent_in evs. carries_plan deps plan tx)"
    unfolding carries_plan_def by blast
  then show ?thesis
    using after_attempt_log [OF aft evs(3)] after_attempt_sender [OF aft] wk' by (intro exI [of _ evs]) simp
qed (use assms in \<open>auto simp: worker_step_def split: if_splits\<close>)

definition log_since ::
    "('u, 's, 'e, 'a, 'b, 'o, 'w, 'm, 'tx, 'sig) layer_deps \<Rightarrow> bool \<Rightarrow> chunk_plan list \<Rightarrow> 'tx rpc_event list
      \<Rightarrow> ('u, 's, 'e, 'a, 'b, 'o, 'w, 'tx, 'sig) layer_sys \<Rightarrow> bool" where
  "log_since deps dry plans old s \<longleftrightarrow>
     (\<exists>evs. ss_log (lw_sender (ls_world s)) = old @ evs \<and> layer_log deps dry plans evs (ls_workers s))"

lemma layer_step_log:
  assumes "layer_step deps cfg plans s t" and "client_contract deps" and "log_since deps (lc_dry_run cfg) plans old s"
  shows "log_since deps (lc_dry_run cfg) plans old t"
proof -
  obtain evs where evs: "ss_log (lw_sender (ls_world s)) = old @ evs" "layer_log deps (lc_dry_run cfg) plans evs (ls_workers s)"
    using assms(3) by (auto simp: log_since_def)
  have len: "length (ls_workers s) = length plans"
    using evs(2) by (auto simp: layer_log_def dest: list_all2_lengthD)
  from assms(1) show ?thesis
  proof (cases rule: layer_step.cases)
    case (advance i wk permits w)
    have wl: "worker_log deps (lc_dry_run cfg) (sent_in evs) (plans ! i) (ls_workers s ! i)"
      using evs(2) advance(2) len by (auto simp: layer_log_def list_all2_conv_all_nth)
    from worker_step_log [OF advance(3) assms(2) wl] obtain new where
      new: "ss_log (lw_sender w) = ss_log (lw_sender (ls_world s)) @ new"
      "\<forall>tx\<in>sent_in new. \<not> lc_dry_run cfg \<and> carries_plan deps (plans ! i) tx"
      "worker_log deps (lc_dry_run cfg) (sent_in new) (plans ! i) wk" by blast
    have "worker_log deps (lc_dry_run cfg) (sent_in (evs @ new)) (plans ! i) wk"
      using new(3) by (rule worker_log_mono) auto
    from layer_log_append [OF evs(2) _ this new(2)] new(1) evs(1) advance(1,2) len
    show ?thesis by (auto simp: log_since_def)
  next
    case (panic i)
    have "layer_log deps (lc_dry_run cfg) plans (evs @ []) ((ls_workers s)[i := Panicked])"
      using panic(2) len by (intro layer_log_append [OF evs(2)]) simp_all
    then show ?thesis using evs(1) panic(1) by (auto simp: log_since_def)
  qed
qed

lemma layer_reaches_log:
  assumes "layer_reaches deps cfg plans w s" and "client_contract deps"
  shows "log_since deps (lc_dry_run cfg) (layer_plans deps plans) (ss_log (lw_sender w)) s"
  using assms(1) unfolding layer_reaches_def
proof (induction rule: rtranclp_induct)
  case base
  show ?case by (auto simp: log_since_def layer_init_def layer_log_def list_all2_conv_all_nth)
next
  case (step s t)
  have dry: "lc_dry_run (sanitised cfg) = lc_dry_run cfg" by (simp add: sanitised_def Let_def)
  show ?case using layer_step_log [OF step(2) assms(2)] step(3) by (simp add: dry)
qed

section \<open>A layer reaches its end\<close>

lemma layer_run_ends:
  assumes "layer_inv cfg plans s" and "1 \<le> lc_max_concurrency cfg"
  shows "\<exists>t. (layer_step deps cfg plans)\<^sup>*\<^sup>* s t \<and> ended t"
  using assms(1)
proof (induction "layer_rank cfg s" arbitrary: s rule: less_induct)
  case less
  show ?case
  proof (cases "ended s")
    case False
    then obtain i where i: "i < length (ls_workers s)" "alive (ls_workers s ! i)"
      by (auto simp: ended_def list_all_length)
    from layer_progress [OF less.prems assms(2) i, of deps] obtain t where t: "layer_step deps cfg plans s t"
      using layer_step.advance by blast
    from less.hyps [OF layer_step_rank [OF t less.prems] layer_inv_step [OF t less.prems]] obtain u
      where "(layer_step deps cfg plans)\<^sup>*\<^sup>* t u" "ended u" by blast
    then show ?thesis using t by (meson converse_rtranclp_into_rtranclp)
  qed auto
qed

lemma layer_reaches_end: "\<exists>s. layer_reaches deps cfg plans w s \<and> ended s"
  unfolding layer_reaches_def
  by (rule layer_run_ends [OF layer_inv_init]) (rule sanitised_bounds)+

section \<open>What the results say about the log\<close>

fun succeeded :: "('u, 'sig) chunk_result \<Rightarrow> bool" where
  "succeeded r = (case cr_outcome r of ChunkSucceeded d \<Rightarrow> True | _ \<Rightarrow> False)"

text \<open>
  The end of a layer: its new log entries belong to its own plans, and if all its results are successes of a
  run that is not dry, every plan is in the log.
\<close>

lemma layer_end_log:
  assumes reach: "layer_reaches deps cfg plans w s" and "client_contract deps" and "ended s"
  obtains evs where "ss_log (lw_sender (ls_world s)) = ss_log (lw_sender w) @ evs"
    and "\<forall>tx\<in>sent_in evs. \<not> lc_dry_run cfg \<and> (\<exists>plan\<in>set (layer_plans deps plans). carries_plan deps plan tx)"
    and "list_all succeeded (layer_chunks deps plans s) \<Longrightarrow> \<not> lc_dry_run cfg \<Longrightarrow>
      \<forall>plan\<in>set (layer_plans deps plans). \<exists>tx\<in>sent_in evs. carries_plan deps plan tx"
proof -
  let ?ps = "layer_plans deps plans"
  obtain evs where evs: "ss_log (lw_sender (ls_world s)) = ss_log (lw_sender w) @ evs"
    "layer_log deps (lc_dry_run cfg) ?ps evs (ls_workers s)"
    using layer_reaches_log [OF reach assms(2)] by (auto simp: log_since_def)
  have logs: "list_all2 (worker_log deps (lc_dry_run cfg) (sent_in evs)) ?ps (ls_workers s)"
    using evs(2) by (simp add: layer_log_def)
  have len: "length (ls_workers s) = length ?ps" using logs by (simp add: list_all2_lengthD)
  show thesis
  proof (rule that [OF evs(1)])
    show "\<forall>tx\<in>sent_in evs. \<not> lc_dry_run cfg \<and> (\<exists>plan\<in>set ?ps. carries_plan deps plan tx)"
      using evs(2) by (simp add: layer_log_def)
    assume ok: "list_all succeeded (layer_chunks deps plans s)" and wet: "\<not> lc_dry_run cfg"
    show "\<forall>plan\<in>set ?ps. \<exists>tx\<in>sent_in evs. carries_plan deps plan tx"
    proof
      fix plan assume "plan \<in> set ?ps"
      then obtain i where i: "i < length ?ps" "?ps ! i = plan" by (auto simp: in_set_conv_nth)
      have "joined (cp_index plan, worker_result (ls_workers s ! i)) \<in> set (layer_chunks deps plans s)"
        unfolding layer_chunks_def collect_results_joined
        using i len by (auto simp: in_set_zip intro!: imageI exI [of _ i])
      then have "succeeded (joined (cp_index plan, worker_result (ls_workers s ! i)))"
        using ok by (simp add: list_all_iff)
      then obtain r d where r: "ls_workers s ! i = Finished r" "cr_outcome r = ChunkSucceeded d"
        by (cases "ls_workers s ! i") (auto simp: joined_def panicked_result_def split: chunk_outcome.splits)
      have "worker_log deps (lc_dry_run cfg) (sent_in evs) plan (ls_workers s ! i)"
        using list_all2_nthD [OF logs i(1)] i(2) by simp
      with r wet show "\<exists>tx\<in>sent_in evs. carries_plan deps plan tx" by auto
    qed
  qed
qed
end
