(* ===== verification/Driver.thy ===== *)
theory Driver
  imports LayerSends DagOrder
begin

text \<open>
  The rollup driver of bundler/examples/rollup_cli.rs: \<open>run_er_once\<close>, which sends the layers of the DAG one after the
  other through \<open>send_layer_parallel\<close>, and what it collects from the results. The interleaving inside a layer is free, so
  a run is a relation between the state before and its outcomes. Durations and what is only printed or logged are left
  out; a \<open>+=\<close> on \<open>u64\<close> totals wraps as in a release build.
\<close>

section \<open>What a run collects\<close>

record 'sig tx_cost =
  tk_signature :: "'sig option"
  tk_used_cu :: u32
  tk_cu_limit :: u64
  tk_cu_price :: u64
  tk_message_bytes :: nat
  tk_required_signers :: nat
  tk_packet_bytes :: nat
  tk_max_packet_bytes :: nat
  tk_packet_guard_pass :: bool
  tk_base_fee :: u64
  tk_priority_fee :: u64
  tk_total_fee :: u64

definition tx_cost_of :: "safety_margins \<Rightarrow> 'sig send_report \<Rightarrow> 'sig tx_cost" where
  "tx_cost_of safety report =
     (let sig_section = signatures_section_len (sp_required_signers report);
          max_msg_budget = max_message_bytes_with_signers safety (sp_required_signers report)
      in \<lparr>tk_signature = sp_signature report, tk_used_cu = sp_used_cu report,
          tk_cu_limit = pl_cu_limit (sp_final_plan report), tk_cu_price = pl_cu_price (sp_final_plan report),
          tk_message_bytes = sp_message_bytes report, tk_required_signers = sp_required_signers report,
          tk_packet_bytes = sp_message_bytes report + sig_section, tk_max_packet_bytes = max_msg_budget + sig_section,
          tk_packet_guard_pass = (sp_message_bytes report \<le> max_msg_budget),
          tk_base_fee = sp_base_fee_lamports report, tk_priority_fee = sp_priority_fee_lamports report,
          tk_total_fee = sp_total_fee_lamports report\<rparr>)"

record layer_summary =
  ly_index :: nat
  ly_chunks :: nat
  ly_success :: nat
  ly_failure :: nat

record 'u er_chunk_row =
  rw_layer :: nat
  rw_chunk :: nat
  rw_decision :: string
  rw_reason :: "string option"
  rw_route :: "'u option"
  rw_bhfa_host :: "'u option"
  rw_submit_host :: "'u option"
  rw_submit_policy :: "string option"
  rw_preflight_skipped :: "bool option"
  rw_parity_retry :: "bool option"
  rw_bhfa_ms :: "nat option"
  rw_used_cu :: u32
  rw_er_attempted :: bool
  rw_session_established :: bool

record ('u, 'sig) run_totals =
  rt_reports :: "'sig tx_cost list"
  rt_signatures :: "string list"
  rt_summaries :: "layer_summary list"
  rt_rows :: "'u er_chunk_row list"
  rt_cu_total :: u64
  rt_fee_total :: u64
  rt_chunks_total :: nat
  rt_plan_fingerprint_real :: nat
  rt_real_chunks :: nat
  rt_simulated_chunks :: nat

definition totals_zero :: "('u, 'sig) run_totals" where
  "totals_zero =
     \<lparr>rt_reports = [], rt_signatures = [], rt_summaries = [], rt_rows = [], rt_cu_total = 0, rt_fee_total = 0,
      rt_chunks_total = 0, rt_plan_fingerprint_real = 0, rt_real_chunks = 0, rt_simulated_chunks = 0\<rparr>"

definition inferred_reason :: "'u er_chunk_diagnostics \<Rightarrow> string option" where
  "inferred_reason diag =
     (if \<not> dg_session_established diag \<and> dg_fallback_reason diag = None
      then Some (if \<not> dg_er_ctx_present diag then ''context_absent''
                 else if \<not> dg_er_enabled diag then ''er_disabled_by_config''
                 else if \<not> dg_attempted diag then ''er_not_attempted''
                 else ''unspecified (inspect logs)'')
      else dg_fallback_reason diag)"

definition decision_of :: "'u er_chunk_diagnostics \<Rightarrow> string" where
  "decision_of diag =
     (if dg_session_established diag then ''ran_er'' else if dg_simulated diag then ''simulated_er'' else ''fell_back'')"

definition row_of :: "nat \<Rightarrow> ('u, 'sig) chunk_result \<Rightarrow> ('u, 'sig) chunk_success_data \<Rightarrow> 'u er_chunk_row" where
  "row_of layer_index chunk success =
     (let diag = cr_er chunk
      in \<lparr>rw_layer = layer_index, rw_chunk = cr_index chunk, rw_decision = decision_of diag,
          rw_reason = inferred_reason diag, rw_route = dg_route_endpoint diag, rw_bhfa_host = sd_er_bhfa_host success,
          rw_submit_host = sd_er_submit_host success,
          rw_submit_policy = map_option policy_as_str (sd_er_submit_policy success),
          rw_preflight_skipped = sd_er_preflight_skipped success, rw_parity_retry = sd_er_parity_retry success,
          rw_bhfa_ms = sd_er_bhfa_ms success, rw_used_cu = sp_used_cu (sd_report success),
          rw_er_attempted = dg_attempted diag, rw_session_established = dg_session_established diag\<rparr>)"

text \<open>The totals count the chunks that ran at the ER only.\<close>

definition note_success ::
    "safety_margins \<Rightarrow> nat \<Rightarrow> ('u, 'sig) chunk_result \<Rightarrow> ('u, 'sig) chunk_success_data \<Rightarrow> ('u, 'sig) run_totals
      \<Rightarrow> ('u, 'sig) run_totals" where
  "note_success safety layer_index chunk success t =
     (let diag = cr_er chunk; report = sd_report success;
          t = (if sd_plan_fingerprint success \<noteq> None \<and> dg_session_established diag
               then t\<lparr>rt_plan_fingerprint_real := rt_plan_fingerprint_real t + 1\<rparr> else t);
          t = (if dg_session_established diag
               then t\<lparr>rt_real_chunks := rt_real_chunks t + 1, rt_chunks_total := rt_chunks_total t + 1,
                      rt_cu_total := rt_cu_total t + ucast (sp_used_cu report),
                      rt_fee_total := rt_fee_total t + sp_total_fee_lamports report\<rparr>
               else if dg_simulated diag then t\<lparr>rt_simulated_chunks := rt_simulated_chunks t + 1\<rparr> else t);
          t = t\<lparr>rt_rows := rt_rows t @ [row_of layer_index chunk success]\<rparr>;
          t = (case sd_er_signature success of
                 Some sig \<Rightarrow> t\<lparr>rt_signatures := rt_signatures t @ [sig]\<rparr> | None \<Rightarrow> t)
      in t\<lparr>rt_reports := rt_reports t @ [tx_cost_of safety report]\<rparr>)"

fun note_chunks ::
    "safety_margins \<Rightarrow> nat \<Rightarrow> ('u, 'sig) chunk_result list \<Rightarrow> nat \<times> nat \<times> ('u, 'sig) run_totals
      \<Rightarrow> nat \<times> nat \<times> ('u, 'sig) run_totals" where
  "note_chunks safety layer_index [] acc = acc"
| "note_chunks safety layer_index (chunk # chunks) (layer_success, layer_failure, t) =
     note_chunks safety layer_index chunks
       (case cr_outcome chunk of
          ChunkSucceeded success \<Rightarrow> (layer_success + 1, layer_failure, note_success safety layer_index chunk success t)
        | ChunkFailed err retriable stage \<Rightarrow> (layer_success, layer_failure + 1, t)
        | WorkerPanicked \<Rightarrow> (layer_success, layer_failure + 1, t))"

definition note_layer ::
    "safety_margins \<Rightarrow> nat \<Rightarrow> ('u, 'sig) chunk_result list \<Rightarrow> ('u, 'sig) run_totals \<Rightarrow> ('u, 'sig) run_totals" where
  "note_layer safety layer_index chunks t =
     (case note_chunks safety layer_index chunks (0, 0, t) of
        (layer_success, layer_failure, t) \<Rightarrow>
          t\<lparr>rt_summaries := rt_summaries t @
              [\<lparr>ly_index = layer_index, ly_chunks = layer_success + layer_failure, ly_success = layer_success,
                ly_failure = layer_failure\<rparr>]\<rparr>)"

section \<open>\<open>run_er_once\<close>\<close>

definition chunk_plan_of :: "user_intent list \<Rightarrow> nat \<Rightarrow> planned_chunk \<Rightarrow> chunk_plan" where
  "chunk_plan_of nodes chunk_idx planned =
     \<lparr>cp_index = chunk_idx, cp_intents = map (\<lambda>nid. nodes ! nid) (pc_node_ids planned),
      cp_estimates = \<lparr>ce_est_cu = of_nat (pc_est_cu planned), ce_est_msg_bytes = pc_est_message_bytes planned,
                      ce_alt_ro_count = pc_alt_readonly planned, ce_alt_wr_count = pc_alt_writable planned\<rparr>,
      cp_merged_indices = []\<rparr>"

definition chunk_plans_of :: "user_intent list \<Rightarrow> planned_chunk list \<Rightarrow> chunk_plan list" where
  "chunk_plans_of nodes planned_chunks = map (\<lambda>(i, c). chunk_plan_of nodes i c) (enumerate 0 planned_chunks)"

definition layer_config :: "parallel_layer_config \<Rightarrow> chunk_plan list \<Rightarrow> parallel_layer_config" where
  "layer_config template plans = (if length plans \<le> 1 then template\<lparr>lc_max_concurrency := 1\<rparr> else template)"

text \<open>What the setup hands to a run; \<open>dbg\<close> says whether debug assertions are compiled in.\<close>

record ('u, 's, 'e, 'a, 'b, 'o, 'w, 'm, 'tx, 'sig) run_setup =
  rs_deps :: "('u, 's, 'e, 'a, 'b, 'o, 'w, 'm, 'tx, 'sig) layer_deps"
  rs_mark_layer_boundary :: "'b \<Rightarrow> 'b"
  rs_dag :: dag
  rs_layers :: "node_id list list"
  rs_tx_budget :: tx_budget
  rs_alt_policy :: alt_policy
  rs_parallel_cfg :: parallel_layer_config
  rs_debug_assertions :: bool

definition plan_layer ::
    "('u, 's, 'e, 'a, 'b, 'o, 'w, 'm, 'tx, 'sig) run_setup \<Rightarrow> node_id list \<Rightarrow> (chunk_error + chunk_plan list) option" where
  "plan_layer su layer =
     (case chunk_layer_with (rs_debug_assertions su) layer (dag_nodes (rs_dag su)) (rs_tx_budget su)
             (rs_alt_policy su) basic_oracle of
        None \<Rightarrow> None
      | Some (Inl e) \<Rightarrow> Some (Inl e)
      | Some (Inr chunks) \<Rightarrow> Some (Inr (chunk_plans_of (dag_nodes (rs_dag su)) chunks)))"

definition begin_layer ::
    "('s, 'e, 'a, 'b, 'o, 'w, 'tx) layer_world \<Rightarrow> ('s, 'e, 'a, 'b, 'o, 'w, 'tx) layer_world" where
  "begin_layer w = w\<lparr>lw_sender := start_scope (lw_sender w)\<rparr>"

definition end_layer ::
    "('u, 's, 'e, 'a, 'b, 'o, 'w, 'm, 'tx, 'sig) run_setup \<Rightarrow> ('s, 'e, 'a, 'b, 'o, 'w, 'tx) layer_world
      \<Rightarrow> ('s, 'e, 'a, 'b, 'o, 'w, 'tx) layer_world" where
  "end_layer su w = w\<lparr>lw_blockhash := rs_mark_layer_boundary su (lw_blockhash w)\<rparr>"

datatype ('r, 'w) run_outcome = RunDone 'r | RunChunkError chunk_error 'w | RunPanicked 'w | RunWithoutEr

text \<open>
  The loop over the layers that are left. A failed chunk is counted; only the chunker ends the run early.
\<close>

inductive run_layers ::
    "('u, 's, 'e, 'a, 'b, 'o, 'w, 'm, 'tx, 'sig) run_setup \<Rightarrow> nat \<Rightarrow> node_id list list
      \<Rightarrow> ('s, 'e, 'a, 'b, 'o, 'w, 'tx) layer_world \<Rightarrow> ('u, 'sig) run_totals
      \<Rightarrow> (('u, 'sig) run_totals \<times> ('s, 'e, 'a, 'b, 'o, 'w, 'tx) layer_world, ('s, 'e, 'a, 'b, 'o, 'w, 'tx) layer_world) run_outcome \<Rightarrow> bool"
  for su where
  all_done: "run_layers su li [] w t (RunDone (t, w))"
| panicked: "plan_layer su layer = None \<Longrightarrow> run_layers su li (layer # layers) w t (RunPanicked (begin_layer w))"
| not_chunked: "plan_layer su layer = Some (Inl e) \<Longrightarrow> run_layers su li (layer # layers) w t (RunChunkError e (begin_layer w))"
| layer_sent: "plan_layer su layer = Some (Inr plans) \<Longrightarrow>
    layer_reaches (rs_deps su) (layer_config (rs_parallel_cfg su) plans) plans (begin_layer w) s \<Longrightarrow> ended s \<Longrightarrow>
    run_layers su (Suc li) layers (end_layer su (ls_world s))
      (note_layer (ld_safety (rs_deps su)) li (layer_chunks (rs_deps su) plans s) t) r \<Longrightarrow>
    run_layers su li (layer # layers) w t r"

definition run_er_once ::
    "('u, 's, 'e, 'a, 'b, 'o, 'w, 'm, 'tx, 'sig) run_setup \<Rightarrow> ('s, 'e, 'a, 'b, 'o, 'w, 'tx) layer_world
      \<Rightarrow> (('u, 'sig) run_totals \<times> ('s, 'e, 'a, 'b, 'o, 'w, 'tx) layer_world, ('s, 'e, 'a, 'b, 'o, 'w, 'tx) layer_world) run_outcome \<Rightarrow> bool" where
  "run_er_once su w r \<longleftrightarrow>
     (case ld_er (rs_deps su) of
        None \<Rightarrow> r = RunWithoutEr
      | Some ctx \<Rightarrow> run_layers su 0 (rs_layers su) w totals_zero r)"

inductive_cases run_layers_NilE: "run_layers su li [] w t r"
inductive_cases run_layers_ConsE: "run_layers su li (layer # layers) w t r"

section \<open>What a run sends\<close>

lemma layer_config_dry [simp]: "lc_dry_run (layer_config template plans) = lc_dry_run template"
  by (simp add: layer_config_def)

lemma begin_layer_log [simp]: "ss_log (lw_sender (begin_layer w)) = ss_log (lw_sender w)"
  by (simp add: begin_layer_def start_scope_def)

lemma end_layer_sender [simp]: "lw_sender (end_layer su w) = lw_sender w"
  by (simp add: end_layer_def)

lemma note_chunks_counts:
  assumes "note_chunks safety li chunks (a, b, t) = (a', b', t')"
  shows "a' + b' = a + b + length chunks \<and> b' = b + length (filter (\<lambda>c. \<not> succeeded c) chunks)
    \<and> rt_summaries t' = rt_summaries t"
  using assms
proof (induction chunks arbitrary: a b t)
  case (Cons chunk chunks)
  have "rt_summaries (note_success safety li chunk d t) = rt_summaries t" for d
    by (simp add: note_success_def Let_def split: option.split)
  with Cons show ?case by (fastforce split: chunk_outcome.splits)
qed simp

text \<open>The summary of a layer counts its results.\<close>

definition summary_ok :: "nat \<Rightarrow> ('u, 'sig) chunk_result list \<Rightarrow> layer_summary \<Rightarrow> bool" where
  "summary_ok li chunks sm \<longleftrightarrow>
     ly_index sm = li \<and> ly_chunks sm = length chunks \<and> ly_success sm + ly_failure sm = ly_chunks sm
     \<and> ly_failure sm = length (filter (\<lambda>c. \<not> succeeded c) chunks)"

lemma note_layer_summary: "\<exists>sm. rt_summaries (note_layer safety li chunks t) = rt_summaries t @ [sm] \<and> summary_ok li chunks sm"
proof -
  obtain a b t' where run: "note_chunks safety li chunks (0, 0, t) = (a, b, t')"
    by (cases "note_chunks safety li chunks (0, 0, t)")
  from note_chunks_counts [OF run] run show ?thesis by (simp add: note_layer_def summary_ok_def)
qed

lemma summary_no_failure: "summary_ok li chunks sm \<Longrightarrow> ly_failure sm = 0 \<Longrightarrow> list_all succeeded chunks"
  by (auto simp: summary_ok_def list_all_iff filter_empty_conv)

lemma concat_map_split:
  "concat xss = map f ys \<Longrightarrow> \<exists>yss. concat yss = ys \<and> xss = map (map f) yss"
proof (induction xss arbitrary: ys)
  case (Cons xs xss)
  then obtain as bs where s: "ys = as @ bs" "xs = map f as" "concat xss = map f bs"
    by (auto simp: append_eq_map_conv)
  from Cons.IH [OF s(3)] obtain yss where "concat yss = bs" "xss = map (map f) yss" by blast
  then show ?case using s by (intro exI [of _ "as # yss"]) simp
qed simp

lemma chunk_plans_intents:
  "concat (map cp_intents (chunk_plans_of nodes chunks)) = map (\<lambda>nid. nodes ! nid) (concat (map pc_node_ids chunks))"
proof -
  have "map cp_intents (map (\<lambda>(i, c). chunk_plan_of nodes i c) (enumerate n chunks))
      = map (\<lambda>c. map (\<lambda>nid. nodes ! nid) (pc_node_ids c)) chunks" for n
    by (induction chunks arbitrary: n) (simp_all add: chunk_plan_of_def)
  then show ?thesis by (simp add: chunk_plans_of_def map_concat comp_def)
qed

definition carries_nodes ::
    "('u, 's, 'e, 'a, 'b, 'o, 'w, 'm, 'tx, 'sig) run_setup \<Rightarrow> node_id list \<Rightarrow> 'tx \<Rightarrow> bool" where
  "carries_nodes su nids tx \<longleftrightarrow>
     (\<exists>hash. carries (rs_deps su) (map (\<lambda>nid. ui_ix (dag_nodes (rs_dag su) ! nid)) nids) hash tx)"

text \<open>
  A layer is cut into pieces; what it sends carries one piece each, and if it is complete every piece is sent.
\<close>

definition layer_sends ::
    "('u, 's, 'e, 'a, 'b, 'o, 'w, 'm, 'tx, 'sig) run_setup \<Rightarrow> node_id list \<Rightarrow> bool \<Rightarrow> 'tx rpc_event list \<Rightarrow> bool" where
  "layer_sends su layer all_ok evs \<longleftrightarrow>
     (\<exists>pieces. concat pieces = layer
        \<and> (\<forall>tx\<in>sent_in evs. \<not> lc_dry_run (rs_parallel_cfg su) \<and> (\<exists>nids\<in>set pieces. carries_nodes su nids tx))
        \<and> (all_ok \<and> \<not> lc_dry_run (rs_parallel_cfg su) \<longrightarrow>
             (\<forall>nids\<in>set pieces. \<exists>tx\<in>sent_in evs. carries_nodes su nids tx)))"

lemma plan_layer_intents:
  assumes "plan_layer su layer = Some (Inr plans)"
  shows "concat (map cp_intents plans) = map (\<lambda>nid. dag_nodes (rs_dag su) ! nid) layer"
proof -
  obtain chunks where c: "chunk_layer_with (rs_debug_assertions su) layer (dag_nodes (rs_dag su)) (rs_tx_budget su)
      (rs_alt_policy su) basic_oracle = Some (Inr chunks)"
    and p: "plans = chunk_plans_of (dag_nodes (rs_dag su)) chunks"
    using assms by (auto simp: plan_layer_def split: option.splits sum.splits)
  have "chunk_loop (rs_debug_assertions su) (rs_tx_budget su) (rs_alt_policy su)
      (zip layer (map (\<lambda>nid. from_intent (dag_nodes (rs_dag su) ! nid) (rs_tx_budget su) basic_oracle) layer))
      (acc_new (rs_tx_budget su) (rs_alt_policy su)) [] = Some (Inr chunks)"
    using c by (simp add: chunk_layer_with_def split: if_splits)
  from chunk_loop_partition [OF this] have "concat (map pc_node_ids chunks) = layer" by auto
  then show ?thesis by (simp add: p chunk_plans_intents)
qed

lemma layer_sends_end:
  assumes plans: "plan_layer su layer = Some (Inr plans)"
    and reach: "layer_reaches (rs_deps su) (layer_config (rs_parallel_cfg su) plans) plans (begin_layer w) s" "ended s"
    and contract: "client_contract (rs_deps su)"
  shows "\<exists>evs. ss_log (lw_sender (ls_world s)) = ss_log (lw_sender w) @ evs
    \<and> layer_sends su layer (list_all succeeded (layer_chunks (rs_deps su) plans s)) evs"
proof -
  let ?ps = "layer_plans (rs_deps su) plans"
  have "concat (map cp_intents ?ps) = map (\<lambda>nid. dag_nodes (rs_dag su) ! nid) layer"
    using plan_layer_intents [OF plans] by (simp add: layer_plans_intents)
  from concat_map_split [OF this] obtain pieces where
    pieces: "concat pieces = layer" "map cp_intents ?ps = map (map (\<lambda>nid. dag_nodes (rs_dag su) ! nid)) pieces" by blast
  have same: "(\<exists>plan\<in>set ?ps. carries_plan (rs_deps su) plan tx) \<longleftrightarrow> (\<exists>nids\<in>set pieces. carries_nodes su nids tx)" for tx
  proof -
    have "(\<exists>plan\<in>set ?ps. carries_plan (rs_deps su) plan tx)
        \<longleftrightarrow> (\<exists>is\<in>set (map cp_intents ?ps). \<exists>hash. carries (rs_deps su) (map ui_ix is) hash tx)"
      by (simp add: carries_plan_def)
    also have "\<dots> \<longleftrightarrow> (\<exists>nids\<in>set pieces. carries_nodes su nids tx)"
      unfolding pieces(2) by (simp add: carries_nodes_def comp_def)
    finally show ?thesis .
  qed
  have every: "(\<forall>plan\<in>set ?ps. \<exists>tx\<in>T. carries_plan (rs_deps su) plan tx)
      \<longleftrightarrow> (\<forall>nids\<in>set pieces. \<exists>tx\<in>T. carries_nodes su nids tx)" for T
  proof -
    have "(\<forall>plan\<in>set ?ps. \<exists>tx\<in>T. carries_plan (rs_deps su) plan tx)
        \<longleftrightarrow> (\<forall>is\<in>set (map cp_intents ?ps). \<exists>tx\<in>T. \<exists>hash. carries (rs_deps su) (map ui_ix is) hash tx)"
      by (simp add: carries_plan_def)
    also have "\<dots> \<longleftrightarrow> (\<forall>nids\<in>set pieces. \<exists>tx\<in>T. carries_nodes su nids tx)"
      unfolding pieces(2) by (simp add: carries_nodes_def comp_def)
    finally show ?thesis .
  qed
  from layer_end_log [OF reach(1) contract reach(2)] obtain evs where
    "ss_log (lw_sender (ls_world s)) = ss_log (lw_sender w) @ evs"
    "\<forall>tx\<in>sent_in evs. \<not> lc_dry_run (rs_parallel_cfg su) \<and> (\<exists>plan\<in>set ?ps. carries_plan (rs_deps su) plan tx)"
    "list_all succeeded (layer_chunks (rs_deps su) plans s) \<Longrightarrow> \<not> lc_dry_run (rs_parallel_cfg su) \<Longrightarrow>
      \<forall>plan\<in>set ?ps. \<exists>tx\<in>sent_in evs. carries_plan (rs_deps su) plan tx"
    by auto
  then show ?thesis
    using pieces(1) unfolding same every by (intro exI [of _ evs]) (auto simp: layer_sends_def intro!: exI [of _ pieces])
qed

section \<open>The layers of a run\<close>

text \<open>
  The record of a run: one summary and one piece of the log for each layer, in the order of the layers.
\<close>

definition run_record ::
    "('u, 's, 'e, 'a, 'b, 'o, 'w, 'm, 'tx, 'sig) run_setup \<Rightarrow> nat \<Rightarrow> node_id list list \<Rightarrow> layer_summary list
      \<Rightarrow> 'tx rpc_event list list \<Rightarrow> bool" where
  "run_record su li layers sms logs \<longleftrightarrow>
     length sms = length layers \<and> length logs = length layers
     \<and> (\<forall>i<length layers. ly_index (sms ! i) = li + i \<and> ly_success (sms ! i) + ly_failure (sms ! i) = ly_chunks (sms ! i)
          \<and> layer_sends su (layers ! i) (ly_failure (sms ! i) = 0) (logs ! i))"

lemma run_record_Cons:
  assumes "ly_index sm = li" and "ly_success sm + ly_failure sm = ly_chunks sm" and "layer_sends su layer (ly_failure sm = 0) evs"
    and "run_record su (Suc li) layers sms logs"
  shows "run_record su li (layer # layers) (sm # sms) (evs # logs)"
  using assms by (auto simp: run_record_def nth_Cons' less_Suc_eq_0_disj)

lemma layer_sends_weaken: "layer_sends su layer c evs \<Longrightarrow> (c' \<Longrightarrow> c) \<Longrightarrow> layer_sends su layer c' evs"
  by (auto simp: layer_sends_def)

lemma run_layers_record:
  assumes "run_layers su li layers w t r" and "client_contract (rs_deps su)" and "r = RunDone (t', w')"
  shows "\<exists>sms logs. rt_summaries t' = rt_summaries t @ sms
    \<and> ss_log (lw_sender w') = ss_log (lw_sender w) @ concat logs \<and> run_record su li layers sms logs"
  using assms
proof (induction rule: run_layers.induct)
  case (all_done li w t)
  then show ?case by (intro exI [of _ "[]"]) (simp add: run_record_def)
next
  case (layer_sent layer plans w s li layers t r)
  obtain sm where sm: "rt_summaries (note_layer (ld_safety (rs_deps su)) li (layer_chunks (rs_deps su) plans s) t) = rt_summaries t @ [sm]"
    "summary_ok li (layer_chunks (rs_deps su) plans s) sm"
    using note_layer_summary by blast
  from layer_sends_end [OF layer_sent(1-3,6)] obtain evs where
    evs: "ss_log (lw_sender (ls_world s)) = ss_log (lw_sender w) @ evs"
    "layer_sends su layer (list_all succeeded (layer_chunks (rs_deps su) plans s)) evs" by blast
  from layer_sent(5) [OF layer_sent(6,7)] obtain sms logs where rest:
    "rt_summaries t' = rt_summaries t @ [sm] @ sms"
    "ss_log (lw_sender w') = ss_log (lw_sender (ls_world s)) @ concat logs" "run_record su (Suc li) layers sms logs"
    using sm(1) by auto
  have "layer_sends su layer (ly_failure sm = 0) evs"
    using evs(2) summary_no_failure [OF sm(2)] by (rule layer_sends_weaken)
  from run_record_Cons [of sm li, OF _ _ this rest(3)] sm(2) evs(1) rest(1,2) show ?case
    by (intro exI [of _ "sm # sms"] exI [of _ "evs # logs"]) (simp add: summary_ok_def)
qed simp_all

lemma run_er_once_record:
  assumes "run_er_once su w (RunDone (t', w'))" and "client_contract (rs_deps su)"
  shows "\<exists>logs. ss_log (lw_sender w') = ss_log (lw_sender w) @ concat logs \<and> run_record su 0 (rs_layers su) (rt_summaries t') logs"
proof -
  have "run_layers su 0 (rs_layers su) w totals_zero (RunDone (t', w'))"
    using assms(1) by (auto simp: run_er_once_def split: option.splits)
  from run_layers_record [OF this assms(2) refl] show ?thesis by (auto simp: totals_zero_def)
qed

section \<open>A run ends\<close>

lemma run_layers_total: "\<exists>r. run_layers su li layers w t r"
proof (induction layers arbitrary: li w t)
  case Nil
  show ?case using run_layers.all_done by blast
next
  case (Cons layer layers)
  show ?case
  proof (cases "plan_layer su layer")
    case None
    then show ?thesis using run_layers.panicked by blast
  next
    case (Some p)
    show ?thesis
    proof (cases p)
      case (Inl e)
      then show ?thesis using run_layers.not_chunked Some by blast
    next
      case (Inr plans)
      obtain s where s: "layer_reaches (rs_deps su) (layer_config (rs_parallel_cfg su) plans) plans (begin_layer w) s" "ended s"
        using layer_reaches_end by blast
      with Cons.IH [of "Suc li"] Some Inr show ?thesis by (blast intro: run_layers.layer_sent)
    qed
  qed
qed

text \<open>A run is only cut short by the chunker: failed chunks do not matter.\<close>

lemma run_layers_planned:
  assumes "run_layers su li layers w t r"
    and "\<And>layer. layer \<in> set layers \<Longrightarrow> \<exists>plans. plan_layer su layer = Some (Inr plans)"
  shows "\<exists>t' w'. r = RunDone (t', w')"
  using assms
proof (induction rule: run_layers.induct)
  case (panicked layer li layers w t)
  then show ?case using panicked(2) [of layer] by auto
next
  case (not_chunked layer e li layers w t)
  then show ?case using not_chunked(2) [of layer] by auto
qed auto

section \<open>The totals\<close>

definition ran_er :: "'u er_chunk_row \<times> 'sig tx_cost \<Rightarrow> bool" where
  "ran_er p = rw_session_established (fst p)"

text \<open>
  One row and one cost for each success, in the same order; the totals are the sums over the rows whose session was
  established.
\<close>

definition totals_ok :: "('u, 'sig) run_totals \<Rightarrow> bool" where
  "totals_ok t \<longleftrightarrow>
     length (rt_rows t) = length (rt_reports t)
     \<and> (let real = filter ran_er (zip (rt_rows t) (rt_reports t))
        in rt_fee_total t = sum_list (map (tk_total_fee \<circ> snd) real)
           \<and> rt_cu_total t = sum_list (map (ucast \<circ> tk_used_cu \<circ> snd) real)
           \<and> rt_real_chunks t = length real \<and> rt_chunks_total t = length real)
     \<and> rt_plan_fingerprint_real t \<le> rt_real_chunks t
     \<and> rt_real_chunks t + rt_simulated_chunks t \<le> length (rt_rows t)"

lemma totals_ok_zero: "totals_ok totals_zero"
  by (simp add: totals_ok_def totals_zero_def Let_def)

lemma note_success_fields:
  "rt_rows (note_success safety li chunk success t) = rt_rows t @ [row_of li chunk success]"
  "rt_reports (note_success safety li chunk success t) = rt_reports t @ [tx_cost_of safety (sd_report success)]"
  "rt_fee_total (note_success safety li chunk success t) =
     rt_fee_total t + (if dg_session_established (cr_er chunk) then sp_total_fee_lamports (sd_report success) else 0)"
  "rt_cu_total (note_success safety li chunk success t) =
     rt_cu_total t + (if dg_session_established (cr_er chunk) then ucast (sp_used_cu (sd_report success)) else 0)"
  "rt_real_chunks (note_success safety li chunk success t) = rt_real_chunks t + (if dg_session_established (cr_er chunk) then 1 else 0)"
  "rt_chunks_total (note_success safety li chunk success t) = rt_chunks_total t + (if dg_session_established (cr_er chunk) then 1 else 0)"
  "rt_plan_fingerprint_real (note_success safety li chunk success t) \<le>
     rt_plan_fingerprint_real t + (if dg_session_established (cr_er chunk) then 1 else 0)"
  "rt_simulated_chunks (note_success safety li chunk success t) \<le>
     rt_simulated_chunks t + (if dg_session_established (cr_er chunk) then 0 else 1)"
  by (simp_all add: note_success_def Let_def split: option.split)

lemma ran_er_row: "ran_er (row_of li chunk success, c) = dg_session_established (cr_er chunk)"
  by (simp add: ran_er_def row_of_def Let_def)

lemma tk_tx_cost: "tk_total_fee (tx_cost_of safety report) = sp_total_fee_lamports report"
  "tk_used_cu (tx_cost_of safety report) = sp_used_cu report"
  by (simp_all add: tx_cost_of_def Let_def)

lemma note_success_ok:
  assumes ok: "totals_ok t"
  shows "totals_ok (note_success safety li chunk success t)"
proof -
  let ?t = "note_success safety li chunk success t"
  have len: "length (rt_rows t) = length (rt_reports t)" using ok by (simp add: totals_ok_def)
  let ?real = "filter ran_er (zip (rt_rows t) (rt_reports t))"
  have real: "filter ran_er (zip (rt_rows ?t) (rt_reports ?t)) =
      ?real @ (if dg_session_established (cr_er chunk) then [(row_of li chunk success, tx_cost_of safety (sd_report success))] else [])"
    using len by (simp add: note_success_fields(1,2) ran_er_row)
  have old: "rt_fee_total t = sum_list (map (tk_total_fee \<circ> snd) ?real)" "rt_cu_total t = sum_list (map (ucast \<circ> tk_used_cu \<circ> snd) ?real)"
    "rt_real_chunks t = length ?real" "rt_chunks_total t = length ?real" "rt_plan_fingerprint_real t \<le> rt_real_chunks t"
    "rt_real_chunks t + rt_simulated_chunks t \<le> length (rt_rows t)"
    using ok by (simp_all add: totals_ok_def Let_def)
  show ?thesis
    unfolding totals_ok_def Let_def real
    using len old(1-4) note_success_fields(7,8) [of safety li chunk success t] old(5,6)
    by (auto simp: note_success_fields(1-6) tk_tx_cost)
qed

lemma note_chunks_ok: "note_chunks safety li chunks (a, b, t) = (a', b', t') \<Longrightarrow> totals_ok t \<Longrightarrow> totals_ok t'"
proof (induction chunks arbitrary: a b t)
  case (Cons chunk chunks)
  then show ?case using note_success_ok by (fastforce split: chunk_outcome.splits)
qed simp

lemma note_layer_ok: "totals_ok t \<Longrightarrow> totals_ok (note_layer safety li chunks t)"
  using note_chunks_ok [of safety li chunks 0 0 t]
  by (cases "note_chunks safety li chunks (0, 0, t)") (simp add: note_layer_def totals_ok_def Let_def)

lemma run_layers_totals:
  assumes "run_layers su li layers w t r" and "totals_ok t" and "r = RunDone (t', w')"
  shows "totals_ok t'"
  using assms by (induction rule: run_layers.induct) (auto intro: note_layer_ok)

section \<open>A concrete run\<close>

text \<open>
  Two intents over the account 7: the first writes it, the second reads it and carries the instruction of the
  demonstration chunk. With \<open>unlucky_deps\<close> the provider has no lease for the first.
\<close>

definition pair_intents :: "user_intent list" where
  "pair_intents = [sample_intent 1 [(7, Writable)], (sample_intent 0 [(7, ReadOnly)])\<lparr>ui_ix := ui_ix demo_intent\<rparr>]"

definition demo_setup ::
    "(string, unit, (string, nat) er_client, unit, lease_outcome list, basic_fee_oracle, unit, hash32 \<times> instruction list,
      hash32 \<times> instruction list, nat) layer_deps
     \<Rightarrow> (string, unit, (string, nat) er_client, unit, lease_outcome list, basic_fee_oracle, unit, hash32 \<times> instruction list,
      hash32 \<times> instruction list, nat) run_setup" where
  "demo_setup deps =
     \<lparr>rs_deps = deps, rs_mark_layer_boundary = id, rs_dag = dag_build [7] pair_intents, rs_layers = [[0], [1]],
      rs_tx_budget = tx_budget_default, rs_alt_policy = alt_policy_default, rs_parallel_cfg = demo_layer_config False,
      rs_debug_assertions = True\<rparr>"

definition unlucky_deps ::
    "(string, unit, (string, nat) er_client, unit, lease_outcome list, basic_fee_oracle, unit, hash32 \<times> instruction list,
      hash32 \<times> instruction list, nat) layer_deps" where
  "unlucky_deps = demo_deps\<lparr>ld_lease_for_intents := \<lambda>intents b.
     if ui_priority (hd intents) = 1 then (Inl ''no lease'', b) else ld_lease_for_intents demo_deps intents b\<rparr>"

definition pair_plan :: "nat \<Rightarrow> chunk_plan" where
  "pair_plan i =
     \<lparr>cp_index = 0, cp_intents = [pair_intents ! i],
      cp_estimates = \<lparr>ce_est_cu = 25000, ce_est_msg_bytes = (if i = 0 then 137 else 138), ce_alt_ro_count = 0, ce_alt_wr_count = 0\<rparr>,
      cp_merged_indices = []\<rparr>"

lemma pair_covered: "covers_accounts [7] pair_intents"
  by code_simp

lemma pair_layers: "dag_layers (dag_build [7] pair_intents) = Some (Inr [[0], [1]])"
  by code_simp

lemma pair_planned:
  "plan_layer (demo_setup deps) [0] = Some (Inr [pair_plan 0])" "plan_layer (demo_setup deps) [1] = Some (Inr [pair_plan 1])"
proof -
  have "chunk_layer_with True [0] pair_intents tx_budget_default alt_policy_default basic_oracle
      = Some (Inr [\<lparr>pc_node_ids = [0], pc_est_cu = 25000, pc_est_message_bytes = 137, pc_alt_readonly = 0, pc_alt_writable = 0\<rparr>])"
    "chunk_layer_with True [1] pair_intents tx_budget_default alt_policy_default basic_oracle
      = Some (Inr [\<lparr>pc_node_ids = [1], pc_est_cu = 25000, pc_est_message_bytes = 138, pc_alt_readonly = 0, pc_alt_writable = 0\<rparr>])"
    by code_simp+
  then show "plan_layer (demo_setup deps) [0] = Some (Inr [pair_plan 0])" "plan_layer (demo_setup deps) [1] = Some (Inr [pair_plan 1])"
    by (simp_all add: plan_layer_def demo_setup_def chunk_plans_of_def chunk_plan_of_def pair_plan_def)
qed

lemma demo_setup_fields [simp]:
  "rs_deps (demo_setup deps) = deps" "rs_layers (demo_setup deps) = [[0], [1]]" "rs_dag (demo_setup deps) = dag_build [7] pair_intents"
  "rs_parallel_cfg (demo_setup deps) = demo_layer_config False" "end_layer (demo_setup deps) w = w"
  by (simp_all add: demo_setup_def end_layer_def)

lemma demo_setup_done:
  assumes "ld_er deps \<noteq> None"
  shows "\<exists>t w'. run_er_once (demo_setup deps) w (RunDone (t, w'))"
proof -
  have run: "run_er_once (demo_setup deps) w r \<longleftrightarrow> run_layers (demo_setup deps) 0 [[0], [1]] w totals_zero r" for r
    using assms by (auto simp: run_er_once_def)
  obtain r where r: "run_layers (demo_setup deps) 0 [[0], [1]] w totals_zero r" using run_layers_total by blast
  from run_layers_planned [OF this] pair_planned obtain t w' where "r = RunDone (t, w')" by fastforce
  with r have "run_er_once (demo_setup deps) w (RunDone (t, w'))" unfolding run by simp
  then show ?thesis by blast
qed

section \<open>Properties\<close>

lemma layering_orders:
  assumes "layering (intent_edges UNIV intents) (length intents) ls" and "u < length intents" and "v < length intents"
    and "order_key (intents ! u) u < order_key (intents ! v) v"
    and "\<lparr>aa_pubkey = k, aa_access = Writable\<rparr> \<in> set (ui_accesses (intents ! u))"
    and "k \<in> aa_pubkey ` set (ui_accesses (intents ! v))"
  shows "\<exists>i j. i < j \<and> j < length ls \<and> u \<in> set (ls ! i) \<and> v \<in> set (ls ! j)"
proof -
  have e: "(u, v) \<in> intent_edges UNIV intents"
    using assms(2-6) by (auto simp: intent_edges_def account_edges_def)
  have "v \<in> set (concat ls)" using assms(1,3) by (auto simp: layering_def)
  then obtain l where "l \<in> set ls" "v \<in> set l" by auto
  then obtain j where j: "j < length ls" "v \<in> set (ls ! j)" by (metis in_set_conv_nth)
  have "{u. (u, v) \<in> intent_edges UNIV intents} \<subseteq> set (concat (take j ls))"
    using assms(1) j unfolding layering_def layers_closed_def by blast
  with e have "u \<in> set (concat (take j ls))" by blast
  then obtain i where "i < j" "in_layer ls i u" using in_layer_take by blast
  with j show ?thesis by (auto simp: in_layer_def)
qed

text \<open>
  A run that ends sends the layers of the DAG one after the other: its log is one piece for each layer. Every intent
  belongs to exactly one layer, and an intent that touches an account which another one of higher rank writes belongs to
  a later layer.
\<close>

lemma run_follows_the_dag:
  assumes dag: "rs_dag su = dag_build order intents" "covers_accounts order intents"
      "dag_layers (rs_dag su) = Some (Inr (rs_layers su))"
    and run: "run_er_once su w (RunDone (t, w'))" and client: "client_contract (rs_deps su)"
  shows "\<exists>logs. ss_log (lw_sender w') = ss_log (lw_sender w) @ concat logs
      \<and> run_record su 0 (rs_layers su) (rt_summaries t) logs
      \<and> mset (concat (rs_layers su)) = mset [0..<length intents]
      \<and> (\<forall>u v k. u < length intents \<longrightarrow> v < length intents \<longrightarrow> order_key (intents ! u) u < order_key (intents ! v) v \<longrightarrow>
           \<lparr>aa_pubkey = k, aa_access = Writable\<rparr> \<in> set (ui_accesses (intents ! u)) \<longrightarrow>
           k \<in> aa_pubkey ` set (ui_accesses (intents ! v)) \<longrightarrow>
           (\<exists>i j. i < j \<and> j < length (rs_layers su) \<and> u \<in> set (rs_layers su ! i) \<and> v \<in> set (rs_layers su ! j)))"
proof -
  have L: "layering (intent_edges UNIV intents) (length intents) (rs_layers su)"
    using dag by (simp add: dag_layers_build intent_edges_covers)
  then have "mset (concat (rs_layers su)) = mset [0..<length intents]"
    unfolding layering_def by (metis atLeast_upt distinct_upt set_eq_iff_mset_eq_distinct)
  with run_er_once_record [OF run client] layering_orders [OF L] show ?thesis by blast
qed

lemma unlucky_fields [simp]:
  "ld_hash unlucky_deps = (\<lambda>_. 0)" "ld_er unlucky_deps = Some demo_ctx" "ld_payer unlucky_deps = 5" "ld_fetch unlucky_deps = demo_fetch"
  "ld_occ_jitter unlucky_deps = (\<lambda>_. 0)" "ld_occ_config unlucky_deps = occ_config_default"
  "ld_resolve_tables unlucky_deps payer is a = (resolution_default, a)" "ld_safety unlucky_deps = safety_margins_default"
  "ld_send unlucky_deps = ld_send demo_deps"
  "ld_lease_for_intents unlucky_deps = (\<lambda>intents b. if ui_priority (hd intents) = 1 then (Inl ''no lease'', b)
     else ld_lease_for_intents demo_deps intents b)"
  by (simp_all add: unlucky_deps_def demo_deps_def)

lemma unlucky_build [simp]: "build_closure unlucky_deps = build_closure demo_deps"
proof -
  have "ld_payer unlucky_deps = ld_payer demo_deps" "ld_safety unlucky_deps = ld_safety demo_deps"
    "ld_api unlucky_deps = ld_api demo_deps" "ld_key_text unlucky_deps = ld_key_text demo_deps"
    by (simp_all add: unlucky_deps_def)
  then show ?thesis by (intro ext) (simp only: build_closure_def)
qed

lemma unlucky_contract: "client_contract unlucky_deps"
  using demo_contract by (simp add: client_contract_def demo_deps_def)

lemma pair_prepared:
  assumes "lw_er w = demo_client"
  shows "\<exists>p. prepare_attempt unlucky_deps (pair_plan i) w = (Inr p, w) \<and> ps_intents p = [pair_intents ! i] \<and> ps_er_meta p = None
    \<and> \<not> dg_session_established (ps_er_diag p)"
proof -
  have "w\<lparr>lw_er := demo_client\<rparr> = w" using assms by (cases w) simp
  then show ?thesis
    using assms
    by (simp add: prepare_attempt_def prepare_er_stage_def demo_ctx_def http_ctx_def skip_reason_def pair_plan_def ER_SMALL_MESSAGE_BYTES_def
        Let_def demo_config_def stage_diagnostics_def diagnostics_default_def)
qed

lemma pair_targets:
  "collect_target_accounts [pair_intents ! 0] True = [7]" "collect_target_accounts [pair_intents ! 1] True = [7]"
  by code_simp+

lemma demo_captures:
  "\<exists>snapshot o'. capture_with_targets (\<lambda>_. 0) demo_fetch (\<lambda>_. 0) [k] occ_config_default oc = (Some (Inr snapshot), o')"
  by (simp add: capture_with_targets_def capture_loop.simps capture_once_def demo_fetch_def within_drift_def
      occ_config_default_def Let_def)

lemma pair_captured:
  assumes "i < 2"
  shows "\<exists>snapshot o'. capture_occ_with_retries (\<lambda>_. 0) demo_fetch (\<lambda>_. 0) [pair_intents ! i] occ_config_default oc
     = (Some (Inr snapshot), o')"
proof -
  have "i = 0 \<or> i = 1" using assms by auto
  moreover have "oc_include_readonly occ_config_default" by (simp add: occ_config_default_def)
  ultimately show ?thesis using pair_targets demo_captures [of 7 oc] by (auto simp: capture_occ_with_retries_def)
qed

lemma no_lease_final: "\<not> is_transient_error ''no lease''"
  by code_simp

lemma unlucky_first:
  assumes "lw_er w = demo_client"
  shows "\<exists>s err. layer_reaches unlucky_deps (layer_config (demo_layer_config False) [pair_plan 0]) [pair_plan 0] w s \<and> ended s
    \<and> layer_chunks unlucky_deps [pair_plan 0] s = [chunk_failure_result (pair_plan 0) 1 err]
    \<and> lw_er (ls_world s) = demo_client \<and> lw_sender (ls_world s) = lw_sender w"
proof -
  have plans: "layer_plans unlucky_deps [pair_plan 0] = [pair_plan 0]"
    by (simp add: layer_plans_def demo_ctx_def demo_config_def)
  obtain p where prep: "prepare_attempt unlucky_deps (pair_plan 0) w = (Inr p, w)" "ps_intents p = [pair_intents ! 0]" "ps_er_meta p = None"
    using pair_prepared [OF assms] by blast
  obtain snapshot o' where cap: "capture_occ_with_retries (\<lambda>_. 0) demo_fetch (\<lambda>_. 0) [pair_intents ! 0] occ_config_default (lw_occ w)
     = (Some (Inr snapshot), o')" using pair_captured [of 0] by fastforce
  have "ui_priority (pair_intents ! 0) = 1" by (simp add: pair_intents_def sample_intent_def)
  then have "\<exists>err w'. process_chunk_once unlucky_deps False p w = (Inl err, w') \<and> \<not> ae_retriable err \<and> lw_er w' = lw_er w \<and> lw_sender w' = lw_sender w"
    using prep cap by (simp add: process_chunk_once_def Let_def occ_accounts_override_def acquire_lease_def er_plan_of_def no_lease_final)
  then obtain err w' where once: "process_chunk_once unlucky_deps False p w = (Inl err, w')" "\<not> ae_retriable err" "lw_er w' = lw_er w" "lw_sender w' = lw_sender w"
    by blast
  have "lc_dry_run (layer_config (demo_layer_config False) [pair_plan 0]) = False" by (simp add: demo_layer_config_def)
  with single_chunk_layer_fails [OF plans prep(1), of "layer_config (demo_layer_config False) [pair_plan 0]"] once assms
  show ?thesis by fastforce
qed

lemma unlucky_second:
  assumes "lw_er w = demo_client" and "lw_sender w = lw_sender demo_world"
  shows "\<exists>s success. layer_reaches unlucky_deps (layer_config (demo_layer_config False) [pair_plan 1]) [pair_plan 1] w s \<and> ended s
    \<and> layer_chunks unlucky_deps [pair_plan 1] s = [chunk_success_result (pair_plan 1) 1 success]
    \<and> \<not> dg_session_established (su_er_diag success)"
proof -
  have plans: "layer_plans unlucky_deps [pair_plan 1] = [pair_plan 1]"
    by (simp add: layer_plans_def demo_ctx_def demo_config_def)
  obtain p where prep: "prepare_attempt unlucky_deps (pair_plan 1) w = (Inr p, w)" "ps_intents p = [pair_intents ! 1]" "ps_er_meta p = None"
    "\<not> dg_session_established (ps_er_diag p)"
    using pair_prepared [OF assms(1)] by blast
  obtain snapshot o' where cap: "capture_occ_with_retries (\<lambda>_. 0) demo_fetch (\<lambda>_. 0) [pair_intents ! 1] occ_config_default (lw_occ w)
     = (Some (Inr snapshot), o')" using pair_captured [of 1] by fastforce
  have second: "ui_priority (pair_intents ! 1) = 0" "ui_ix (pair_intents ! 1) = ui_ix demo_intent"
    by (simp_all add: pair_intents_def sample_intent_def)
  obtain lease b where lease: "acquire_lease unlucky_deps p (lw_blockhash w) = (Inr (lease, BaselineLease), b)"
    using prep second by (simp add: acquire_lease_def er_plan_of_def demo_deps_def)
  obtain report s' where send: "simulate_build_and_send_with_report
      ((ld_send demo_deps)\<lparr>se_build := build_closure demo_deps lease resolution_default [pair_intents ! 1]\<rparr>) False
      (lw_sender w) = Some (Inr report, s')"
    using demo_sends [of "[pair_intents ! 1]"] second assms(2) by fastforce
  have "\<exists>success w'. process_chunk_once unlucky_deps False p w = (Inr success, w') \<and> su_er_diag success = ps_er_diag p"
    using prep cap lease send by (simp add: process_chunk_once_def Let_def occ_accounts_override_def send_chunk_def)
  then obtain success w' where once: "chunk_attempt unlucky_deps False (pair_plan 1) w = (Inr success, w')"
    "\<not> dg_session_established (su_er_diag success)"
    using prep by (auto simp: chunk_attempt_def)
  have "lc_dry_run (layer_config (demo_layer_config False) [pair_plan 1]) = False" by (simp add: demo_layer_config_def)
  with single_chunk_layer [OF plans, of "layer_config (demo_layer_config False) [pair_plan 1]"] once show ?thesis by fastforce
qed

lemma begin_demo:
  assumes "lw_er w = demo_client" and "lw_sender w = lw_sender demo_world"
  shows "lw_er (begin_layer w) = demo_client" "lw_sender (begin_layer w) = lw_sender demo_world"
  using assms by (simp_all add: begin_layer_def start_scope_def demo_world_def sender_new_def)

text \<open>A run whose first layer fails and whose second layer is sent without the ER.\<close>

lemma unlucky_run:
  "\<exists>t w0 s1. run_er_once (demo_setup unlucky_deps) demo_world (RunDone (t, ls_world s1))
     \<and> map ly_failure (rt_summaries t) = [1, 0] \<and> map ly_success (rt_summaries t) = [0, 1]
     \<and> map rw_session_established (rt_rows t) = [False]
     \<and> layer_reaches unlucky_deps (layer_config (demo_layer_config False) [pair_plan 1]) [pair_plan 1] (begin_layer w0) s1
     \<and> ended s1 \<and> list_all succeeded (layer_chunks unlucky_deps [pair_plan 1] s1)"
proof -
  let ?su = "demo_setup unlucky_deps" and ?safety = "ld_safety unlucky_deps"
  have start: "lw_er demo_world = demo_client" by (simp add: demo_world_def)
  obtain s0 err where s0: "layer_reaches unlucky_deps (layer_config (demo_layer_config False) [pair_plan 0]) [pair_plan 0] (begin_layer demo_world) s0"
    "ended s0" "layer_chunks unlucky_deps [pair_plan 0] s0 = [chunk_failure_result (pair_plan 0) 1 err]"
    "lw_er (ls_world s0) = demo_client" "lw_sender (ls_world s0) = lw_sender demo_world"
    using unlucky_first [of "begin_layer demo_world"] begin_demo [OF start refl] by auto
  obtain s1 success where s1: "layer_reaches unlucky_deps (layer_config (demo_layer_config False) [pair_plan 1]) [pair_plan 1] (begin_layer (ls_world s0)) s1"
    "ended s1" "layer_chunks unlucky_deps [pair_plan 1] s1 = [chunk_success_result (pair_plan 1) 1 success]" "\<not> dg_session_established (su_er_diag success)"
    using unlucky_second [OF begin_demo [OF s0(4,5)]] by blast
  define t0 :: "(string, nat) run_totals" where "t0 = note_layer ?safety 0 [chunk_failure_result (pair_plan 0) 1 err] totals_zero"
  define t1 where "t1 = note_layer ?safety 1 [chunk_success_result (pair_plan 1) 1 success] t0"
  have "run_layers ?su (Suc 1) [] (ls_world s1) t1 (RunDone (t1, ls_world s1))" by (rule run_layers.all_done)
  then have "run_layers ?su 1 [[1]] (ls_world s0) t0 (RunDone (t1, ls_world s1))"
    using run_layers.layer_sent [of ?su "[1]", OF pair_planned(2), of "ls_world s0" s1 1 "[]" t0] s1 by (simp add: t1_def)
  then have "run_layers ?su 0 [[0], [1]] demo_world totals_zero (RunDone (t1, ls_world s1))"
    using run_layers.layer_sent [of ?su "[0]", OF pair_planned(1), of demo_world s0 0 "[[1]]" totals_zero] s0 by (simp add: t0_def)
  then have run: "run_er_once ?su demo_world (RunDone (t1, ls_world s1))" by (simp add: run_er_once_def)
  have sums: "map ly_failure (rt_summaries t1) = [1, 0]" "map ly_success (rt_summaries t1) = [0, 1]"
    by (simp_all add: t1_def t0_def note_layer_def chunk_failure_result_def chunk_success_result_def totals_zero_def note_success_def Let_def
        split: option.split)
  moreover have "map rw_session_established (rt_rows t1) = [False]"
    using s1(4) by (simp add: t1_def t0_def note_layer_def chunk_failure_result_def chunk_success_result_def totals_zero_def note_success_def
        row_of_def Let_def split: option.split)
  moreover have "list_all succeeded (layer_chunks unlucky_deps [pair_plan 1] s1)"
    unfolding s1(3) by (simp add: chunk_success_result_def)
  ultimately show ?thesis using run s1(1,2) by (intro exI conjI)
qed

text \<open>
  The totals of a run are those of the rows whose ER session was established: fees and compute units are summed over
  these rows only (modulo \<open>2 ^ 64\<close>). Rows and costs correspond one to one, but a run in which no chunk reached the ER
  reports a fee of 0 however much its transactions cost.
\<close>

theorem run_totals_count_er_only:
  assumes "run_er_once su w (RunDone (t, w'))"
  shows "length (rt_rows t) = length (rt_reports t)
    \<and> rt_fee_total t = sum_list (map (\<lambda>p. tk_total_fee (snd p)) (filter ran_er (zip (rt_rows t) (rt_reports t))))
    \<and> rt_cu_total t = sum_list (map (\<lambda>p. ucast (tk_used_cu (snd p))) (filter ran_er (zip (rt_rows t) (rt_reports t))))
    \<and> rt_real_chunks t = length (filter rw_session_established (rt_rows t))
    \<and> rt_plan_fingerprint_real t \<le> rt_real_chunks t
    \<and> ((\<forall>row\<in>set (rt_rows t). \<not> rw_session_established row) \<longrightarrow> rt_fee_total t = 0 \<and> rt_cu_total t = 0)"
proof -
  have "run_layers su 0 (rs_layers su) w totals_zero (RunDone (t, w'))"
    using assms by (auto simp: run_er_once_def split: option.splits)
  from run_layers_totals [OF this totals_ok_zero refl] have ok: "totals_ok t" .
  then have len: "length (rt_rows t) = length (rt_reports t)" by (simp add: totals_ok_def)
  then have "length (filter ran_er (zip (rt_rows t) (rt_reports t))) = length (filter rw_session_established (rt_rows t))"
    by (induction rule: list_induct2) (simp_all add: ran_er_def)
  moreover have "(\<forall>row\<in>set (rt_rows t). \<not> rw_session_established row) \<Longrightarrow> filter ran_er (zip (rt_rows t) (rt_reports t)) = []"
    by (auto simp: filter_empty_conv ran_er_def dest: set_zip_leftD)
  ultimately show ?thesis using ok len by (auto simp: totals_ok_def Let_def comp_def)
qed

theorem run_totals_count_er_only_witness:
  "\<exists>t w'. run_er_once (demo_setup demo_deps) demo_world (RunDone (t, w'))
     \<and> rt_real_chunks t = length (filter rw_session_established (rt_rows t))"
proof -
  have "ld_er demo_deps \<noteq> None" by (simp add: demo_deps_def)
  then obtain t w' where run: "run_er_once (demo_setup demo_deps) demo_world (RunDone (t, w'))"
    using demo_setup_done by blast
  with run_totals_count_er_only [OF run] show ?thesis by blast
qed
end
