(* ===== verification/DriverRuns.thy ===== *)
theory DriverRuns
  imports Driver
begin

text \<open>
  The run of the rollup, step by step: the loop of \<open>run_er_once\<close> with the steps of the tasks inside each layer. Its complete
  runs are those of \<open>run_layers\<close>; its steps show that a run always ends, and what it does after a failure.
\<close>

section \<open>The steps of a run\<close>

datatype ('u, 's, 'e, 'a, 'b, 'o, 'w, 'tx, 'sig) run_conf =
    NextLayer nat "node_id list list" "('s, 'e, 'a, 'b, 'o, 'w, 'tx) layer_world" "('u, 'sig) run_totals"
  | InLayer nat "chunk_plan list" "node_id list list" "('u, 'sig) run_totals" "('u, 's, 'e, 'a, 'b, 'o, 'w, 'tx, 'sig) layer_sys"
  | RunOver "(('u, 'sig) run_totals \<times> ('s, 'e, 'a, 'b, 'o, 'w, 'tx) layer_world, ('s, 'e, 'a, 'b, 'o, 'w, 'tx) layer_world) run_outcome"

abbreviation cfg_of ::
    "('u, 's, 'e, 'a, 'b, 'o, 'w, 'm, 'tx, 'sig) run_setup \<Rightarrow> chunk_plan list \<Rightarrow> parallel_layer_config" where
  "cfg_of su plans \<equiv> sanitised (layer_config (rs_parallel_cfg su) plans)"

inductive run_step ::
    "('u, 's, 'e, 'a, 'b, 'o, 'w, 'm, 'tx, 'sig) run_setup \<Rightarrow> ('u, 's, 'e, 'a, 'b, 'o, 'w, 'tx, 'sig) run_conf
      \<Rightarrow> ('u, 's, 'e, 'a, 'b, 'o, 'w, 'tx, 'sig) run_conf \<Rightarrow> bool"
  for su where
  finish: "run_step su (NextLayer li [] w t) (RunOver (RunDone (t, w)))"
| plan_panics: "plan_layer su layer = None \<Longrightarrow>
    run_step su (NextLayer li (layer # layers) w t) (RunOver (RunPanicked (begin_layer w)))"
| plan_fails: "plan_layer su layer = Some (Inl e) \<Longrightarrow>
    run_step su (NextLayer li (layer # layers) w t) (RunOver (RunChunkError e (begin_layer w)))"
| enter: "plan_layer su layer = Some (Inr plans) \<Longrightarrow>
    run_step su (NextLayer li (layer # layers) w t)
      (InLayer li plans layers t (layer_init (cfg_of su plans) (layer_plans (rs_deps su) plans) (begin_layer w)))"
| work: "layer_step (rs_deps su) (cfg_of su plans) (layer_plans (rs_deps su) plans) s s' \<Longrightarrow>
    run_step su (InLayer li plans layers t s) (InLayer li plans layers t s')"
| leave: "ended s \<Longrightarrow>
    run_step su (InLayer li plans layers t s)
      (NextLayer (Suc li) layers (end_layer su (ls_world s))
        (note_layer (ld_safety (rs_deps su)) li (layer_chunks (rs_deps su) plans s) t))"

definition run_start ::
    "('u, 's, 'e, 'a, 'b, 'o, 'w, 'm, 'tx, 'sig) run_setup \<Rightarrow> ('s, 'e, 'a, 'b, 'o, 'w, 'tx) layer_world
      \<Rightarrow> ('u, 's, 'e, 'a, 'b, 'o, 'w, 'tx, 'sig) run_conf" where
  "run_start su w = (case ld_er (rs_deps su) of None \<Rightarrow> RunOver RunWithoutEr | Some ctx \<Rightarrow> NextLayer 0 (rs_layers su) w totals_zero)"

inductive_cases run_over_stepE: "run_step su (RunOver r) c"
inductive_cases in_layer_stepE: "run_step su (InLayer li plans layers t s) c"

section \<open>Agreement with \<open>run_layers\<close>\<close>

lemma work_steps:
  assumes "(layer_step (rs_deps su) (cfg_of su plans) (layer_plans (rs_deps su) plans))\<^sup>*\<^sup>* s s'"
  shows "(run_step su)\<^sup>*\<^sup>* (InLayer li plans layers t s) (InLayer li plans layers t s')"
  using assms by (induction rule: rtranclp_induct) (auto intro: rtranclp.rtrancl_into_rtrancl run_step.work)

lemma big_to_small: "run_layers su li layers w t r \<Longrightarrow> (run_step su)\<^sup>*\<^sup>* (NextLayer li layers w t) (RunOver r)"
proof (induction rule: run_layers.induct)
  case (layer_sent layer plans w s li layers t r)
  note enter = run_step.enter [OF layer_sent(1), of li layers w t]
  note work = work_steps [OF layer_sent(2) [unfolded layer_reaches_def], of li layers t]
  note leave = run_step.leave [OF layer_sent(3), of su li plans layers t]
  show ?case
    using converse_rtranclp_into_rtranclp [of "run_step su", OF enter rtranclp_trans [OF work converse_rtranclp_into_rtranclp [of "run_step su", OF leave layer_sent(5)]]] .
qed (auto intro: run_step.intros)

text \<open>What a configuration has become of: the outcomes that are still possible.\<close>

fun conf_outcome ::
    "('u, 's, 'e, 'a, 'b, 'o, 'w, 'm, 'tx, 'sig) run_setup \<Rightarrow> ('u, 's, 'e, 'a, 'b, 'o, 'w, 'tx, 'sig) run_conf
      \<Rightarrow> (('u, 'sig) run_totals \<times> ('s, 'e, 'a, 'b, 'o, 'w, 'tx) layer_world, ('s, 'e, 'a, 'b, 'o, 'w, 'tx) layer_world) run_outcome \<Rightarrow> bool" where
  "conf_outcome su (NextLayer li layers w t) r = run_layers su li layers w t r"
| "conf_outcome su (InLayer li plans layers t s) r =
     (\<exists>s'. (layer_step (rs_deps su) (cfg_of su plans) (layer_plans (rs_deps su) plans))\<^sup>*\<^sup>* s s' \<and> ended s'
        \<and> run_layers su (Suc li) layers (end_layer su (ls_world s'))
            (note_layer (ld_safety (rs_deps su)) li (layer_chunks (rs_deps su) plans s') t) r)"
| "conf_outcome su (RunOver r') r = (r = r')"

lemma step_outcome: "run_step su c c' \<Longrightarrow> conf_outcome su c' r \<Longrightarrow> conf_outcome su c r"
proof (induction rule: run_step.induct)
  case (enter layer plans li layers w t)
  then show ?case using run_layers.layer_sent [of su layer plans w] by (auto simp: layer_reaches_def)
next
  case (work plans s s' li layers t)
  then show ?case by (auto intro: converse_rtranclp_into_rtranclp)
qed (auto intro: run_layers.intros)

lemma small_to_big: "(run_step su)\<^sup>*\<^sup>* c (RunOver r) \<Longrightarrow> conf_outcome su c r"
  by (induction rule: converse_rtranclp_induct) (auto intro: step_outcome)

lemma run_iff: "run_er_once su w r \<longleftrightarrow> (run_step su)\<^sup>*\<^sup>* (run_start su w) (RunOver r)"
proof (cases "ld_er (rs_deps su)")
  case None
  have "(run_step su)\<^sup>*\<^sup>* (RunOver r') (RunOver r) \<longleftrightarrow> r = r'" for r' :: "(('a, 'j) run_totals \<times> _, _) run_outcome"
    by (auto elim: converse_rtranclpE run_over_stepE)
  with None show ?thesis by (simp add: run_er_once_def run_start_def)
next
  case (Some ctx)
  then show ?thesis using big_to_small small_to_big [of su "NextLayer 0 (rs_layers su) w totals_zero"]
    by (auto simp: run_er_once_def run_start_def)
qed

section \<open>Termination\<close>

lemma merge_plans_length: "length (merge_plans lm plans) \<le> length plans"
proof (induction lm plans rule: merge_plans.induct)
  case (2 lm head plans)
  have "length (snd (merge_candidates lm (ui_actor (hd (cp_intents head))) plans (merge_begin head))) \<le> length plans"
    by (rule merge_candidates_length)
  with 2 show ?case by (auto simp: Let_def) (metis le_trans prod.collapse)
qed simp

lemma layer_plans_length: "length (layer_plans deps plans) \<le> length plans"
  by (simp add: layer_plans_def merge_small_chunk_plans_def merge_plans_length split: option.split)

lemma plan_layer_length:
  assumes "plan_layer su layer = Some (Inr plans)"
  shows "length plans \<le> length layer"
proof -
  obtain chunks where c: "chunk_layer_with (rs_debug_assertions su) layer (dag_nodes (rs_dag su)) (rs_tx_budget su)
      (rs_alt_policy su) basic_oracle = Some (Inr chunks)"
    and p: "plans = chunk_plans_of (dag_nodes (rs_dag su)) chunks"
    using assms by (auto simp: plan_layer_def split: option.splits sum.splits)
  have "chunk_loop (rs_debug_assertions su) (rs_tx_budget su) (rs_alt_policy su)
      (zip layer (map (\<lambda>nid. from_intent (dag_nodes (rs_dag su) ! nid) (rs_tx_budget su) basic_oracle) layer))
      (acc_new (rs_tx_budget su) (rs_alt_policy su)) [] = Some (Inr chunks)"
    using c by (simp add: chunk_layer_with_def split: if_splits)
  from chunk_loop_partition [OF this] have *: "concat (map pc_node_ids chunks) = layer" "list_all (\<lambda>c. pc_node_ids c \<noteq> []) chunks" by auto
  have "list_all (\<lambda>c. pc_node_ids c \<noteq> []) cs \<Longrightarrow> length cs \<le> length (concat (map pc_node_ids cs))" for cs
  proof (induction cs)
    case (Cons c cs)
    then show ?case by (cases "pc_node_ids c") auto
  qed simp
  from this [of chunks] * show ?thesis by (simp add: p chunk_plans_of_def)
qed

text \<open>Each layer costs two steps and 32 for each of its intents.\<close>

definition layers_rank :: "node_id list list \<Rightarrow> nat" where
  "layers_rank layers = 32 * length (concat layers) + 2 * length layers + 1"

fun run_rank ::
    "('u, 's, 'e, 'a, 'b, 'o, 'w, 'm, 'tx, 'sig) run_setup \<Rightarrow> ('u, 's, 'e, 'a, 'b, 'o, 'w, 'tx, 'sig) run_conf \<Rightarrow> nat" where
  "run_rank su (NextLayer li layers w t) = layers_rank layers"
| "run_rank su (InLayer li plans layers t s) = layer_rank (cfg_of su plans) s + 1 + layers_rank layers"
| "run_rank su (RunOver r) = 0"

fun conf_ok ::
    "('u, 's, 'e, 'a, 'b, 'o, 'w, 'm, 'tx, 'sig) run_setup \<Rightarrow> ('u, 's, 'e, 'a, 'b, 'o, 'w, 'tx, 'sig) run_conf \<Rightarrow> bool" where
  "conf_ok su (InLayer li plans layers t s) = layer_inv (cfg_of su plans) (layer_plans (rs_deps su) plans) s"
| "conf_ok su c = True"

lemma run_step_rank: "run_step su c c' \<Longrightarrow> conf_ok su c \<Longrightarrow> conf_ok su c' \<and> run_rank su c' < run_rank su c"
proof (induction rule: run_step.induct)
  case (enter layer plans li layers w t)
  let ?c = "cfg_of su plans" and ?ps = "layer_plans (rs_deps su) plans"
  let ?s = "layer_init ?c ?ps (begin_layer w) :: ('a, 'b, 'c, 'd, 'e, 'f, 'g, 'i, 'j) layer_sys"
  have "layer_rank ?c ?s \<le> 32 * length ?ps"
    using layer_reaches_rank [of "rs_deps su" "layer_config (rs_parallel_cfg su) plans" plans "begin_layer w" ?s]
    by (simp add: layer_reaches_def)
  also have "\<dots> \<le> 32 * length layer" using layer_plans_length [of "rs_deps su" plans] plan_layer_length [OF enter(1)] by simp
  finally have "layer_rank ?c ?s \<le> 32 * length layer" .
  moreover have "layer_inv ?c ?ps ?s" by (rule layer_inv_init [OF sanitised_bounds(3)])
  ultimately show ?case by (simp add: layers_rank_def)
next
  case (work plans s s' li layers t)
  then show ?case using layer_step_rank layer_inv_step by auto
qed (simp_all add: layers_rank_def)

lemma run_steps_rank:
  assumes "(run_step su ^^ n) c c'" and "conf_ok su c"
  shows "conf_ok su c' \<and> run_rank su c' + n \<le> run_rank su c"
  using assms
proof (induction n arbitrary: c')
  case (Suc n)
  then obtain d where d: "(run_step su ^^ n) c d" "run_step su d c'" by auto
  from Suc.IH [OF d(1) Suc.prems(2)] run_step_rank [OF d(2)] show ?case by auto
qed simp

lemma run_start_ok: "conf_ok su (run_start su w)" "run_rank su (run_start su w) \<le> layers_rank (rs_layers su)"
  by (simp_all add: run_start_def split: option.split)

lemma reachable_rank:
  assumes "(run_step su)\<^sup>*\<^sup>* (run_start su w) c"
  shows "conf_ok su c" "run_rank su c \<le> layers_rank (rs_layers su)"
proof -
  obtain n where "(run_step su ^^ n) (run_start su w) c" using assms by (auto dest: rtranclp_imp_relpowp)
  from run_steps_rank [OF this run_start_ok(1)] run_start_ok(2) [of su w] show "conf_ok su c" "run_rank su c \<le> layers_rank (rs_layers su)"
    by auto
qed

text \<open>A configuration that is not the end can go on, and no task has to panic for it.\<close>

definition calm_step ::
    "('u, 's, 'e, 'a, 'b, 'o, 'w, 'm, 'tx, 'sig) run_setup \<Rightarrow> ('u, 's, 'e, 'a, 'b, 'o, 'w, 'tx, 'sig) run_conf \<Rightarrow> bool" where
  "calm_step su c \<longleftrightarrow>
     (case c of
        RunOver r \<Rightarrow> True
      | NextLayer li layers w t \<Rightarrow> \<exists>c'. run_step su c c'
      | InLayer li plans layers t s \<Rightarrow>
          ended s \<or> (\<exists>j wk permits w'. j < length (ls_workers s)
            \<and> worker_step (rs_deps su) (cfg_of su plans) (layer_plans (rs_deps su) plans ! j) (ls_workers s ! j) (ls_permits s) (ls_world s)
                = Some (wk, permits, w')))"

lemma next_layer_steps: "\<exists>c'. run_step su (NextLayer li layers w t) c'"
proof (cases layers)
  case (Cons layer rest)
  then show ?thesis by (cases "plan_layer su layer") (auto intro: run_step.intros split: sum.splits, metis run_step.enter run_step.plan_fails sum.exhaust)
qed (auto intro: run_step.finish)

lemma conf_calm: "conf_ok su c \<Longrightarrow> calm_step su c"
proof (cases c)
  case (InLayer li plans layers t s)
  assume "conf_ok su c"
  then have inv: "layer_inv (cfg_of su plans) (layer_plans (rs_deps su) plans) s" using InLayer by simp
  show ?thesis
  proof (cases "ended s")
    case False
    then obtain i where "i < length (ls_workers s)" "alive (ls_workers s ! i)" by (auto simp: ended_def list_all_length)
    from layer_progress [OF inv sanitised_bounds(1) this] show ?thesis unfolding calm_step_def InLayer by simp blast
  qed (simp add: calm_step_def InLayer)
qed (simp_all add: calm_step_def next_layer_steps)

lemma calm_step_steps: "calm_step su c \<Longrightarrow> (\<exists>r. c = RunOver r) \<or> (\<exists>c'. run_step su c c')"
  by (cases c) (auto simp: calm_step_def dest: layer_step.advance intro: run_step.leave run_step.work)

lemma run_reaches_end: "conf_ok su c \<Longrightarrow> \<exists>r. (run_step su)\<^sup>*\<^sup>* c (RunOver r)"
proof (induction "run_rank su c" arbitrary: c rule: less_induct)
  case less
  from calm_step_steps [OF conf_calm [OF less.prems]] show ?case
  proof (elim disjE exE)
    fix c' assume step: "run_step su c c'"
    from less.hyps [of c'] run_step_rank [OF step less.prems] obtain r where "(run_step su)\<^sup>*\<^sup>* c' (RunOver r)" by blast
    with step show ?thesis by (meson converse_rtranclp_into_rtranclp)
  qed blast
qed

section \<open>The outcome of a run\<close>

text \<open>
  Why a run ended: after the last layer, with a summary for each layer that counts every result once, or because the planner
  failed on a layer, or because there is no ER.
\<close>

definition outcome_ok ::
    "('u, 's, 'e, 'a, 'b, 'o, 'w, 'm, 'tx, 'sig) run_setup
      \<Rightarrow> (('u, 'sig) run_totals \<times> ('s, 'e, 'a, 'b, 'o, 'w, 'tx) layer_world, ('s, 'e, 'a, 'b, 'o, 'w, 'tx) layer_world) run_outcome \<Rightarrow> bool" where
  "outcome_ok su r \<longleftrightarrow>
     (case r of
        RunDone (t, w) \<Rightarrow> map ly_index (rt_summaries t) = [0..<length (rs_layers su)]
          \<and> list_all (\<lambda>sm. ly_success sm + ly_failure sm = ly_chunks sm) (rt_summaries t)
      | RunChunkError e w \<Rightarrow> \<exists>layer\<in>set (rs_layers su). plan_layer su layer = Some (Inl e)
      | RunPanicked w \<Rightarrow> \<exists>layer\<in>set (rs_layers su). plan_layer su layer = None
      | RunWithoutEr \<Rightarrow> ld_er (rs_deps su) = None)"

text \<open>Layer \<open>j\<close> of a run that was done: its plans, the state in which its tasks had ended, and its summary.\<close>

definition layer_done ::
    "('u, 's, 'e, 'a, 'b, 'o, 'w, 'm, 'tx, 'sig) run_setup \<Rightarrow> node_id list \<Rightarrow> nat \<Rightarrow> layer_summary \<Rightarrow> bool" where
  "layer_done su layer j sm \<longleftrightarrow>
     (\<exists>plans w s. plan_layer su layer = Some (Inr plans)
        \<and> layer_reaches (rs_deps su) (layer_config (rs_parallel_cfg su) plans) plans (begin_layer w) s \<and> ended s
        \<and> summary_ok j (layer_chunks (rs_deps su) plans s) sm)"

lemma run_layers_done:
  assumes "run_layers su li layers w t r" and "r = RunDone (t', w')"
  shows "\<exists>sms. rt_summaries t' = rt_summaries t @ sms \<and> length sms = length layers
    \<and> (\<forall>j<length layers. layer_done su (layers ! j) (li + j) (sms ! j))"
  using assms
proof (induction rule: run_layers.induct)
  case (layer_sent layer plans w s li layers t r)
  obtain sm where sm: "rt_summaries (note_layer (ld_safety (rs_deps su)) li (layer_chunks (rs_deps su) plans s) t) = rt_summaries t @ [sm]"
    "summary_ok li (layer_chunks (rs_deps su) plans s) sm"
    using note_layer_summary by blast
  have "layer_done su layer li sm" using layer_sent(1-3) sm(2) by (auto simp: layer_done_def)
  moreover obtain sms where "rt_summaries t' = rt_summaries t @ [sm] @ sms" "length sms = length layers"
    "\<forall>j<length layers. layer_done su (layers ! j) (Suc li + j) (sms ! j)"
    using layer_sent(5) [OF layer_sent(6)] sm(1) by auto
  ultimately show ?case by (intro exI [of _ "sm # sms"]) (auto simp: nth_Cons' less_Suc_eq_0_disj)
qed auto

lemma layer_done_counts: "layer_done su layer j sm \<Longrightarrow> ly_index sm = j \<and> ly_success sm + ly_failure sm = ly_chunks sm"
  by (auto simp: layer_done_def summary_ok_def)

lemma run_layers_outcome:
  assumes "run_layers su li layers w t r"
  shows "case r of
      RunDone (t, w) \<Rightarrow> True
    | RunChunkError e w \<Rightarrow> \<exists>layer\<in>set layers. plan_layer su layer = Some (Inl e)
    | RunPanicked w \<Rightarrow> \<exists>layer\<in>set layers. plan_layer su layer = None
    | RunWithoutEr \<Rightarrow> False"
  using assms by (induction rule: run_layers.induct) (auto split: run_outcome.splits)

lemma run_done_layers:
  assumes "run_er_once su w (RunDone (t, w'))"
  shows "length (rt_summaries t) = length (rs_layers su)"
    and "j < length (rs_layers su) \<Longrightarrow> layer_done su (rs_layers su ! j) j (rt_summaries t ! j)"
proof -
  have "run_layers su 0 (rs_layers su) w totals_zero (RunDone (t, w'))" using assms by (auto simp: run_er_once_def split: option.splits)
  from run_layers_done [OF this refl]
  show "length (rt_summaries t) = length (rs_layers su)"
    and "j < length (rs_layers su) \<Longrightarrow> layer_done su (rs_layers su ! j) j (rt_summaries t ! j)"
    by (auto simp: totals_zero_def)
qed

lemma run_outcome_ok: "run_er_once su w r \<Longrightarrow> outcome_ok su r"
proof (cases "\<exists>t w'. r = RunDone (t, w')")
  case True
  assume run: "run_er_once su w r"
  from True obtain t w' where r: "r = RunDone (t, w')" by blast
  note layers = run_done_layers [OF run [unfolded r]]
  have "map ly_index (rt_summaries t) = [0..<length (rs_layers su)]"
    using layers(1) layer_done_counts [OF layers(2)] by (intro nth_equalityI) simp_all
  moreover have "list_all (\<lambda>sm. ly_success sm + ly_failure sm = ly_chunks sm) (rt_summaries t)"
    using layers(1) layer_done_counts [OF layers(2)] by (simp add: list_all_length)
  ultimately show ?thesis by (simp add: outcome_ok_def r)
next
  case False
  assume "run_er_once su w r"
  then show ?thesis
    using False run_layers_outcome [of su 0 "rs_layers su" w totals_zero r]
    by (auto simp: run_er_once_def outcome_ok_def split: option.splits run_outcome.splits)
qed

text \<open>Every chunk of a layer that has ended was attempted, or its task panicked.\<close>

lemma layer_attempted:
  assumes "layer_reaches deps cfg plans w s" and "ended s"
  shows "list_all (\<lambda>r. 1 \<le> cr_attempts r \<or> cr_outcome r = WorkerPanicked) (layer_chunks deps plans s)"
proof -
  let ?ps = "layer_plans deps plans"
  have inv: "layer_inv (sanitised cfg) ?ps s" using assms(1) by (rule layer_reaches_inv)
  have "1 \<le> cr_attempts (joined (idx, worker_result wk)) \<or> cr_outcome (joined (idx, worker_result wk)) = WorkerPanicked"
    if "worker_ok (sanitised cfg) plan wk" "\<not> alive wk" for idx plan wk
    using that by (cases wk) (auto simp: joined_def panicked_result_def result_ok_def)
  moreover have "length (ls_workers s) = length ?ps" "\<forall>i<length ?ps. worker_ok (sanitised cfg) (?ps ! i) (ls_workers s ! i)"
    using inv by (simp_all add: layer_inv_def)
  moreover have "\<forall>i<length (ls_workers s). \<not> alive (ls_workers s ! i)" using assms(2) by (simp add: ended_def list_all_length)
  ultimately show ?thesis
    unfolding layer_chunks_def collect_results_joined list_all_iff by (fastforce simp: in_set_zip)
qed

lemma layering_edge:
  assumes "layering E n ls" and "(u, v) \<in> E" and "v < n"
  shows "\<exists>i j. i < j \<and> j < length ls \<and> u \<in> set (ls ! i) \<and> v \<in> set (ls ! j)"
proof -
  have "v \<in> set (concat ls)" using assms(1,3) by (auto simp: layering_def)
  then obtain l where "l \<in> set ls" "v \<in> set l" by auto
  then obtain j where j: "j < length ls" "v \<in> set (ls ! j)" by (metis in_set_conv_nth)
  have "{u. (u, v) \<in> E} \<subseteq> set (concat (take j ls))" using assms(1) j unfolding layering_def layers_closed_def by blast
  with assms(2) have "u \<in> set (concat (take j ls))" by blast
  then obtain i where "i < j" "in_layer ls i u" using in_layer_take by blast
  with j show ?thesis by (auto simp: in_layer_def)
qed

section \<open>Properties\<close>

text \<open>
  C3: Every run of the rollup ends. From every reachable configuration, however the tasks of the layers interleave, fail, retry and
  panic, at most 32 steps for each intent, two for each layer and one more are left; while it is not over it can go on, and
  no task has to panic for that; so it reaches an end. It ends after the last layer, with a summary for each layer in
  order that counts every result once, or because the planner fails on a layer (an error or a panic), or at once because the
  ER is off; and these ends are the outcomes of \<open>run_er_once\<close>.
\<close>

theorem run_ends:
  assumes "(run_step su)\<^sup>*\<^sup>* (run_start su w) c"
  shows "(\<forall>n c'. (run_step su ^^ n) c c' \<longrightarrow> n \<le> 32 * length (concat (rs_layers su)) + 2 * length (rs_layers su) + 1)
    \<and> calm_step su c \<and> (\<exists>r. (run_step su)\<^sup>*\<^sup>* c (RunOver r))
    \<and> (case c of RunOver r \<Rightarrow> run_er_once su w r \<and> outcome_ok su r | _ \<Rightarrow> True)"
proof (intro conjI allI impI)
  note ok = reachable_rank [OF assms]
  show "n \<le> 32 * length (concat (rs_layers su)) + 2 * length (rs_layers su) + 1" if "(run_step su ^^ n) c c'" for n c'
    using run_steps_rank [OF that ok(1)] ok(2) by (simp add: layers_rank_def)
  show "calm_step su c" using ok(1) by (rule conf_calm)
  show "\<exists>r. (run_step su)\<^sup>*\<^sup>* c (RunOver r)" using ok(1) by (rule run_reaches_end)
  show "case c of RunOver r \<Rightarrow> run_er_once su w r \<and> outcome_ok su r | _ \<Rightarrow> True"
    using assms run_iff [of su w] run_outcome_ok [of su w] by (auto split: run_conf.split)
qed

theorem run_ends_witness:
  "\<exists>t w'. (run_step (demo_setup demo_deps))\<^sup>*\<^sup>* (run_start (demo_setup demo_deps) demo_world) (RunOver (RunDone (t, w')))
     \<and> map ly_index (rt_summaries t) = [0, 1]
     \<and> \<not> (\<exists>c. (run_step (demo_setup demo_deps) ^^ 70) (run_start (demo_setup demo_deps) demo_world) c)"
proof -
  have "ld_er demo_deps \<noteq> None" by (simp add: demo_deps_def)
  then obtain t w' where "run_er_once (demo_setup demo_deps) demo_world (RunDone (t, w'))" using demo_setup_done by blast
  then have steps: "(run_step (demo_setup demo_deps))\<^sup>*\<^sup>* (run_start (demo_setup demo_deps) demo_world) (RunOver (RunDone (t, w')))"
    unfolding run_iff .
  have "\<not> (\<exists>c. (run_step (demo_setup demo_deps) ^^ 70) (run_start (demo_setup demo_deps) demo_world) c)"
    using run_ends [of "demo_setup demo_deps" demo_world "run_start (demo_setup demo_deps) demo_world"] by fastforce
  moreover have "map ly_index (rt_summaries t) = [0, 1]"
    using run_ends [OF steps] by (simp add: outcome_ok_def upt_rec)
  ultimately show ?thesis using steps by (intro exI conjI)
qed

text \<open>
  C37: A layer that fails does not stop a run. In every run that is done, each intent \<open>v\<close> that the DAG orders after an intent \<open>u\<close>
  belongs to a later layer, and whatever the summary of the layer of \<open>u\<close> says, that layer of \<open>v\<close> was run to its end: \<open>v\<close>
  is in one of its plans, and each of its chunks was attempted (or its task panicked). If it reports no failure and the run
  is not dry, a transaction with \<open>v\<close> was sent, also when every chunk of the layer of \<open>u\<close> failed.
\<close>

theorem failed_layer_does_not_stop_run:
  assumes dag: "rs_dag su = dag_build order intents" "dag_layers (rs_dag su) = Some (Inr (rs_layers su))"
    and run: "run_er_once su w (RunDone (t, w'))" and client: "client_contract (rs_deps su)"
    and "(u, v) \<in> dag_edge_set (rs_dag su)"
  shows "\<exists>i j plans w0 s. i < j \<and> j < length (rs_layers su) \<and> u \<in> set (rs_layers su ! i) \<and> v \<in> set (rs_layers su ! j)
    \<and> plan_layer su (rs_layers su ! j) = Some (Inr plans)
    \<and> dag_nodes (rs_dag su) ! v \<in> set (concat (map cp_intents plans))
    \<and> layer_reaches (rs_deps su) (layer_config (rs_parallel_cfg su) plans) plans (begin_layer w0) s \<and> ended s
    \<and> list_all (\<lambda>r. 1 \<le> cr_attempts r \<or> cr_outcome r = WorkerPanicked) (layer_chunks (rs_deps su) plans s)
    \<and> summary_ok j (layer_chunks (rs_deps su) plans s) (rt_summaries t ! j)
    \<and> (ly_failure (rt_summaries t ! j) = 0 \<and> \<not> lc_dry_run (rs_parallel_cfg su) \<longrightarrow>
         (\<exists>nids tx. v \<in> set nids \<and> EvSend tx \<in> set (ss_log (lw_sender w')) \<and> carries_nodes su nids tx))"
proof -
  have L: "layering (dag_edge_set (rs_dag su)) (length intents) (rs_layers su)"
    using dag by (simp add: dag_layers_build dag_build_edge_set)
  have "v < length intents" using assms(5) dag(1) by (auto simp: dag_build_edge_set intent_edges_def account_edges_def)
  from layering_edge [OF L assms(5) this] obtain i j where ij: "i < j" "j < length (rs_layers su)"
    "u \<in> set (rs_layers su ! i)" "v \<in> set (rs_layers su ! j)" by blast
  from run_done_layers(2) [OF run ij(2)] obtain plans w0 s where
    fin: "plan_layer su (rs_layers su ! j) = Some (Inr plans)"
      "layer_reaches (rs_deps su) (layer_config (rs_parallel_cfg su) plans) plans (begin_layer w0) s" "ended s"
      "summary_ok j (layer_chunks (rs_deps su) plans s) (rt_summaries t ! j)"
    by (auto simp: layer_done_def)
  have sent: "\<exists>nids tx. v \<in> set nids \<and> EvSend tx \<in> set (ss_log (lw_sender w')) \<and> carries_nodes su nids tx"
    if nofail: "ly_failure (rt_summaries t ! j) = 0" and wet: "\<not> lc_dry_run (rs_parallel_cfg su)"
  proof -
    from run_er_once_record [OF run client] obtain logs where
      logs: "ss_log (lw_sender w') = ss_log (lw_sender w) @ concat logs" "run_record su 0 (rs_layers su) (rt_summaries t) logs" by blast
    then have len: "length logs = length (rs_layers su)" and "layer_sends su (rs_layers su ! j) True (logs ! j)"
      using ij(2) nofail by (auto simp: run_record_def)
    then obtain pieces where pieces: "concat pieces = rs_layers su ! j" "\<forall>nids\<in>set pieces. \<exists>tx\<in>sent_in (logs ! j). carries_nodes su nids tx"
      using wet by (auto simp: layer_sends_def)
    have "v \<in> set (concat pieces)" using ij(4) pieces(1) by simp
    then obtain nids where "nids \<in> set pieces" "v \<in> set nids" by auto
    with pieces(2) obtain tx where "tx \<in> sent_in (logs ! j)" "carries_nodes su nids tx" by blast
    moreover have "logs ! j \<in> set logs" using len ij(2) by simp
    ultimately show ?thesis using logs(1) \<open>v \<in> set nids\<close> by (intro exI [of _ nids] exI [of _ tx]) auto
  qed
  have "dag_nodes (rs_dag su) ! v \<in> set (concat (map cp_intents plans))"
    unfolding plan_layer_intents [OF fin(1)] using ij(4) by simp
  moreover have "ly_failure (rt_summaries t ! j) = 0 \<and> \<not> lc_dry_run (rs_parallel_cfg su) \<longrightarrow>
      (\<exists>nids tx. v \<in> set nids \<and> EvSend tx \<in> set (ss_log (lw_sender w')) \<and> carries_nodes su nids tx)"
    using sent by blast
  ultimately show ?thesis using ij fin layer_attempted [OF fin(2,3)] by (intro exI conjI)
qed

text \<open>In this run the provider has no lease for the first intent: its layer only fails, and the intent that depends on it is sent.\<close>

theorem failed_layer_does_not_stop_run_witness:
  "\<exists>t w' nids tx. run_er_once (demo_setup unlucky_deps) demo_world (RunDone (t, w'))
     \<and> (0, 1) \<in> dag_edge_set (rs_dag (demo_setup unlucky_deps))
     \<and> map ly_failure (rt_summaries t) = [1, 0] \<and> map ly_success (rt_summaries t) = [0, 1]
     \<and> EvSend tx \<in> set (ss_log (lw_sender w')) \<and> 1 \<in> set nids \<and> carries_nodes (demo_setup unlucky_deps) nids tx"
proof -
  let ?su = "demo_setup unlucky_deps"
  obtain t w0 s1 where run: "run_er_once ?su demo_world (RunDone (t, ls_world s1))"
    and sums: "map ly_failure (rt_summaries t) = [1, 0]" "map ly_success (rt_summaries t) = [0, 1]"
    and "layer_reaches unlucky_deps (layer_config (demo_layer_config False) [pair_plan 1]) [pair_plan 1] (begin_layer w0) s1"
    using unlucky_run by (elim exE conjE) (rule that)
  have edge: "(0, 1) \<in> dag_edge_set (rs_dag ?su)" by (simp only: demo_setup_fields) code_simp
  have layers: "dag_layers (rs_dag ?su) = Some (Inr (rs_layers ?su))" by (simp add: pair_layers)
  have client: "client_contract (rs_deps ?su)" by (simp add: unlucky_contract)
  obtain j plans where j: "j < length (rs_layers ?su)" "0 < j"
    "ly_failure (rt_summaries t ! j) = 0 \<and> \<not> lc_dry_run (rs_parallel_cfg ?su) \<longrightarrow>
       (\<exists>nids tx. 1 \<in> set nids \<and> EvSend tx \<in> set (ss_log (lw_sender (ls_world s1))) \<and> carries_nodes ?su nids tx)"
    using failed_layer_does_not_stop_run [OF demo_setup_fields(3) layers run client edge] by (elim exE conjE) (rule that, auto)
  have "j = 1" using j(1,2) by simp
  moreover have "ly_failure (rt_summaries t ! 1) = 0" using arg_cong [OF sums(1), of "\<lambda>xs. xs ! 1"] arg_cong [OF sums(1), of length] by simp
  moreover have "\<not> lc_dry_run (rs_parallel_cfg ?su)" by (simp add: demo_layer_config_def)
  ultimately obtain nids tx where "1 \<in> set nids" "EvSend tx \<in> set (ss_log (lw_sender (ls_world s1)))" "carries_nodes ?su nids tx"
    using j(3) by auto
  with run sums edge show ?thesis by (intro exI conjI)
qed

end
