(* ===== verification/Provider.thy ===== *)
theory Provider
  imports LayerSends
begin

text \<open>
  The blockhash providers as the drivers use them: a call of \<open>lease\<close> of the manager that runs to its end, the router's
  \<open>getBlockhashForAccounts\<close> of bundler/src/er/bhfa.rs, and the router-aware provider of
  bundler/src/pipeline/blockhash.rs. The locale \<open>lease_provider\<close> is what a client may rely on; both providers
  satisfy it. The HTTP client is the one of the theory Router; a request that is sent is logged.
\<close>

section \<open>The router's blockhash\<close>

record 'u bhfa_config =
  bf_router_url :: 'u
  bf_router_api_key :: "string option"

definition bhfa_config_new :: "'u \<Rightarrow> string option \<Rightarrow> 'u bhfa_config" where
  "bhfa_config_new router_url router_api_key = \<lparr>bf_router_url = router_url, bf_router_api_key = router_api_key\<rparr>"

definition api_key :: "'u bhfa_config \<Rightarrow> string option" where
  "api_key self = bf_router_api_key self"

datatype bhfa_error =
    ClientNotBuilt | RequestNotSent | ResponseNotDecoded | NoResultField | MissingBlockhash
  | MissingLastValidBlockHeight | InvalidBlockhash

record ('u, 'j, 'w) bhfa_env =
  be_net :: "('u, 'j, 'w, string) net_env"
  be_client_builds :: bool
  be_header_value :: "string \<Rightarrow> string option"
  be_hash_from_str :: "string \<Rightarrow> hash32 option"

text \<open>Reading the answer: the status is not looked at.\<close>

definition bhfa_result :: "('u, 'j, 'w) bhfa_env \<Rightarrow> http_answer \<Rightarrow> bhfa_error + (hash32 \<times> u64)" where
  "bhfa_result env answer =
     (let web = ne_web (be_net env)
      in case answer of
           HttpFailed e \<Rightarrow> Inl RequestNotSent
         | HttpResponse status retry_after body \<Rightarrow>
             (case (case body of Inl e \<Rightarrow> None | Inr bytes \<Rightarrow> wa_from_slice web bytes) of
                None \<Rightarrow> Inl ResponseNotDecoded
              | Some payload \<Rightarrow>
                  (case wa_get web payload ''result'' of
                     None \<Rightarrow> Inl NoResultField
                   | Some r \<Rightarrow>
                       (case Option.bind (wa_get web r ''blockhash'') (wa_as_str web) of
                          None \<Rightarrow> Inl MissingBlockhash
                        | Some blockhash_str \<Rightarrow>
                            (case Option.bind (wa_get web r ''lastValidBlockHeight'') (wa_as_u64 web) of
                               None \<Rightarrow> Inl MissingLastValidBlockHeight
                             | Some lvh \<Rightarrow>
                                 (case be_hash_from_str env blockhash_str of
                                    None \<Rightarrow> Inl InvalidBlockhash
                                  | Some hash \<Rightarrow> Inr (hash, lvh)))))))"

definition get_blockhash_for_accounts ::
    "('u, 'j, 'w) bhfa_env \<Rightarrow> 'u bhfa_config \<Rightarrow> pubkey list \<Rightarrow> 'w \<times> ('u, string) http_request list
      \<Rightarrow> (bhfa_error + (hash32 \<times> u64)) \<times> 'w \<times> ('u, string) http_request list" where
  "get_blockhash_for_accounts env cfg accounts s =
     (if \<not> be_client_builds env then (Inl ClientNotBuilt, s)
      else case (case api_key cfg of
                   Some key \<Rightarrow> (if key = [] then Some None else map_option Some (be_header_value env key))
                 | None \<Rightarrow> Some None) of
             None \<Rightarrow> (Inl RequestNotSent, s)
           | Some header \<Rightarrow>
               (let req = \<lparr>hr_url = bf_router_url cfg, hr_id = 1, hr_call = GetBlockhashForAccounts accounts,
                          hr_api_key = header\<rparr>
                in case ne_http (be_net env) req (fst s) of
                     (answer, w) \<Rightarrow> (bhfa_result env answer, w, snd s @ [req])))"

section \<open>The providers\<close>

text \<open>
  A manager and what it talks to. \<open>feed\<close> supplies the clock and the RPC answers for the sections of one call; twelve are
  always enough for a call that runs alone.
\<close>

record 'w managed =
  md_manager :: blockhash_manager
  md_world :: 'w

definition manager_lease ::
    "('w \<Rightarrow> rpc_input list \<times> 'w) \<Rightarrow> 'w managed \<Rightarrow> (string + blockhash_lease) \<times> 'w managed" where
  "manager_lease feed p =
     (case feed (md_world p) of
        (inputs, w) \<Rightarrow>
          (case lease_run inputs AtHead (md_manager p) of
             (pc, m) \<Rightarrow>
               (case pc of Leased l \<Rightarrow> Inr l | LeaseFailed e \<Rightarrow> Inl e | _ \<Rightarrow> Inl ''no more answers'',
                \<lparr>md_manager = m, md_world = w\<rparr>)))"

text \<open>The manager takes the default of the trait, which ignores the intents; outcomes ignore the lease.\<close>

definition manager_lease_for_intents ::
    "('w \<Rightarrow> rpc_input list \<times> 'w) \<Rightarrow> user_intent list \<Rightarrow> 'w managed \<Rightarrow> (string + blockhash_lease) \<times> 'w managed" where
  "manager_lease_for_intents feed intents p = manager_lease feed p"

definition manager_record_outcome :: "blockhash_lease \<Rightarrow> lease_outcome \<Rightarrow> 'w managed \<Rightarrow> 'w managed" where
  "manager_record_outcome lease outcome p = p\<lparr>md_manager := record_outcome outcome (md_manager p)\<rparr>"

definition manager_mark_layer_boundary :: "'w managed \<Rightarrow> 'w managed" where
  "manager_mark_layer_boundary p = p\<lparr>md_manager := mark_layer_boundary (md_manager p)\<rparr>"

record ('u, 'w, 'v) er_aware =
  ea_inner :: "'w managed"
  ea_net :: 'v
  ea_requests :: "('u, string) http_request list"

record ('u, 'j, 'w, 'v) er_aware_env =
  ev_feed :: "'w \<Rightarrow> rpc_input list \<times> 'w"
  ev_bhfa :: "('u, 'j, 'v) bhfa_env"
  ev_now :: "'v \<Rightarrow> nat"
  ev_cfg :: "'u bhfa_config"
  ev_payer :: pubkey

definition er_aware_lease ::
    "('u, 'j, 'w, 'v) er_aware_env \<Rightarrow> ('u, 'w, 'v) er_aware \<Rightarrow> (string + blockhash_lease) \<times> ('u, 'w, 'v) er_aware" where
  "er_aware_lease env p = (case manager_lease (ev_feed env) (ea_inner p) of (r, m) \<Rightarrow> (r, p\<lparr>ea_inner := m\<rparr>))"

definition er_aware_lease_for_intents ::
    "('u, 'j, 'w, 'v) er_aware_env \<Rightarrow> user_intent list \<Rightarrow> ('u, 'w, 'v) er_aware
      \<Rightarrow> (string + blockhash_lease) \<times> ('u, 'w, 'v) er_aware" where
  "er_aware_lease_for_intents env intents p =
     (let accounts = collect_writables_or_payer intents (ev_payer env)
      in case get_blockhash_for_accounts (ev_bhfa env) (ev_cfg env) accounts (ea_net p, ea_requests p) of
           (answer, v, reqs) \<Rightarrow>
             (let p = p\<lparr>ea_net := v, ea_requests := reqs\<rparr>
              in case answer of
                   Inr (hash, last_valid_block_height) \<Rightarrow>
                     (Inr \<lparr>bl_hash = hash, bl_last_valid_block_height = last_valid_block_height, bl_fetched_at = ev_now env v,
                           bl_refresh_reason = ManualRefresh\<rparr>, p)
                 | Inl err \<Rightarrow>
                     (case manager_lease_for_intents (ev_feed env) intents (ea_inner p) of
                        (r, m) \<Rightarrow> (r, p\<lparr>ea_inner := m\<rparr>))))"

definition er_aware_record_outcome ::
    "blockhash_lease \<Rightarrow> lease_outcome \<Rightarrow> ('u, 'w, 'v) er_aware \<Rightarrow> ('u, 'w, 'v) er_aware" where
  "er_aware_record_outcome lease outcome p = p\<lparr>ea_inner := manager_record_outcome lease outcome (ea_inner p)\<rparr>"

definition er_aware_mark_layer_boundary :: "('u, 'w, 'v) er_aware \<Rightarrow> ('u, 'w, 'v) er_aware" where
  "er_aware_mark_layer_boundary p = p\<lparr>ea_inner := manager_mark_layer_boundary (ea_inner p)\<rparr>"

section \<open>What a provider promises\<close>

text \<open>
  The contract of a provider: in a state that satisfies \<open>inv\<close> a lease carries a hash that somebody answered (\<open>good\<close>), and
  every operation keeps \<open>inv\<close>.
\<close>

locale lease_provider =
  fixes lease_for :: "user_intent list \<Rightarrow> 'b \<Rightarrow> (string + blockhash_lease) \<times> 'b"
    and outcome :: "blockhash_lease \<Rightarrow> lease_outcome \<Rightarrow> 'b \<Rightarrow> 'b"
    and boundary :: "'b \<Rightarrow> 'b"
    and inv :: "'b \<Rightarrow> bool"
    and good :: "hash32 \<Rightarrow> bool"
  assumes lease_keeps: "inv b \<Longrightarrow> lease_for intents b = (r, b') \<Longrightarrow> inv b'"
    and lease_good: "inv b \<Longrightarrow> lease_for intents b = (Inr lease, b') \<Longrightarrow> good (bl_hash lease)"
    and outcome_keeps: "inv b \<Longrightarrow> inv (outcome lease out b)"
    and boundary_keeps: "inv b \<Longrightarrow> inv (boundary b)"

text \<open>What the outside world supplies: enough good answers for a call, with clock readings that are not too far apart.\<close>

definition feed_ok :: "(hash32 \<Rightarrow> bool) \<Rightarrow> blockhash_policy \<Rightarrow> ('w \<Rightarrow> rpc_input list \<times> 'w) \<Rightarrow> bool" where
  "feed_ok good policy feed \<longleftrightarrow>
     (\<forall>w. length (fst (feed w)) = 12 \<and> (\<forall>inp\<in>set (fst (feed w)). good_answer good inp)
        \<and> (bp_max_age policy > 0 \<longrightarrow>
             (\<forall>inp\<in>set (fst (feed w)). \<forall>inp'\<in>set (fst (feed w)). ri_now inp - ri_now inp' \<le> bp_max_age policy)))"

definition manager_inv :: "(hash32 \<Rightarrow> bool) \<Rightarrow> ('w \<Rightarrow> rpc_input list \<times> 'w) \<Rightarrow> 'w managed \<Rightarrow> bool" where
  "manager_inv good feed p \<longleftrightarrow>
     mgr_ok good (md_manager p) \<and> \<not> bm_refresh_in_flight (md_manager p) \<and> feed_ok good (bm_policy (md_manager p)) feed"

lemma lease_run_ok:
  assumes "lease_run inps pc m = (pc', m')" and "mgr_ok good m" and "pc_ok good pc" and "\<forall>inp\<in>set inps. good_answer good inp"
  shows "mgr_ok good m' \<and> pc_ok good pc'"
  using assms
proof (induction inps arbitrary: pc m)
  case (Cons inp inps)
  obtain q n where step: "task_step inp pc m = (q, n)" by (cases "task_step inp pc m")
  with Cons.prems task_step_ok [OF step] have "mgr_ok good n" "pc_ok good q" by auto
  with Cons step show ?case by simp
qed simp

text \<open>A call of the manager that runs alone fails or returns the lease that is then current.\<close>

lemma manager_lease_cases:
  assumes "manager_inv good feed p" and "manager_lease feed p = (r, p')"
  shows "manager_inv good feed p'
    \<and> (case r of
         Inr lease \<Rightarrow> good (bl_hash lease) \<and> (\<exists>st. bi_current (bm_state (md_manager p')) = Some st \<and> bs_lease st = lease)
       | Inl e \<Rightarrow> lease_run (fst (feed (md_world p))) AtHead (md_manager p) = (LeaseFailed e, md_manager p'))"
proof -
  obtain inputs w where f: "feed (md_world p) = (inputs, w)" by (cases "feed (md_world p)")
  have m: "mgr_ok good (md_manager p)" "\<not> bm_refresh_in_flight (md_manager p)" "feed_ok good (bm_policy (md_manager p)) feed"
    using assms(1) by (simp_all add: manager_inv_def)
  then have inputs: "length inputs = 12" "\<forall>inp\<in>set inputs. good_answer good inp"
    "\<And>inp inp'. inp \<in> set inputs \<Longrightarrow> inp' \<in> set inputs \<Longrightarrow> bp_max_age (bm_policy (md_manager p)) > 0 \<Longrightarrow>
      ri_now inp - ri_now inp' \<le> bp_max_age (bm_policy (md_manager p))"
    using f by (auto simp: feed_ok_def dest!: spec [of _ "md_world p"])
  have "bp_refresh_every (bm_policy (md_manager p)) \<noteq> 0" using m(1) by (simp add: mgr_ok_def)
  from lease_alone_returns [OF inputs(1) m(2) this inputs(3)] obtain pc m' where
    run: "lease_run inputs AtHead (md_manager p) = (pc, m')" "lease_result (md_manager p) inputs pc m'" by blast
  have ok: "mgr_ok good m'" using lease_run_ok [OF run(1) m(1) _ inputs(2)] by simp
  have p': "p' = \<lparr>md_manager = m', md_world = w\<rparr>" and
    r: "r = (case pc of Leased l \<Rightarrow> Inr l | LeaseFailed e \<Rightarrow> Inl e | _ \<Rightarrow> Inl ''no more answers'')"
    using assms(2) f run(1) by (simp_all add: manager_lease_def)
  have "manager_inv good feed p'" using run(2) ok m(3) p' by (simp add: manager_inv_def lease_result_def)
  moreover have "finished pc" using run(2) by (rule lease_result_finished)
  ultimately show ?thesis
    using run ok f r p' by (auto simp: finished_def lease_result_def mgr_ok_def)
qed

interpretation manager: lease_provider "manager_lease_for_intents feed" manager_record_outcome manager_mark_layer_boundary
    "manager_inv good feed" good
  for feed :: "'w \<Rightarrow> rpc_input list \<times> 'w" and good
proof unfold_locales
  fix b b' :: "'w managed" and intents r lease out
  assume inv: "manager_inv good feed b"
  show "manager_lease_for_intents feed intents b = (r, b') \<Longrightarrow> manager_inv good feed b'"
    using manager_lease_cases [OF inv] by (simp add: manager_lease_for_intents_def)
  show "manager_lease_for_intents feed intents b = (Inr lease, b') \<Longrightarrow> good (bl_hash lease)"
    using manager_lease_cases [OF inv, of "Inr lease"] by (simp add: manager_lease_for_intents_def)
  show "manager_inv good feed (manager_record_outcome lease out b)"
    using inv by (simp add: manager_inv_def manager_record_outcome_def record_outcome_def mgr_ok_def)
  show "manager_inv good feed (manager_mark_layer_boundary b)"
    using inv by (simp add: manager_inv_def manager_mark_layer_boundary_def mark_layer_boundary_def mgr_ok_def)
qed

text \<open>For the router-aware provider the hashes that the router answers are good as well.\<close>

definition bhfa_good :: "(hash32 \<Rightarrow> bool) \<Rightarrow> ('u, 'j, 'v) bhfa_env \<Rightarrow> bool" where
  "bhfa_good good env \<longleftrightarrow> (\<forall>answer hash lvh. bhfa_result env answer = Inr (hash, lvh) \<longrightarrow> good hash)"

definition er_aware_inv ::
    "(hash32 \<Rightarrow> bool) \<Rightarrow> ('u, 'j, 'w, 'v) er_aware_env \<Rightarrow> ('u, 'w, 'v) er_aware \<Rightarrow> bool" where
  "er_aware_inv good env p \<longleftrightarrow> manager_inv good (ev_feed env) (ea_inner p) \<and> bhfa_good good (ev_bhfa env)"

lemma get_blockhash_good:
  assumes "bhfa_good good env" and "get_blockhash_for_accounts env cfg accounts s = (Inr (hash, lvh), s')"
  shows "good hash"
  using assms
  by (auto simp: get_blockhash_for_accounts_def bhfa_good_def Let_def split: if_splits option.splits prod.splits)

text \<open>A lease of the router leaves the manager alone; otherwise the manager is asked.\<close>

lemma er_aware_lease_cases:
  assumes "er_aware_lease_for_intents env intents p = (r, p')"
  obtains (router) hash lvh s where
      "get_blockhash_for_accounts (ev_bhfa env) (ev_cfg env) (collect_writables_or_payer intents (ev_payer env)) (ea_net p, ea_requests p)
         = (Inr (hash, lvh), s)"
      "r = Inr \<lparr>bl_hash = hash, bl_last_valid_block_height = lvh, bl_fetched_at = ev_now env (fst s), bl_refresh_reason = ManualRefresh\<rparr>"
      "ea_inner p' = ea_inner p"
  | (inner) err s where
      "get_blockhash_for_accounts (ev_bhfa env) (ev_cfg env) (collect_writables_or_payer intents (ev_payer env)) (ea_net p, ea_requests p)
         = (Inl err, s)"
      "manager_lease (ev_feed env) (ea_inner p) = (r, ea_inner p')"
  using assms
  by (auto simp: er_aware_lease_for_intents_def Let_def manager_lease_for_intents_def split: prod.splits sum.splits)

interpretation er_aware: lease_provider "er_aware_lease_for_intents env" er_aware_record_outcome er_aware_mark_layer_boundary
    "er_aware_inv good env" good
  for env :: "('u, 'j, 'w, 'v) er_aware_env" and good
proof unfold_locales
  fix b b' :: "('u, 'w, 'v) er_aware" and intents r lease out
  assume inv: "er_aware_inv good env b"
  then have inner: "manager_inv good (ev_feed env) (ea_inner b)" by (simp add: er_aware_inv_def)
  show "er_aware_inv good env b'" if "er_aware_lease_for_intents env intents b = (r, b')"
    using that
  proof (cases rule: er_aware_lease_cases)
    case router
    then show ?thesis using inv by (simp add: er_aware_inv_def)
  next
    case inner
    then show ?thesis using inv manager_lease_cases [of good "ev_feed env" "ea_inner b"] by (simp add: er_aware_inv_def)
  qed
  show "good (bl_hash lease)" if "er_aware_lease_for_intents env intents b = (Inr lease, b')"
    using that
  proof (cases rule: er_aware_lease_cases)
    case (router hash lvh s)
    then show ?thesis using inv get_blockhash_good [of good, OF _ router(1)] by (simp add: er_aware_inv_def)
  next
    case inner
    then show ?thesis using inv manager_lease_cases [of good "ev_feed env" "ea_inner b" "Inr lease"] by (simp add: er_aware_inv_def)
  qed
  show "er_aware_inv good env (er_aware_record_outcome lease out b)"
    using inv manager.outcome_keeps [of good "ev_feed env" "ea_inner b"] by (simp add: er_aware_inv_def er_aware_record_outcome_def)
  show "er_aware_inv good env (er_aware_mark_layer_boundary b)"
    using inv manager.boundary_keeps [of good "ev_feed env" "ea_inner b"] by (simp add: er_aware_inv_def er_aware_mark_layer_boundary_def)
qed

end
