(* ===== verification/Probe.thy ===== *)
theory Probe
  imports Er
begin

text \<open>
  The requests that \<open>SharedSetup::build\<close> of bundler/examples/rollup_cli.rs makes to the router before a run:
  \<open>discover_er_endpoint\<close>, \<open>probe_er_router\<close> and \<open>preflight_er_connectivity\<close>. They are logged in their order. The setup of
  Deploy runs them and uses what the last one returns.
\<close>

section \<open>Requests\<close>

datatype probe_call = ProbeGetRoutes | ProbeBlockhash pubkey | ProbeBadMethod | ProbeMalformed

record 'u probe_request =
  pq_url :: 'u
  pq_call :: probe_call
  pq_api_key :: "string option"

text \<open>
  \<open>pe_decode_routes\<close> is serde's reading of \<open>JsonRpcResponse<Vec<GetRoutesResultItem>>\<close>: whether there is an error, and the
  \<open>fqdn\<close> of each item of a result. \<open>pe_try_clone\<close> says whether reqwest clones a request builder that holds an invalid header.
\<close>

record ('u, 'j, 'w) probe_env =
  pe_web :: "('u, 'j) web_api"
  pe_url_text :: "'u \<Rightarrow> string"
  pe_client_builds :: bool
  pe_header_value :: "string \<Rightarrow> string option"
  pe_try_clone :: bool
  pe_http :: "'u probe_request \<Rightarrow> 'w \<Rightarrow> http_answer \<times> 'w"
  pe_decode_routes :: "'j \<Rightarrow> (bool \<times> string list option) option"

datatype probe_error = ProbeClientNotBuilt | ProbeBadUrl | ProbeNotSent | ProbeNotDecoded

definition get_routes_url :: "('u, 'j) web_api \<Rightarrow> 'u \<Rightarrow> 'u option" where
  "get_routes_url web base = wa_join web base ''getRoutes''"

text \<open>The header of a request: a key that is not empty; \<open>None\<close> if it is no header value.\<close>

definition probe_header :: "('u, 'j, 'w, 'z) probe_env_scheme \<Rightarrow> string option \<Rightarrow> string option option" where
  "probe_header env key =
     (case key of
        Some k \<Rightarrow> (if k = [] then Some None else map_option Some (pe_header_value env k))
      | None \<Rightarrow> Some None)"

definition probe_send ::
    "('u, 'j, 'w, 'z) probe_env_scheme \<Rightarrow> 'u \<Rightarrow> probe_call \<Rightarrow> string option option \<Rightarrow> 'w \<times> 'u probe_request list
      \<Rightarrow> http_answer option \<times> 'w \<times> 'u probe_request list" where
  "probe_send env url call header s =
     (case header of
        None \<Rightarrow> (None, s)
      | Some sent_key \<Rightarrow>
          (let req = \<lparr>pq_url = url, pq_call = call, pq_api_key = sent_key\<rparr>
           in case pe_http env req (fst s) of
                (HttpFailed e, w) \<Rightarrow> (Some (HttpFailed e), w, snd s @ [req])
              | (HttpResponse status retry_after body, w) \<Rightarrow> (Some (HttpResponse status retry_after body), w, snd s @ [req])))"

section \<open>\<open>discover_er_endpoint\<close>\<close>

definition first_discovered :: "('u, 'j, 'w, 'z) probe_env_scheme \<Rightarrow> reqwest_error + bytes \<Rightarrow> probe_error + 'u option" where
  "first_discovered env body =
     (case (case body of Inl e \<Rightarrow> None | Inr bytes \<Rightarrow> Option.bind (wa_from_slice (pe_web env) bytes) (pe_decode_routes env)) of
        None \<Rightarrow> Inl ProbeNotDecoded
      | Some (has_error, result) \<Rightarrow>
          (if has_error then Inr None
           else case result of
             Some (fqdn # rest) \<Rightarrow>
               (case wa_parse_url (pe_web env) fqdn of None \<Rightarrow> Inl ProbeBadUrl | Some u \<Rightarrow> Inr (Some u))
           | _ \<Rightarrow> Inr None))"

definition discover_er_endpoint ::
    "('u, 'j, 'w, 'z) probe_env_scheme \<Rightarrow> 'u \<Rightarrow> string option \<Rightarrow> 'w \<times> 'u probe_request list
      \<Rightarrow> (probe_error + 'u option) \<times> 'w \<times> 'u probe_request list" where
  "discover_er_endpoint env router_url key s =
     (if \<not> pe_client_builds env then (Inl ProbeClientNotBuilt, s)
      else case get_routes_url (pe_web env) router_url of
             None \<Rightarrow> (Inl ProbeBadUrl, s)
           | Some routes \<Rightarrow>
               (case probe_send env routes ProbeGetRoutes (probe_header env key) s of
                  (Some (HttpResponse status retry_after body), s) \<Rightarrow> (first_discovered env body, s)
                | (_, s) \<Rightarrow> (Inl ProbeNotSent, s)))"

section \<open>\<open>probe_er_router\<close>\<close>

text \<open>One request after the other until one is not answered; \<open>None\<close> is the panic of \<open>try_clone().unwrap()\<close>.\<close>

fun probe_sequence ::
    "('u, 'j, 'w, 'z) probe_env_scheme \<Rightarrow> 'u \<Rightarrow> string option option \<Rightarrow> probe_call list \<Rightarrow> 'w \<times> 'u probe_request list
      \<Rightarrow> ((probe_error + unit) \<times> 'w \<times> 'u probe_request list) option" where
  "probe_sequence env url header [] s = Some (Inr (), s)"
| "probe_sequence env url header (call # calls) s =
     (if header = None \<and> \<not> pe_try_clone env then None
      else case probe_send env url call header s of
             (Some (HttpResponse status retry_after body), s) \<Rightarrow> probe_sequence env url header calls s
           | (_, s) \<Rightarrow> Some (Inl ProbeNotSent, s))"

definition probe_er_router ::
    "('u, 'j, 'w, 'z) probe_env_scheme \<Rightarrow> 'u \<Rightarrow> string option \<Rightarrow> 'w \<times> 'u probe_request list
      \<Rightarrow> ((probe_error + unit) \<times> 'w \<times> 'u probe_request list) option" where
  "probe_er_router env router_url key s =
     (if \<not> pe_client_builds env then Some (Inl ProbeClientNotBuilt, s)
      else probe_sequence env router_url (probe_header env key) [ProbeGetRoutes, ProbeBadMethod, ProbeMalformed] s)"

section \<open>\<open>preflight_er_connectivity\<close>\<close>

text \<open>The first route in the router's answer to \<open>getRoutes\<close>.\<close>

definition first_route :: "('u, 'j) web_api \<Rightarrow> http_answer \<Rightarrow> 'u option" where
  "first_route web answer =
     (case answer of
        HttpFailed e \<Rightarrow> None
      | HttpResponse status retry_after body \<Rightarrow>
          (let text = (case body of Inr bytes \<Rightarrow> bytes | Inl e \<Rightarrow> [])
           in case Option.bind (Option.bind (wa_from_slice web text) (\<lambda>j. wa_get web j ''result'')) (wa_as_array web) of
                Some (first # rest) \<Rightarrow>
                  Option.bind (Option.bind (wa_get web first ''fqdn'') (wa_as_str web)) (wa_parse_url web)
              | _ \<Rightarrow> None))"

text \<open>The check returns the override, or the first route of the router.\<close>

definition preflight_er_connectivity ::
    "('u, 'j, 'w, 'z) probe_env_scheme \<Rightarrow> 'u er_client_config \<Rightarrow> 'u \<Rightarrow> string option \<Rightarrow> pubkey \<Rightarrow> 'w \<times> 'u probe_request list
      \<Rightarrow> (probe_error + string option) \<times> 'w \<times> 'u probe_request list" where
  "preflight_er_connectivity env cfg router_url key sample_account s =
     (if \<not> pe_client_builds env then (Inl ProbeClientNotBuilt, s)
      else case get_routes_url (pe_web env) router_url of
             None \<Rightarrow> (Inl ProbeBadUrl, s)
           | Some routes_url \<Rightarrow>
               (let header = probe_header env key
                in case probe_send env routes_url ProbeGetRoutes header s of
                     (answer, s) \<Rightarrow>
                       (let route_choice = Option.bind answer (first_route (pe_web env));
                            target_endpoint = (case cf_endpoint_override cfg of Some u \<Rightarrow> Some u | None \<Rightarrow> route_choice)
                        in case probe_send env router_url (ProbeBlockhash sample_account) header s of
                             (_, s) \<Rightarrow> (Inr (map_option (pe_url_text env) target_endpoint), s))))"

text \<open>The three of them in the order of the setup; only the outcome of the last one is used.\<close>

definition setup_probes ::
    "('u, 'j, 'w, 'z) probe_env_scheme \<Rightarrow> 'u er_client_config \<Rightarrow> pubkey \<Rightarrow> 'w \<times> 'u probe_request list
      \<Rightarrow> ((probe_error + string option) \<times> 'w \<times> 'u probe_request list) option" where
  "setup_probes env cfg payer s =
     (let s = (if cf_endpoint_override cfg = None
               then snd (discover_er_endpoint env (cf_router_url cfg) (cf_router_api_key cfg) s) else s)
      in case probe_er_router env (cf_router_url cfg) (cf_router_api_key cfg) s of
           None \<Rightarrow> None
         | Some (_, s) \<Rightarrow> Some (preflight_er_connectivity env cfg (cf_router_url cfg) (cf_router_api_key cfg) payer s))"

section \<open>What is requested\<close>

text \<open>The requests added between two states: at most \<open>n\<close>, all of them satisfying \<open>P\<close>.\<close>

definition requests_added ::
    "nat \<Rightarrow> ('u probe_request \<Rightarrow> bool) \<Rightarrow> 'w \<times> 'u probe_request list \<Rightarrow> 'w \<times> 'u probe_request list \<Rightarrow> bool" where
  "requests_added n P s s' \<longleftrightarrow> (\<exists>new. snd s' = snd s @ new \<and> length new \<le> n \<and> list_all P new)"

lemma requests_added_refl [simp]: "requests_added n P s s"
  by (simp add: requests_added_def)

lemma requests_added_trans:
  "requests_added m P s s1 \<Longrightarrow> requests_added n P s1 s2 \<Longrightarrow> requests_added (m + n) P s s2"
  unfolding requests_added_def by (elim exE) (auto intro!: exI [of _ "_ @ _"])

lemma requests_added_mono: "requests_added m P s s' \<Longrightarrow> m \<le> n \<Longrightarrow> requests_added n P s s'"
  by (auto simp: requests_added_def)

abbreviation to_router :: "('u, 'j, 'w, 'z) probe_env_scheme \<Rightarrow> 'u \<Rightarrow> string option \<Rightarrow> 'u probe_request \<Rightarrow> bool" where
  "to_router env router_url key q \<equiv>
     (pq_url q = router_url \<or> get_routes_url (pe_web env) router_url = Some (pq_url q))
     \<and> probe_header env key = Some (pq_api_key q)"

lemma probe_send_added:
  assumes "probe_send env url call (probe_header env key) s = (answer, s')"
    and "url = router \<or> get_routes_url (pe_web env) router = Some url"
  shows "requests_added 1 (to_router env router key) s s'"
  using assms
  by (auto simp: probe_send_def requests_added_def Let_def split: option.splits prod.splits http_answer.splits)

lemma discover_added:
  "discover_er_endpoint env router key s = (r, s') \<Longrightarrow> requests_added 1 (to_router env router key) s s'"
  by (auto simp: discover_er_endpoint_def split: if_splits option.splits prod.splits http_answer.splits
      dest!: probe_send_added [where router = router])

lemma sequence_added:
  "probe_sequence env router (probe_header env key) calls s = Some (r, s') \<Longrightarrow>
   requests_added (length calls) (to_router env router key) s s'"
proof (induction calls arbitrary: s)
  case (Cons call calls)
  obtain answer s1 where send: "probe_send env router call (probe_header env key) s = (answer, s1)"
    by (cases "probe_send env router call (probe_header env key) s")
  have one: "requests_added 1 (to_router env router key) s s1" using probe_send_added [OF send] by simp
  show ?case
  proof (cases "\<exists>status retry body. answer = Some (HttpResponse status retry body)")
    case True
    then have "probe_sequence env router (probe_header env key) calls s1 = Some (r, s')"
      using Cons.prems send by (auto split: if_splits)
    from requests_added_trans [OF one Cons.IH [OF this]] show ?thesis by simp
  next
    case False
    then have "s' = s1" using Cons.prems send by (auto split: if_splits option.splits http_answer.splits)
    with one show ?thesis by (auto intro: requests_added_mono)
  qed
qed simp

lemma router_added:
  "probe_er_router env router key s = Some (r, s') \<Longrightarrow> requests_added 3 (to_router env router key) s s'"
proof (cases "pe_client_builds env")
  case True
  assume "probe_er_router env router key s = Some (r, s')"
  with True have "probe_sequence env router (probe_header env key) [ProbeGetRoutes, ProbeBadMethod, ProbeMalformed] s = Some (r, s')"
    by (simp only: probe_er_router_def not_True_eq_False if_False)
  from sequence_added [OF this] show ?thesis by (simp add: numeral_3_eq_3)
qed (simp add: probe_er_router_def)

lemma sequence_panics: "probe_sequence env url header calls s = None \<Longrightarrow> header = None \<and> \<not> pe_try_clone env"
  by (induction calls arbitrary: s) (auto split: if_splits option.splits prod.splits http_answer.splits)

lemma preflight_added:
  assumes "preflight_er_connectivity env cfg router key sample s = (r, s')"
  shows "requests_added 2 (to_router env router key) s s'"
proof (cases "pe_client_builds env \<and> get_routes_url (pe_web env) router \<noteq> None")
  case True
  then obtain routes where routes: "pe_client_builds env" "get_routes_url (pe_web env) router = Some routes" by auto
  obtain a1 s1 where send1: "probe_send env routes ProbeGetRoutes (probe_header env key) s = (a1, s1)"
    by (cases "probe_send env routes ProbeGetRoutes (probe_header env key) s")
  obtain a2 s2 where send2: "probe_send env router (ProbeBlockhash sample) (probe_header env key) s1 = (a2, s2)"
    by (cases "probe_send env router (ProbeBlockhash sample) (probe_header env key) s1")
  have "s' = s2" using assms routes send1 send2 by (simp add: preflight_er_connectivity_def Let_def)
  moreover have "requests_added (1 + 1) (to_router env router key) s s2"
    by (rule requests_added_trans [OF probe_send_added [OF send1] probe_send_added [OF send2]]) (use routes in simp_all)
  ultimately show ?thesis by (simp add: numeral_2_eq_2)
qed (use assms in \<open>auto simp: preflight_er_connectivity_def split: if_splits\<close>)

lemma probe_header_None:
  "probe_header env key = None \<longleftrightarrow> (\<exists>k. key = Some k \<and> k \<noteq> [] \<and> pe_header_value env k = None)"
  by (cases key) (simp_all add: probe_header_def)

lemma router_panics:
  "probe_er_router env router key s = None \<longleftrightarrow> pe_client_builds env \<and> probe_header env key = None \<and> \<not> pe_try_clone env"
proof (cases "pe_client_builds env")
  case True
  have "probe_sequence env router (probe_header env key) [ProbeGetRoutes, ProbeBadMethod, ProbeMalformed] s = None
      \<longleftrightarrow> probe_header env key = None \<and> \<not> pe_try_clone env"
  proof
    assume "probe_header env key = None \<and> \<not> pe_try_clone env"
    then show "probe_sequence env router (probe_header env key) [ProbeGetRoutes, ProbeBadMethod, ProbeMalformed] s = None" by simp
  qed (rule sequence_panics)
  then show ?thesis using True by (simp only: probe_er_router_def not_True_eq_False if_False simp_thms)
qed (simp add: probe_er_router_def)

text \<open>The panic: a key that is no header value spoils the request, which then cannot be cloned.\<close>

lemma setup_probes_panics:
  "setup_probes env cfg payer s = None \<longleftrightarrow>
     pe_client_builds env \<and> probe_header env (cf_router_api_key cfg) = None \<and> \<not> pe_try_clone env"
proof -
  have "setup_probes env cfg payer s = None \<longleftrightarrow>
      probe_er_router env (cf_router_url cfg) (cf_router_api_key cfg)
        (if cf_endpoint_override cfg = None
         then snd (discover_er_endpoint env (cf_router_url cfg) (cf_router_api_key cfg) s) else s) = None"
    unfolding setup_probes_def Let_def by (simp only: option.case_eq_if split: prod.split) auto
  then show ?thesis unfolding router_panics .
qed

section \<open>Properties\<close>

text \<open>
  C29: Whatever the router answers, the probes of the setup send at most six requests, all of them to the router's URL or to its
  \<open>getRoutes\<close> URL, and each carries the router key as soon as there is one that is not empty, also in public mode, in
  which the ER client itself sends no key. They end in a result unless the key is no header value and the request cannot be
  cloned, where the setup panics.
\<close>

theorem setup_probes_requests:
  "case setup_probes env cfg payer s of
     None \<Rightarrow> probe_header env (cf_router_api_key cfg) = None \<and> \<not> pe_try_clone env
   | Some (r, s') \<Rightarrow>
       (\<exists>new. snd s' = snd s @ new \<and> length new \<le> 6
         \<and> list_all (\<lambda>q. (pq_url q = cf_router_url cfg \<or> get_routes_url (pe_web env) (cf_router_url cfg) = Some (pq_url q))
              \<and> (case cf_router_api_key cfg of
                   None \<Rightarrow> pq_api_key q = None
                 | Some k \<Rightarrow> pq_api_key q = (if k = [] then None else pe_header_value env k) \<and> (pq_api_key q = None) = (k = []))) new)"
proof (cases "setup_probes env cfg payer s")
  case None
  then obtain header calls s1 where "probe_sequence env (cf_router_url cfg) header calls s1 = None"
      "header = probe_header env (cf_router_api_key cfg)"
    by (auto simp: setup_probes_def probe_er_router_def Let_def simp del: probe_sequence.simps split: option.splits if_splits)
  from sequence_panics [OF this(1)] this(2) None show ?thesis by simp
next
  case (Some p)
  let ?router = "cf_router_url cfg" and ?key = "cf_router_api_key cfg"
  let ?P = "to_router env ?router ?key"
  obtain r s' where p: "p = (r, s')" by (cases p)
  define s1 where "s1 = (if cf_endpoint_override cfg = None then snd (discover_er_endpoint env ?router ?key s) else s)"
  obtain r2 s2 where s2: "probe_er_router env ?router ?key s1 = Some (r2, s2)"
    and s3: "preflight_er_connectivity env cfg ?router ?key payer s2 = (r, s')"
    using Some p by (auto simp: setup_probes_def s1_def Let_def split: option.splits)
  have one: "requests_added 1 ?P s s1"
    unfolding s1_def using discover_added [of env ?router ?key s] by (cases "discover_er_endpoint env ?router ?key s") simp
  have three: "requests_added 3 ?P s1 s2"
    by (rule router_added [OF s2])
  have "requests_added (1 + 3 + 2) ?P s s'"
    by (rule requests_added_trans [OF requests_added_trans [OF one three] preflight_added [OF s3]])
  then obtain new where new: "snd s' = snd s @ new" "length new \<le> 6" "list_all ?P new" by (auto simp: requests_added_def)
  have "(pq_url q = ?router \<or> get_routes_url (pe_web env) ?router = Some (pq_url q))
      \<and> (case ?key of None \<Rightarrow> pq_api_key q = None
         | Some k \<Rightarrow> pq_api_key q = (if k = [] then None else pe_header_value env k) \<and> (pq_api_key q = None) = (k = []))"
    if "?P q" for q using that by (auto simp: probe_header_def split: option.splits if_splits dest: sym)
  with new(3) have "list_all (\<lambda>q. (pq_url q = ?router \<or> get_routes_url (pe_web env) ?router = Some (pq_url q))
      \<and> (case ?key of None \<Rightarrow> pq_api_key q = None
         | Some k \<Rightarrow> pq_api_key q = (if k = [] then None else pe_header_value env k) \<and> (pq_api_key q = None) = (k = []))) new"
    unfolding list_all_iff by blast
  with new(1,2) show ?thesis using Some p by auto
qed

end
