(* ===== verification/Deploy.thy ===== *)
theory Deploy
  imports Driver Provider Fee Alt Probe
begin

text \<open>
  How bundler/examples/rollup_cli.rs sets a run up: the command line, \<open>SharedSetup::build\<close> and what it hands to a run.
  Files, base58 and JSON parsing, system instructions and the network belong to other crates or the outside world; they
  are the fields of \<open>setup_env\<close> and \<open>run_env\<close>. Options that only affect printing, files written or HTTP timeouts are left out.
\<close>

section \<open>The command line\<close>

datatype fee_oracle_cli = BasicCli | RecentCli
datatype cu_scope_cli = GlobalCli | PerLayerCli
datatype er_privacy_cli = PublicCli | PrivateCli
datatype run_mode = ErOnly | BaselineOnly | Compare

fun cu_scope_of :: "cu_scope_cli \<Rightarrow> cu_scope" where
  "cu_scope_of GlobalCli = GlobalScope"
| "cu_scope_of PerLayerCli = PerScope"

fun privacy_of :: "er_privacy_cli \<Rightarrow> er_privacy_mode" where
  "privacy_of PublicCli = PublicMode"
| "privacy_of PrivateCli = PrivateMode"

record main_args =
  ag_rpc :: string
  ag_payer :: string
  ag_intents :: "string option"
  ag_demo_conflicting_to :: "string option"
  ag_demo_count :: u32
  ag_demo_lamports :: u64
  ag_demo_mixed :: bool
  ag_mixed_memos :: u32
  ag_mixed_contended :: u32
  ag_cu_price :: "u64 option"
  ag_max_cu_limit :: "u64 option"
  ag_enable_alt :: bool
  ag_alt_cache_ttl_ms :: u64
  ag_alt_tables :: "string option"
  ag_dry_run :: bool
  ag_compare_baseline :: bool
  ag_cu_scope :: cu_scope_cli
  ag_fee_oracle :: fee_oracle_cli
  ag_fee_pctile :: "rat option"
  ag_fee_alpha :: "rat option"
  ag_fee_hysteresis_bps :: "u64 option"
  ag_min_cu_price :: "u64 option"
  ag_max_cu_price :: "u64 option"
  ag_probe_accounts :: "string option"
  ag_fast_send :: bool
  ag_concurrency :: nat
  ag_blockhash_max_age_ms :: u64
  ag_blockhash_refresh_every_n :: u32
  ag_mode :: run_mode

record args = main_args +
  ag_er_enabled :: bool
  ag_er_endpoint :: "string option"
  ag_er_router :: "string option"
  ag_er_router_key :: "string option"
  ag_er_proxy_rpc :: bool
  ag_er_privacy :: er_privacy_cli
  ag_er_retries :: nat
  ag_er_circuit_failures :: u32
  ag_er_circuit_cooldown_ms :: u64
  ag_er_route_ttl_ms :: u64
  ag_er_blockhash_ttl_ms :: u64
  ag_er_require :: bool
  ag_er_wiretap_verify_bhfa :: bool
  ag_er_skip_preflight_on_router :: bool
  ag_er_skip_preflight_on_override :: bool
  ag_er_min_cu_threshold :: u64
  ag_er_merge_small_intents :: bool

text \<open>What \<open>clap\<close> fills in when only the RPC URL and the key file of the payer are given.\<close>

definition args_default :: "string \<Rightarrow> string \<Rightarrow> args" where
  "args_default rpc payer =
     \<lparr>ag_rpc = rpc, ag_payer = payer, ag_intents = None, ag_demo_conflicting_to = None, ag_demo_count = 20, ag_demo_lamports = 100000,
      ag_demo_mixed = False, ag_mixed_memos = 8, ag_mixed_contended = 6, ag_cu_price = None, ag_max_cu_limit = None,
      ag_enable_alt = True, ag_alt_cache_ttl_ms = 5000, ag_alt_tables = None, ag_dry_run = False,
      ag_compare_baseline = True, ag_cu_scope = GlobalCli, ag_fee_oracle = BasicCli, ag_fee_pctile = None,
      ag_fee_alpha = None, ag_fee_hysteresis_bps = None, ag_min_cu_price = None, ag_max_cu_price = None,
      ag_probe_accounts = None, ag_fast_send = False, ag_concurrency = 6, ag_blockhash_max_age_ms = 8000,
      ag_blockhash_refresh_every_n = 16, ag_mode = Compare, ag_er_enabled = False, ag_er_endpoint = None,
      ag_er_router = None, ag_er_router_key = None, ag_er_proxy_rpc = False, ag_er_privacy = PublicCli,
      ag_er_retries = 4, ag_er_circuit_failures = 3, ag_er_circuit_cooldown_ms = 10000, ag_er_route_ttl_ms = 15000,
      ag_er_blockhash_ttl_ms = 10000, ag_er_require = False, ag_er_wiretap_verify_bhfa = False,
      ag_er_skip_preflight_on_router = True, ag_er_skip_preflight_on_override = False, ag_er_min_cu_threshold = 10000,
      ag_er_merge_small_intents = False\<rparr>"

section \<open>Lists of public keys\<close>

fun split_on :: "char \<Rightarrow> string \<Rightarrow> string list" where
  "split_on c [] = [[]]"
| "split_on c (x # xs) = (if x = c then [] # split_on c xs else (x # hd (split_on c xs)) # tl (split_on c xs))"

text \<open>\<open>str::trim\<close>, on the ASCII white space.\<close>

definition is_space :: "char \<Rightarrow> bool" where
  "is_space c \<longleftrightarrow> (of_char c :: nat) \<in> {9, 10, 11, 12, 13, 32}"

definition trim :: "string \<Rightarrow> string" where
  "trim s = rev (dropWhile is_space (rev (dropWhile is_space s)))"

text \<open>The entries of a comma-separated list; blank ones are dropped, one that does not parse makes the list invalid.\<close>

definition parse_pubkeys :: "(string \<Rightarrow> pubkey option) \<Rightarrow> string \<Rightarrow> pubkey list option" where
  "parse_pubkeys from_str list = those (map from_str (filter (\<lambda>s. s \<noteq> []) (map trim (split_on (CHR '','') list))))"

section \<open>The intents of a run\<close>

datatype setup_error =
    KeypairNotRead string | IntentsNotRead string | MixedNeedsDestination | BadDestination | NoIntentSource | NoIntentsToRun
  | BadRouterUrl | BadEndpointUrl | BadRouterKey | ErClientNotBuilt | BadAltTables | NoTableFetched string | BadProbeAccounts | LayersFailed dag_error

text \<open>The outside world of the setup: that of its probes, whose network starts in \<open>te_probe_start\<close>, and the rest.\<close>

record ('u, 'j, 'q) setup_env = "('u, 'j, 'q) probe_env" +
  te_probe_start :: 'q
  te_er_client_builds :: bool
  te_read_keypair :: "string \<Rightarrow> string + pubkey"
  te_pubkey_from_str :: "string \<Rightarrow> pubkey option"
  te_read_intents :: "string \<Rightarrow> string + user_intent list"
  te_transfer :: "pubkey \<Rightarrow> pubkey \<Rightarrow> u64 \<Rightarrow> instruction"
  te_memo_program :: pubkey
  te_get_account :: account_reader
  te_decode_table :: "bytes \<Rightarrow> string + pubkey list"
  te_alt_program :: pubkey
  te_map_order :: "user_intent list \<Rightarrow> pubkey list"

definition memo_ix :: "pubkey \<Rightarrow> string \<Rightarrow> instruction" where
  "memo_ix memo_pid text = \<lparr>ix_program_id = memo_pid, ix_accounts = [], ix_data = map (\<lambda>c. of_nat (of_char c)) text\<rparr>"

text \<open>\<open>UserIntent::new\<close> has a debug assertion that never fails (\<open>user_intent_new_correct\<close>); \<open>the\<close> reads its result.\<close>

definition new_intent :: "pubkey \<Rightarrow> instruction \<Rightarrow> u8 \<Rightarrow> user_intent" where
  "new_intent actor ix priority = the (user_intent_new actor ix priority None)"

definition mixed_priority :: "nat \<Rightarrow> u8" where
  "mixed_priority i = (if i mod 3 = 0 then 7 else if i mod 3 = 1 then 5 else 3)"

definition mixed_intents :: "('u, 'j, 'q) setup_env \<Rightarrow> args \<Rightarrow> pubkey \<Rightarrow> pubkey \<Rightarrow> user_intent list" where
  "mixed_intents env args payer dest =
     map (\<lambda>i. new_intent payer (memo_ix (te_memo_program env) (''CPSR demo memo #'' @ decimal i)) 9)
       [0..<unat (ag_mixed_memos args)]
     @ map (\<lambda>i. new_intent payer (te_transfer env payer dest (ag_demo_lamports args)) (mixed_priority i))
         [0..<unat (ag_mixed_contended args)]"

definition load_intents :: "('u, 'j, 'q) setup_env \<Rightarrow> args \<Rightarrow> pubkey \<Rightarrow> setup_error + user_intent list" where
  "load_intents env args payer =
     (case ag_intents args of
        Some path \<Rightarrow>
          (case te_read_intents env path of Inl e \<Rightarrow> Inl (IntentsNotRead e) | Inr parsed \<Rightarrow> Inr (map normalized parsed))
      | None \<Rightarrow>
          (if ag_demo_mixed args
           then (case ag_demo_conflicting_to args of
                   None \<Rightarrow> Inl MixedNeedsDestination
                 | Some to_str \<Rightarrow>
                     (case te_pubkey_from_str env to_str of
                        None \<Rightarrow> Inl BadDestination
                      | Some dest \<Rightarrow> Inr (mixed_intents env args payer dest)))
           else (case ag_demo_conflicting_to args of
                   None \<Rightarrow> Inl NoIntentSource
                 | Some to_str \<Rightarrow>
                     (case te_pubkey_from_str env to_str of
                        None \<Rightarrow> Inl BadDestination
                      | Some dest \<Rightarrow>
                          Inr (map (\<lambda>_. new_intent payer (te_transfer env payer dest (ag_demo_lamports args)) 0)
                                [0..<unat (ag_demo_count args)])))))"

section \<open>Budget, client and policies\<close>

definition tx_budget_of :: "args \<Rightarrow> tx_budget" where
  "tx_budget_of args =
     (if ag_er_merge_small_intents args
      then tx_budget_default\<lparr>tb_max_instructions := min (min (tb_max_instructions tx_budget_default * 2) usize_max) 60,
                             tb_max_bytes := min (tb_max_bytes tx_budget_default + 256) usize_max\<rparr>
      else tx_budget_default)"

definition alt_policy_of :: "args \<Rightarrow> alt_policy" where
  "alt_policy_of args = alt_policy_default\<lparr>ap_enabled := ag_enable_alt args\<rparr>"

definition er_config_of :: "('u, 'j, 'q) setup_env \<Rightarrow> args \<Rightarrow> setup_error + 'u er_client_config" where
  "er_config_of env args =
     (let router_str = (case ag_er_router args of Some r \<Rightarrow> r | None \<Rightarrow> ''https://devnet-router.magicblock.app/'')
      in case wa_parse_url (pe_web env) router_str of
           None \<Rightarrow> Inl BadRouterUrl
         | Some router_url \<Rightarrow>
             (case (case ag_er_endpoint args of
                      Some raw \<Rightarrow> map_option Some (wa_parse_url (pe_web env) raw)
                    | None \<Rightarrow> Some None) of
                None \<Rightarrow> Inl BadEndpointUrl
              | Some endpoint_override \<Rightarrow>
                  Inr \<lparr>cf_endpoint_override = endpoint_override, cf_retries = ag_er_retries args,
                       cf_privacy_mode = privacy_of (ag_er_privacy args), cf_router_url = router_url,
                       cf_router_api_key = ag_er_router_key args, cf_route_cache_ttl = unat (ag_er_route_ttl_ms args),
                       cf_circuit_breaker_failures = ag_er_circuit_failures args,
                       cf_circuit_breaker_cooldown = max (unat (ag_er_circuit_cooldown_ms args)) 100,
                       cf_blockhash_cache_ttl = unat (ag_er_blockhash_ttl_ms args),
                       cf_min_cu_threshold = ag_er_min_cu_threshold args,
                       cf_merge_small_intents = ag_er_merge_small_intents args, cf_require_router = ag_er_require args,
                       cf_wiretap_verify_blockhash = ag_er_wiretap_verify_bhfa args,
                       cf_skip_preflight_on_router = ag_er_skip_preflight_on_router args,
                       cf_skip_preflight_on_override = ag_er_skip_preflight_on_override args\<rparr>))"

text \<open>The RPC URL of the run: with \<open>--er-proxy-rpc\<close> the endpoint that the connectivity check found.\<close>

definition rpc_base_url_of :: "args \<Rightarrow> ('u er_client_config \<times> (probe_error + string option)) option \<Rightarrow> string" where
  "rpc_base_url_of args er =
     (case er of
        Some (cfg, Inr (Some route)) \<Rightarrow> (if ag_er_proxy_rpc args then route else ag_rpc args)
      | _ \<Rightarrow> ag_rpc args)"

text \<open>\<open>HttpErClient::new\<close> rejects a key that is no header value, but only in private mode.\<close>

definition router_key_ok :: "('u, 'j, 'q) setup_env \<Rightarrow> 'u er_client_config \<Rightarrow> bool" where
  "router_key_ok env cfg \<longleftrightarrow>
     (cf_privacy_mode cfg = PrivateMode \<longrightarrow>
        (case cf_router_api_key cfg of Some k \<Rightarrow> pe_header_value env k \<noteq> None | None \<Rightarrow> True))"

definition catalog_of :: "('u, 'j, 'q) setup_env \<Rightarrow> args \<Rightarrow> setup_error + table_catalog option" where
  "catalog_of env args =
     (case ag_alt_tables args of
        None \<Rightarrow> Inr None
      | Some list \<Rightarrow>
          (case parse_pubkeys (te_pubkey_from_str env) list of
             None \<Rightarrow> Inl BadAltTables
           | Some table_pks \<Rightarrow>
               (if table_pks = [] then Inr None
                else (case from_rpc (te_get_account env) (te_decode_table env) (te_alt_program env) table_pks of
                        Inl e \<Rightarrow> Inl (NoTableFetched e)
                      | Inr cat \<Rightarrow> Inr (Some cat)))))"

datatype alt_impl = NoAltManager | CachingAltManager alt_manager

definition alt_manager_of :: "args \<Rightarrow> table_catalog option \<Rightarrow> alt_impl" where
  "alt_manager_of args catalog =
     (let builder = alt_manager_new (alt_policy_of args) (unat (ag_alt_cache_ttl_ms args));
          builder = (case catalog of Some cat \<Rightarrow> with_catalog cat builder | None \<Rightarrow> builder)
      in if ag_enable_alt args then CachingAltManager builder else NoAltManager)"

definition blockhash_policy_of :: "args \<Rightarrow> blockhash_policy" where
  "blockhash_policy_of args =
     \<lparr>bp_max_age = clamp 1000 120000 (unat (ag_blockhash_max_age_ms args)),
      bp_refresh_every = max (ag_blockhash_refresh_every_n args) 1\<rparr>"

definition parallel_cfg_of :: "args \<Rightarrow> parallel_layer_config" where
  "parallel_cfg_of args =
     \<lparr>lc_max_concurrency = clamp 1 12 (ag_concurrency args), lc_max_attempts = 3, lc_base_backoff = 200,
      lc_max_backoff = 1500, lc_dry_run = ag_dry_run args\<rparr>"

section \<open>The fee oracle\<close>

text \<open>\<open>Box<dyn FeeOracle>\<close>.\<close>

datatype boxed_oracle = BasicBox basic_fee_oracle | RecentBox recent_world

fun boxed_suggest :: "string + u64 list \<Rightarrow> boxed_oracle \<Rightarrow> (fee_plan \<times> boxed_oracle) option" where
  "boxed_suggest answer (BasicBox o1) = Some (basic_suggest o1, BasicBox o1)"
| "boxed_suggest answer (RecentBox w) = map_option (\<lambda>(plan, w). (plan, RecentBox w)) (recent_suggest answer w)"

fun boxed_clamp :: "boxed_oracle \<Rightarrow> fee_plan \<Rightarrow> fee_plan" where
  "boxed_clamp (BasicBox o1) plan = basic_clamp o1 plan"
| "boxed_clamp (RecentBox w) plan = recent_clamp (fst w) plan"

fun boxed_max_limit :: "boxed_oracle \<Rightarrow> u64" where
  "boxed_max_limit (BasicBox o1) = bo_max_cu_limit o1"
| "boxed_max_limit (RecentBox w) = ro_max_cu_limit (fst w)"

fun boxed_max_price :: "boxed_oracle \<Rightarrow> u64" where
  "boxed_max_price (BasicBox o1) = bo_max_cu_price o1"
| "boxed_max_price (RecentBox w) = ro_max_cu_price (fst w)"

definition unwrap_or :: "'a option \<Rightarrow> 'a \<Rightarrow> 'a" where
  "unwrap_or x d = (case x of Some v \<Rightarrow> v | None \<Rightarrow> d)"

definition or_else :: "'a option \<Rightarrow> 'a option \<Rightarrow> 'a option" where
  "or_else x y = (case x of Some v \<Rightarrow> Some v | None \<Rightarrow> y)"

definition recent_oracle_of :: "args \<Rightarrow> recent_fees_oracle" where
  "recent_oracle_of args =
     (let r = recent_fees_oracle_new
      in r\<lparr>ro_max_cu_limit := unwrap_or (ag_max_cu_limit args) (ro_max_cu_limit r),
           ro_min_cu_price := unwrap_or (or_else (ag_min_cu_price args) (ag_cu_price args)) (ro_min_cu_price r),
           ro_max_cu_price := unwrap_or (ag_max_cu_price args) (ro_max_cu_price r),
           ro_p_primary := unwrap_or (ag_fee_pctile args) (ro_p_primary r),
           ro_ema_alpha := unwrap_or (ag_fee_alpha args) (ro_ema_alpha r),
           ro_hysteresis_bps := unwrap_or (ag_fee_hysteresis_bps args) (ro_hysteresis_bps r)\<rparr>)"

definition fee_oracle_of :: "('u, 'j, 'q) setup_env \<Rightarrow> args \<Rightarrow> setup_error + boxed_oracle" where
  "fee_oracle_of env args =
     (case ag_fee_oracle args of
        BasicCli \<Rightarrow>
          Inr (BasicBox \<lparr>bo_max_cu_limit = unwrap_or (ag_max_cu_limit args) 1400000,
                         bo_min_cu_price = unwrap_or (or_else (ag_min_cu_price args) (ag_cu_price args)) 100,
                         bo_max_cu_price = unwrap_or (ag_max_cu_price args) 5000\<rparr>)
      | RecentCli \<Rightarrow>
          (case parse_pubkeys (te_pubkey_from_str env) (unwrap_or (ag_probe_accounts args) []) of
             None \<Rightarrow> Inl BadProbeAccounts
           | Some probes \<Rightarrow> Inr (RecentBox (recent_oracle_of args, rpc_metrics_zero))))"

section \<open>\<open>SharedSetup::build\<close>\<close>

record 'u shared_setup =
  st_rpc_base_url :: string
  st_payer :: pubkey
  st_tx_budget :: tx_budget
  st_alt_policy :: alt_policy
  st_occ_cfg :: occ_config
  st_safety :: safety_margins
  st_oracle :: boxed_oracle
  st_cu_scope :: cu_scope
  st_fast_send :: bool
  st_alt_mgr :: alt_impl
  st_parallel_cfg_template :: parallel_layer_config
  st_intents :: "user_intent list"
  st_dag :: dag
  st_layers :: "node_id list list"
  st_blockhash_policy :: blockhash_policy
  st_blockhash_pre_check :: bool
  st_er_config :: "'u er_client_config option"

text \<open>
  The client of the ER with what the connectivity check found, after all probes; \<open>None\<close> is the panic of a probe.
\<close>

definition er_setup ::
    "('u, 'j, 'q) setup_env \<Rightarrow> args \<Rightarrow> pubkey
      \<Rightarrow> (setup_error + ('u er_client_config \<times> (probe_error + string option)) option) option" where
  "er_setup env args payer =
     (if \<not> ag_er_enabled args then Some (Inr None)
      else case er_config_of env args of
             Inl e \<Rightarrow> Some (Inl e)
           | Inr cfg \<Rightarrow>
               (case setup_probes env cfg payer (te_probe_start env, []) of
                  None \<Rightarrow> None
                | Some (preflight, s) \<Rightarrow>
                    Some (if \<not> te_er_client_builds env then Inl ErClientNotBuilt
                          else if \<not> router_key_ok env cfg then Inl BadRouterKey
                          else Inr (Some (cfg, preflight)))))"

text \<open>The steps in the order of the code, each of which can end the setup; \<open>None\<close> is a panic.\<close>

definition build_setup :: "('u, 'j, 'q) setup_env \<Rightarrow> args \<Rightarrow> (setup_error + 'u shared_setup) option" where
  "build_setup env args =
     (case te_read_keypair env (ag_payer args) of
        Inl e \<Rightarrow> Some (Inl (KeypairNotRead e))
      | Inr payer \<Rightarrow>
     (case load_intents env args payer of
        Inl e \<Rightarrow> Some (Inl e)
      | Inr intents \<Rightarrow>
          (if intents = [] then Some (Inl NoIntentsToRun)
           else case er_setup env args payer of
             None \<Rightarrow> None
           | Some (Inl e) \<Rightarrow> Some (Inl e)
           | Some (Inr er) \<Rightarrow>
               (case catalog_of env args of
                  Inl e \<Rightarrow> Some (Inl e)
                | Inr catalog \<Rightarrow>
                    (case fee_oracle_of env args of
                       Inl e \<Rightarrow> Some (Inl e)
                     | Inr orc \<Rightarrow>
                         (let dag = dag_build (te_map_order env intents) intents
                          in case dag_layers dag of
                               None \<Rightarrow> None
                             | Some (Inl e) \<Rightarrow> Some (Inl (LayersFailed e))
                             | Some (Inr layers) \<Rightarrow>
                                 Some (Inr
                                   \<lparr>st_rpc_base_url = rpc_base_url_of args er, st_payer = payer,
                                    st_tx_budget = tx_budget_of args, st_alt_policy = alt_policy_of args,
                                    st_occ_cfg = occ_config_default, st_safety = safety_margins_default, st_oracle = orc,
                                    st_cu_scope = cu_scope_of (ag_cu_scope args), st_fast_send = ag_fast_send args,
                                    st_alt_mgr = alt_manager_of args catalog,
                                    st_parallel_cfg_template = parallel_cfg_of args, st_intents = intents,
                                    st_dag = dag, st_layers = layers, st_blockhash_policy = blockhash_policy_of args,
                                    st_blockhash_pre_check = (\<not> ag_fast_send args),
                                    st_er_config = map_option fst er\<rparr>)))))))"

section \<open>What a run gets\<close>

text \<open>The rest of the outside world, for the whole of a run.\<close>

record ('u, 'j, 's, 'v, 'c, 'f, 'w, 'm, 'tx, 'sig) run_env =
  re_hash :: "bytes \<Rightarrow> hash32"
  re_fetch :: "'s fetcher"
  re_occ_jitter :: "nat \<Rightarrow> u64"
  re_er_env :: "('u, 'j, 'v, string) er_env"
  re_er_text :: "er_error \<Rightarrow> string"
  re_alt_inputs :: "'c \<Rightarrow> (pubkey list \<times> nat \<times> nat) \<times> 'c"
  re_feed :: "'f \<Rightarrow> rpc_input list \<times> 'f"
  re_bhfa :: "('u, 'j, 'v) bhfa_env"
  re_api :: "'m message_api"
  re_key_text :: "pubkey \<Rightarrow> string"
  re_fees :: "string + u64 list"
  re_send :: "(boxed_oracle, 'w, 'm, 'tx, 'sig) send_env"
  re_join_text :: string
  re_retry_jitter :: "nat \<Rightarrow> nat \<Rightarrow> nat"
  re_debug_assertions :: bool

fun alt_resolve ::
    "(bytes \<Rightarrow> hash32) \<Rightarrow> ('c \<Rightarrow> (pubkey list \<times> nat \<times> nat) \<times> 'c) \<Rightarrow> pubkey \<Rightarrow> user_intent list \<Rightarrow> alt_impl \<times> 'c
      \<Rightarrow> alt_resolution \<times> alt_impl \<times> 'c" where
  "alt_resolve H inputs payer intents (NoAltManager, c) = (no_alt_resolve_tables payer intents, NoAltManager, c)"
| "alt_resolve H inputs payer intents (CachingAltManager m, c) =
     (case inputs c of
        ((order, now, now'), c) \<Rightarrow>
          (case resolve_tables H order now now' payer intents m of (r, m) \<Rightarrow> (r, CachingAltManager m, c)))"

definition bhfa_cfg_of :: "'u er_client_config \<Rightarrow> 'u bhfa_config" where
  "bhfa_cfg_of cfg = bhfa_config_new (cf_router_url cfg) (cf_router_api_key cfg)"

definition aware_env_of ::
    "('u, 'j, 's, 'v, 'c, 'f, 'w, 'm, 'tx, 'sig) run_env \<Rightarrow> 'u shared_setup \<Rightarrow> 'u er_client_config
      \<Rightarrow> ('u, 'j, 'f, 'v) er_aware_env" where
  "aware_env_of env setup cfg =
     \<lparr>ev_feed = re_feed env, ev_bhfa = re_bhfa env, ev_now = ne_now (ee_net (re_er_env env)), ev_cfg = bhfa_cfg_of cfg,
      ev_payer = st_payer setup\<rparr>"

text \<open>The sender's oracle is the boxed one; the message of a chunk is built by the chunk itself.\<close>

definition send_env_of ::
    "('u, 'j, 's, 'v, 'c, 'f, 'w, 'm, 'tx, 'sig) run_env \<Rightarrow> (boxed_oracle, 'w, 'm, 'tx, 'sig) send_env" where
  "send_env_of env = (re_send env)\<lparr>se_suggest := boxed_suggest (re_fees env), se_clamp := boxed_clamp\<rparr>"

definition er_ctx_of ::
    "('u, 'j, 's, 'v, 'c, 'f, 'w, 'm, 'tx, 'sig) run_env \<Rightarrow> 'u shared_setup \<Rightarrow> 'u er_client_config
      \<Rightarrow> ('u, ('u, 'v) er_client) er_execution_ctx" where
  "er_ctx_of env setup cfg =
     http_ctx (re_hash env) (re_er_env env) cfg (re_er_text env) True (lc_dry_run (st_parallel_cfg_template setup))"

definition er_deps_of ::
    "('u, 'j, 's, 'v, 'c, 'f, 'w, 'm, 'tx, 'sig) run_env \<Rightarrow> 'u shared_setup \<Rightarrow> 'u er_client_config
      \<Rightarrow> ('u, 's, ('u, 'v) er_client, alt_impl \<times> 'c, ('u, 'f, 'v) er_aware, boxed_oracle, 'w, 'm, 'tx, 'sig) layer_deps" where
  "er_deps_of env setup cfg =
     \<lparr>ld_hash = re_hash env, ld_payer = st_payer setup, ld_safety = st_safety setup, ld_er = Some (er_ctx_of env setup cfg),
      ld_fetch = re_fetch env, ld_occ_jitter = re_occ_jitter env, ld_occ_config = st_occ_cfg setup,
      ld_resolve_tables = alt_resolve (re_hash env) (re_alt_inputs env),
      ld_lease_for_intents = er_aware_lease_for_intents (aware_env_of env setup cfg),
      ld_record_outcome = er_aware_record_outcome, ld_api = re_api env, ld_key_text = re_key_text env,
      ld_send = send_env_of env, ld_join_text = re_join_text env, ld_retry_jitter = re_retry_jitter env\<rparr>"

definition er_run_setup ::
    "('u, 'j, 's, 'v, 'c, 'f, 'w, 'm, 'tx, 'sig) run_env \<Rightarrow> 'u shared_setup \<Rightarrow> 'u er_client_config
      \<Rightarrow> ('u, 's, ('u, 'v) er_client, alt_impl \<times> 'c, ('u, 'f, 'v) er_aware, boxed_oracle, 'w, 'm, 'tx, 'sig) run_setup" where
  "er_run_setup env setup cfg =
     \<lparr>rs_deps = er_deps_of env setup cfg, rs_mark_layer_boundary = er_aware_mark_layer_boundary, rs_dag = st_dag setup,
      rs_layers = st_layers setup, rs_tx_budget = st_tx_budget setup, rs_alt_policy = st_alt_policy setup,
      rs_parallel_cfg = st_parallel_cfg_template setup, rs_debug_assertions = re_debug_assertions env\<rparr>"

definition manager_of :: "'u shared_setup \<Rightarrow> 'f \<Rightarrow> 'f managed" where
  "manager_of setup f =
     \<lparr>md_manager = blockhash_manager_new (st_blockhash_policy setup) (st_blockhash_pre_check setup) rpc_metrics_zero, md_world = f\<rparr>"

definition sender_of :: "'u shared_setup \<Rightarrow> 'w \<Rightarrow> (boxed_oracle, 'w, 'tx) sender_state" where
  "sender_of setup w =
     (let s = sender_with_scope (st_oracle setup) (st_cu_scope setup) w rpc_metrics_zero
      in if st_fast_send setup then with_fast_send s else s)"

text \<open>The state a run starts in; \<open>telemetry\<close>, \<open>request_id\<close> and the worlds come from outside.\<close>

definition er_start ::
    "'u shared_setup \<Rightarrow> er_telemetry \<Rightarrow> u64 \<Rightarrow> 's \<Rightarrow> 'v \<Rightarrow> 'v \<Rightarrow> 'c \<Rightarrow> 'f \<Rightarrow> 'w
      \<Rightarrow> ('s, ('u, 'v) er_client, alt_impl \<times> 'c, ('u, 'f, 'v) er_aware, boxed_oracle, 'w, 'tx) layer_world" where
  "er_start setup telemetry request_id s v v' c f w =
     \<lparr>lw_occ = \<lparr>ow_fetcher = s, ow_metrics = \<lparr>om_captures = 0, om_retries = 0, om_slot_drift_rejects = 0, om_rpc_errors = 0\<rparr>, ow_sleeps = []\<rparr>,
      lw_er = er_client_new (Some telemetry) request_id v, lw_alt = (st_alt_mgr setup, c),
      lw_blockhash = \<lparr>ea_inner = manager_of setup f, ea_net = v', ea_requests = []\<rparr>,
      lw_sender = sender_of setup w, lw_sleeps = []\<rparr>"

section \<open>Lemmas\<close>

lemma boxed_limit: "pl_cu_limit (boxed_clamp o1 p) = min (pl_cu_limit p) (boxed_max_limit o1)"
  by (cases o1) (simp_all add: basic_fee.clamp_limit recent_fee.clamp_limit)

lemma boxed_price: "pl_cu_price (boxed_clamp o1 p) \<le> boxed_max_price o1"
  by (cases o1) (simp_all add: basic_fee.clamp_price recent_fee.clamp_price)

lemma boxed_idem: "boxed_clamp o1 (boxed_clamp o1 p) = boxed_clamp o1 p"
  by (cases o1) (simp_all add: basic_fee.clamp_idem recent_fee.clamp_idem)

interpretation boxed_fee: fee_oracle "boxed_suggest answer" boxed_clamp boxed_max_limit boxed_max_price for answer
proof unfold_locales
  fix o1 o2 :: boxed_oracle and p q
  assume s: "boxed_suggest answer o1 = Some (p, o2)"
  show "boxed_max_limit o2 = boxed_max_limit o1 \<and> boxed_max_price o2 = boxed_max_price o1"
    using s recent_fee.suggest_bounds by (cases o1) fastforce+
  show "pl_cu_price (boxed_clamp o2 q) = pl_cu_price (boxed_clamp o1 q)"
    using s recent_fee.clamp_keeps_price by (cases o1) fastforce+
qed (simp_all add: boxed_limit boxed_price boxed_idem)

lemma build_setup_Inr:
  assumes "build_setup env args = Some (Inr setup)"
  shows "load_intents env args (st_payer setup) = Inr (st_intents setup)" "st_intents setup \<noteq> []"
    "\<exists>er. er_setup env args (st_payer setup) = Some (Inr er) \<and> st_er_config setup = map_option fst er"
    "fee_oracle_of env args = Inr (st_oracle setup)"
    "st_dag setup = dag_build (te_map_order env (st_intents setup)) (st_intents setup)"
    "dag_layers (st_dag setup) = Some (Inr (st_layers setup))"
    "st_parallel_cfg_template setup = parallel_cfg_of args" "st_blockhash_policy setup = blockhash_policy_of args"
    "st_tx_budget setup = tx_budget_of args" "st_safety setup = safety_margins_default"
    "st_blockhash_pre_check setup = (\<not> ag_fast_send args)" "st_fast_send setup = ag_fast_send args"
    "te_read_keypair env (ag_payer args) = Inr (st_payer setup)" "st_alt_policy setup = alt_policy_of args"
  using assms by (auto simp: build_setup_def Let_def split: sum.splits if_splits option.splits)

lemma er_setup_enabled: "er_setup env args payer = Some (Inr er) \<Longrightarrow> er = None \<longleftrightarrow> \<not> ag_er_enabled args"
  by (auto simp: er_setup_def split: sum.splits option.splits if_splits)

lemma build_setup_er: "build_setup env args = Some (Inr setup) \<Longrightarrow> st_er_config setup = None \<longleftrightarrow> \<not> ag_er_enabled args"
  using build_setup_Inr(3) [of env args "setup"] er_setup_enabled [of env args "st_payer setup"] by auto

lemma not_layers_failed:
  "load_intents env args payer \<noteq> Inl (LayersFailed d)" "er_setup env args payer \<noteq> Some (Inl (LayersFailed d))"
  "catalog_of env args \<noteq> Inl (LayersFailed d)" "fee_oracle_of env args \<noteq> Inl (LayersFailed d)"
  by (auto simp: load_intents_def er_setup_def er_config_of_def catalog_of_def fee_oracle_of_def Let_def
      split: sum.splits option.splits if_splits fee_oracle_cli.splits)

text \<open>\<open>layers\<close> always succeeds, so the setup panics exactly when a probe does, and otherwise returns one way or the other.\<close>

lemma build_setup_layers: "build_setup env args \<noteq> Some (Inl (LayersFailed d))"
proof
  assume fails: "build_setup env args = Some (Inl (LayersFailed d))"
  obtain layers where layers: "\<And>order intents. dag_layers (dag_build order intents) = Some (Inr (layers order intents))"
    using built.layers_returns by metis
  show False
    using fails not_layers_failed [of env args]
    by (auto simp: build_setup_def Let_def layers split: sum.splits if_splits option.splits)
qed

lemma build_setup_panics:
  "build_setup env args = None \<longleftrightarrow>
     (\<exists>payer intents. te_read_keypair env (ag_payer args) = Inr payer \<and> load_intents env args payer = Inr intents \<and> intents \<noteq> []
        \<and> er_setup env args payer = None)"
proof -
  obtain layers where layers: "\<And>order intents. dag_layers (dag_build order intents) = Some (Inr (layers order intents))"
    using built.layers_returns by metis
  show ?thesis by (auto simp: build_setup_def Let_def layers split: sum.splits option.splits)
qed

lemma er_setup_panics:
  "er_setup env args payer = None \<longleftrightarrow>
     ag_er_enabled args
     \<and> (\<exists>cfg k. er_config_of env args = Inr cfg \<and> pe_client_builds env \<and> ag_er_router_key args = Some k \<and> k \<noteq> []
          \<and> pe_header_value env k = None \<and> \<not> pe_try_clone env)"
proof -
  have key: "cf_router_api_key cfg = ag_er_router_key args" if "er_config_of env args = Inr cfg" for cfg
    using that by (auto simp: er_config_of_def Let_def split: option.splits)
  have "er_setup env args payer = None \<longleftrightarrow>
      ag_er_enabled args \<and> (\<exists>cfg. er_config_of env args = Inr cfg \<and> setup_probes env cfg payer (te_probe_start env, []) = None)"
    by (cases "er_config_of env args") (simp_all add: er_setup_def case_prod_unfold split: option.split)
  then show ?thesis unfolding setup_probes_panics probe_header_None using key by metis
qed

lemma parallel_cfg_sanitised: "sanitised (parallel_cfg_of args) = parallel_cfg_of args"
  by (simp add: sanitised_def parallel_cfg_of_def clamp_def Let_def)

lemma policy_bounds:
  "1000 \<le> bp_max_age (blockhash_policy_of args)" "bp_max_age (blockhash_policy_of args) \<le> 120000"
  "bp_refresh_every (blockhash_policy_of args) \<noteq> 0"
proof -
  have "max (x :: u32) 1 \<noteq> 0" for x by (auto simp: max_def word_le_nat_alt)
  then show "1000 \<le> bp_max_age (blockhash_policy_of args)" "bp_max_age (blockhash_policy_of args) \<le> 120000"
    "bp_refresh_every (blockhash_policy_of args) \<noteq> 0"
    by (simp_all add: blockhash_policy_of_def clamp_def)
qed

lemma er_deps_fields [simp]:
  "ld_lease_for_intents (er_deps_of env setup cfg) = er_aware_lease_for_intents (aware_env_of env setup cfg)"
  "ld_record_outcome (er_deps_of env setup cfg) = er_aware_record_outcome" "ld_er (er_deps_of env setup cfg) = Some (er_ctx_of env setup cfg)"
  "ld_payer (er_deps_of env setup cfg) = st_payer setup" "ld_safety (er_deps_of env setup cfg) = st_safety setup"
  by (simp_all add: er_deps_of_def)

lemma er_run_setup_fields [simp]:
  "rs_deps (er_run_setup env setup cfg) = er_deps_of env setup cfg" "rs_layers (er_run_setup env setup cfg) = st_layers setup"
  "rs_dag (er_run_setup env setup cfg) = st_dag setup" "rs_mark_layer_boundary (er_run_setup env setup cfg) = er_aware_mark_layer_boundary"
  "rs_parallel_cfg (er_run_setup env setup cfg) = st_parallel_cfg_template setup"
  "rs_tx_budget (er_run_setup env setup cfg) = st_tx_budget setup" "rs_alt_policy (er_run_setup env setup cfg) = st_alt_policy setup"
  "rs_debug_assertions (er_run_setup env setup cfg) = re_debug_assertions env"
  by (simp_all add: er_run_setup_def)

lemma deployed_contract: "client_contract (er_deps_of env setup cfg)"
  using http.er_client_contract_axioms by (simp add: client_contract_def er_ctx_of_def)

lemma manager_of_ok:
  assumes "feed_ok good (st_blockhash_policy setup) feed" and "bp_refresh_every (st_blockhash_policy setup) \<noteq> 0"
  shows "manager_inv good feed (manager_of setup f)"
  using assms by (simp add: manager_inv_def manager_of_def blockhash_manager_new_def mgr_ok_def)

end
