(* ===== verification/DeployRuns.thy ===== *)
theory DeployRuns
  imports Deploy
begin

text \<open>
  What holds for the runs that \<open>SharedSetup::build\<close> sets up: the setup itself, the order in which a deployed run
  sends, and two options of the command line that do not do what they say. A concrete deployment serves as the example.
\<close>

section \<open>A concrete deployment\<close>

text \<open>
  Two transfers to the same account, with the ER and the override host of the theory Er; the pool of the run is the
  demonstration of the theory Rollup.
\<close>

definition demo_transfer :: "pubkey \<Rightarrow> pubkey \<Rightarrow> u64 \<Rightarrow> instruction" where
  "demo_transfer src dst lamports =
     \<lparr>ix_program_id = 0, ix_accounts = [\<lparr>meta_pubkey = src, meta_is_signer = True, meta_is_writable = True\<rparr>,
                                       \<lparr>meta_pubkey = dst, meta_is_signer = False, meta_is_writable = True\<rparr>],
      ix_data = [2, ucast lamports]\<rparr>"

definition demo_setup_env :: "(string, json, unit) setup_env" where
  "demo_setup_env =
     \<lparr>pe_web = sample_web JNull, pe_url_text = id, pe_client_builds = True, pe_header_value = Some, pe_try_clone = False,
      pe_http = (\<lambda>q w. (HttpResponse 200 None (Inr []), w)), pe_decode_routes = (\<lambda>j. None),
      te_probe_start = (), te_er_client_builds = True, te_read_keypair = (\<lambda>path. Inr 5), te_pubkey_from_str = (\<lambda>t. if t = [] then None else Some (of_nat (length t))),
      te_read_intents = (\<lambda>path. Inl ''no file''), te_transfer = demo_transfer, te_memo_program = 6,
      te_get_account = (\<lambda>k. Inl ''none''), te_decode_table = (\<lambda>b. Inl ''none''), te_alt_program = 8,
      te_map_order = (\<lambda>intents. remdups (concat (map (\<lambda>i. map aa_pubkey (ui_accesses i)) intents)))\<rparr>"

definition demo_args :: args where
  "demo_args = (args_default ''rpc'' ''id.json'')\<lparr>ag_demo_conflicting_to := Some ''to'', ag_demo_count := 2, ag_er_enabled := True\<rparr>"

definition demo_built :: "string shared_setup" where
  "demo_built = (case build_setup demo_setup_env demo_args of Some (Inr setup) \<Rightarrow> setup)"

lemma demo_args_fields [simp]:
  "ag_intents demo_args = None" "ag_demo_mixed demo_args = False" "ag_demo_conflicting_to demo_args = Some ''to''"
  "ag_demo_count demo_args = 2" "ag_demo_lamports demo_args = 100000" "ag_er_enabled demo_args = True" "ag_er_router demo_args = None"
  "ag_er_endpoint demo_args = None" "ag_er_privacy demo_args = PublicCli" "ag_alt_tables demo_args = None"
  "ag_fee_oracle demo_args = BasicCli" "ag_er_merge_small_intents demo_args = False" "ag_dry_run demo_args = False"
  "ag_fast_send demo_args = False"
  by (simp_all add: demo_args_def args_default_def)

definition transfer_intent :: user_intent where
  "transfer_intent =
     \<lparr>ui_actor = 5, ui_ix = demo_transfer 5 2 100000,
      ui_accesses = [\<lparr>aa_pubkey = 2, aa_access = Writable\<rparr>, \<lparr>aa_pubkey = 5, aa_access = Writable\<rparr>],
      ui_priority = 0, ui_expires_at_slot = None\<rparr>"

lemma demo_new_intent: "new_intent 5 (demo_transfer 5 2 100000) 0 = transfer_intent"
proof -
  have "accesses_from_ix (demo_transfer 5 2 100000) = [\<lparr>aa_pubkey = 2, aa_access = Writable\<rparr>, \<lparr>aa_pubkey = 5, aa_access = Writable\<rparr>]"
    by code_simp
  then show ?thesis
    using user_intent_new_correct [of 5 "demo_transfer 5 2 100000" 0 None] by (simp add: new_intent_def transfer_intent_def)
qed

lemma demo_loaded: "load_intents demo_setup_env demo_args 5 = Inr [transfer_intent, transfer_intent]"
  by (simp add: load_intents_def demo_setup_env_def demo_new_intent upt_rec)

lemma demo_er: "\<exists>cfg preflight. er_setup demo_setup_env demo_args 5 = Some (Inr (Some (cfg, preflight)))"
proof -
  have "pe_header_value demo_setup_env k \<noteq> None" for k by (simp add: demo_setup_env_def)
  then have "er_setup demo_setup_env demo_args 5 \<noteq> None" unfolding er_setup_panics by blast
  moreover have "te_er_client_builds demo_setup_env" by (simp add: demo_setup_env_def)
  moreover obtain cfg where "er_config_of demo_setup_env demo_args = Inr cfg" "router_key_ok demo_setup_env cfg"
    by (simp add: er_config_of_def demo_setup_env_def sample_web_def router_key_ok_def)
  ultimately show ?thesis by (auto simp: er_setup_def split: option.splits)
qed

lemma demo_build_ok:
  obtains st cfg where "build_setup demo_setup_env demo_args = Some (Inr st)" "st_er_config st = Some cfg"
    "st_intents st = [transfer_intent, transfer_intent]"
proof -
  obtain cfg preflight where er: "er_setup demo_setup_env demo_args 5 = Some (Inr (Some (cfg, preflight)))" using demo_er by blast
  have cat: "catalog_of demo_setup_env demo_args = Inr None" by (simp add: catalog_of_def)
  have payer: "te_read_keypair demo_setup_env (ag_payer demo_args) = Inr 5" by (simp add: demo_setup_env_def)
  obtain ls where "dag_layers (dag_build (te_map_order demo_setup_env [transfer_intent, transfer_intent]) [transfer_intent, transfer_intent]) = Some (Inr ls)"
    using built.layers_returns by blast
  then show thesis using er cat payer that by (simp add: build_setup_def Let_def demo_loaded fee_oracle_of_def)
qed

lemma demo_order: "covers_accounts (te_map_order demo_setup_env intents) intents"
  by (auto simp: covers_accounts_def list_all_iff demo_setup_env_def)

lemma demo_layers:
  "dag_layers (dag_build (te_map_order demo_setup_env [transfer_intent, transfer_intent]) [transfer_intent, transfer_intent])
     = Some (Inr [[0], [1]])"
proof -
  have order: "te_map_order demo_setup_env [transfer_intent, transfer_intent] = [2, 5]"
    by (simp add: demo_setup_env_def transfer_intent_def)
  have "account_edges [transfer_intent, transfer_intent] 2 = {(0, 1)}"
    by (auto simp: account_edges_def order_key_def transfer_intent_def less_Suc_eq)
  moreover have "account_edges [transfer_intent, transfer_intent] 5 = {(0, 1)}"
    by (auto simp: account_edges_def order_key_def transfer_intent_def less_Suc_eq)
  ultimately have "intent_edges (set [2, 5]) [transfer_intent, transfer_intent] = {(0, 1)}"
    by (simp add: intent_edges_def)
  moreover have "layering {(0, 1)} (length [transfer_intent, transfer_intent]) [[0], [1]]"
    by (auto simp: layering_def layers_closed_def layers_linked_def less_Suc_eq)
  ultimately show ?thesis unfolding order by (simp add: dag_layers_build)
qed

lemma demo_plannable:
  assumes "ap_reserve_message_keys alt = 32" and "ap_per_alt_index_byte alt = 1" and "ap_max_alt_keys alt = 64" and "n < 2"
  shows "\<exists>chunks. chunk_layer_with dbg [n] [transfer_intent, transfer_intent] tx_budget_default alt basic_oracle = Some (Inr chunks)"
proof -
  note defs = from_intent_def message_unique_len_def alt_unique_len_def fp_cu_estimate_def self_bytes_def acc_new_def
    transfer_intent_def demo_transfer_def tx_budget_default_def Let_def basic_oracle_def BASE_MESSAGE_OVERHEAD_def sig_shortvec_len_def
  have "[transfer_intent, transfer_intent] ! n = transfer_intent" using assms(4) by (auto simp: less_Suc_eq numeral_2_eq_2)
  moreover have "fits_in_empty (from_intent transfer_intent tx_budget_default basic_oracle) tx_budget_default alt"
    using assms by (simp add: fits_in_empty_def size_if_only_this_def defs)
  moreover have "can_add (acc_new tx_budget_default alt) (from_intent transfer_intent tx_budget_default basic_oracle)"
    using assms by (simp add: can_add_def deltas_for_def acc_has_def delta_sv_def defs)
  ultimately show ?thesis using assms(4) by (simp add: chunk_layer_with_single)
qed

lemma demo_runs:
  assumes st: "build_setup demo_setup_env demo_args = Some (Inr st)" and intents: "st_intents st = [transfer_intent, transfer_intent]"
  shows "\<exists>t w'. run_er_once (er_run_setup env st cfg) w (RunDone (t, w'))"
proof -
  note facts = build_setup_Inr [OF st]
  have layers: "st_layers st = [[0], [1]]" using facts(5,6) intents demo_layers by simp
  have alt: "st_alt_policy st = alt_policy_default\<lparr>ap_enabled := ag_enable_alt demo_args\<rparr>"
    using facts(14) by (simp add: alt_policy_of_def)
  have plan: "\<exists>plans. plan_layer (er_run_setup env st cfg) [n] = Some (Inr plans)" if n: "n < 2" for n
  proof -
    obtain chunks where "chunk_layer_with (re_debug_assertions env) [n] (st_intents st) (st_tx_budget st) (st_alt_policy st) basic_oracle
        = Some (Inr chunks)"
      unfolding intents facts(9) alt tx_budget_of_def
      using demo_plannable [of "alt_policy_default\<lparr>ap_enabled := ag_enable_alt demo_args\<rparr>" n "re_debug_assertions env"] n
      by (auto simp: alt_policy_default_def)
    then show ?thesis by (simp add: plan_layer_def facts(5))
  qed
  let ?su = "er_run_setup env st cfg"
  obtain r where r: "run_layers ?su 0 (rs_layers ?su) w totals_zero r" using run_layers_total by blast
  have "\<exists>t w'. r = RunDone (t, w')"
    by (rule run_layers_planned [OF r]) (use plan [of 0] plan [of 1] in \<open>auto simp: layers\<close>)
  with r show ?thesis by (fastforce simp: run_er_once_def)
qed

section \<open>Properties\<close>

text \<open>
  C34: \<open>SharedSetup::build\<close> returns an error or a setup, except for one panic: with the ER enabled, a router key that is not
  empty and is no header value makes the probe of the router unwrap a request that cannot be cloned (when the key file and
  the intents are readable, the URLs parse and the HTTP client of the probe builds). It never fails in \<open>layers\<close>. What it
  returns has intents, a layering of their DAG, a layer configuration that \<open>send_layer_parallel\<close> takes as it is, at least one
  and at most twelve workers, a hash age between one second and two minutes, and an ER client exactly if the ER is enabled.
\<close>

theorem build_setup_correct:
  "(build_setup env args = None \<longleftrightarrow>
      ag_er_enabled args
      \<and> (\<exists>payer intents cfg k. te_read_keypair env (ag_payer args) = Inr payer \<and> load_intents env args payer = Inr intents
           \<and> intents \<noteq> [] \<and> er_config_of env args = Inr cfg \<and> pe_client_builds env
           \<and> ag_er_router_key args = Some k \<and> k \<noteq> [] \<and> pe_header_value env k = None \<and> \<not> pe_try_clone env))
   \<and> (case build_setup env args of
        None \<Rightarrow> True
      | Some (Inl e) \<Rightarrow> e \<notin> range LayersFailed
      | Some (Inr st) \<Rightarrow> st_intents st \<noteq> []
        \<and> dag_layers (dag_build (te_map_order env (st_intents st)) (st_intents st)) = Some (Inr (st_layers st))
        \<and> sanitised (st_parallel_cfg_template st) = st_parallel_cfg_template st
        \<and> 1 \<le> lc_max_concurrency (st_parallel_cfg_template st) \<and> lc_max_concurrency (st_parallel_cfg_template st) \<le> 12
        \<and> 1000 \<le> bp_max_age (st_blockhash_policy st) \<and> bp_max_age (st_blockhash_policy st) \<le> 120000
        \<and> bp_refresh_every (st_blockhash_policy st) \<noteq> 0 \<and> lc_dry_run (st_parallel_cfg_template st) = ag_dry_run args
        \<and> (st_er_config st = None \<longleftrightarrow> \<not> ag_er_enabled args))"
proof
  show "build_setup env args = None \<longleftrightarrow>
      ag_er_enabled args
      \<and> (\<exists>payer intents cfg k. te_read_keypair env (ag_payer args) = Inr payer \<and> load_intents env args payer = Inr intents
           \<and> intents \<noteq> [] \<and> er_config_of env args = Inr cfg \<and> pe_client_builds env
           \<and> ag_er_router_key args = Some k \<and> k \<noteq> [] \<and> pe_header_value env k = None \<and> \<not> pe_try_clone env)"
    unfolding build_setup_panics er_setup_panics by blast
  have built: "dag_layers (dag_build (te_map_order env (st_intents st)) (st_intents st)) = Some (Inr (st_layers st))"
    "sanitised (st_parallel_cfg_template st) = st_parallel_cfg_template st"
    "1 \<le> lc_max_concurrency (st_parallel_cfg_template st) \<and> lc_max_concurrency (st_parallel_cfg_template st) \<le> 12"
    "1000 \<le> bp_max_age (st_blockhash_policy st) \<and> bp_max_age (st_blockhash_policy st) \<le> 120000"
    "bp_refresh_every (st_blockhash_policy st) \<noteq> 0 \<and> lc_dry_run (st_parallel_cfg_template st) = ag_dry_run args"
    if "build_setup env args = Some (Inr st)" for st
    using build_setup_Inr(5-8) [OF that] parallel_cfg_sanitised [of args] policy_bounds [of args]
    by (simp_all add: parallel_cfg_of_def clamp_def)
  show "case build_setup env args of
        None \<Rightarrow> True
      | Some (Inl e) \<Rightarrow> e \<notin> range LayersFailed
      | Some (Inr st) \<Rightarrow> st_intents st \<noteq> []
        \<and> dag_layers (dag_build (te_map_order env (st_intents st)) (st_intents st)) = Some (Inr (st_layers st))
        \<and> sanitised (st_parallel_cfg_template st) = st_parallel_cfg_template st
        \<and> 1 \<le> lc_max_concurrency (st_parallel_cfg_template st) \<and> lc_max_concurrency (st_parallel_cfg_template st) \<le> 12
        \<and> 1000 \<le> bp_max_age (st_blockhash_policy st) \<and> bp_max_age (st_blockhash_policy st) \<le> 120000
        \<and> bp_refresh_every (st_blockhash_policy st) \<noteq> 0 \<and> lc_dry_run (st_parallel_cfg_template st) = ag_dry_run args
        \<and> (st_er_config st = None \<longleftrightarrow> \<not> ag_er_enabled args)"
    using build_setup_layers [of env args] build_setup_Inr(2) [of env args] build_setup_er [of env args] built
    by (auto split: option.split sum.split)
qed

text \<open>
  C1: A run of what \<open>SharedSetup::build\<close> set up follows the DAG, whatever the options and the outside world. If it ends, its
  log is one piece for each layer in their order: what is sent in the piece of a layer carries the
  instructions of intents of this layer only, consecutive ones in one transaction, and nothing in a dry run; if the
  summary of the layer has no failure, each of its intents is sent. Every intent belongs to exactly one layer,
  and an intent that touches an account which another one of higher rank writes belongs to a later layer.
\<close>

theorem deployed_run_follows_dag:
  assumes "build_setup tenv args = Some (Inr st)" and "st_er_config st = Some cfg"
    and "covers_accounts (te_map_order tenv (st_intents st)) (st_intents st)"
    and "run_er_once (er_run_setup env st cfg) w (RunDone (t, w'))"
  shows "\<exists>logs. ss_log (lw_sender w') = ss_log (lw_sender w) @ concat logs
      \<and> run_record (er_run_setup env st cfg) 0 (st_layers st) (rt_summaries t) logs
      \<and> mset (concat (st_layers st)) = mset [0..<length (st_intents st)]
      \<and> (\<forall>u v k. u < length (st_intents st) \<longrightarrow> v < length (st_intents st) \<longrightarrow>
           order_key (st_intents st ! u) u < order_key (st_intents st ! v) v \<longrightarrow>
           \<lparr>aa_pubkey = k, aa_access = Writable\<rparr> \<in> set (ui_accesses (st_intents st ! u)) \<longrightarrow>
           k \<in> aa_pubkey ` set (ui_accesses (st_intents st ! v)) \<longrightarrow>
           (\<exists>i j. i < j \<and> j < length (st_layers st) \<and> u \<in> set (st_layers st ! i) \<and> v \<in> set (st_layers st ! j)))"
proof -
  have dag: "rs_dag (er_run_setup env st cfg) = dag_build (te_map_order tenv (st_intents st)) (st_intents st)"
    "dag_layers (rs_dag (er_run_setup env st cfg)) = Some (Inr (rs_layers (er_run_setup env st cfg)))"
    using build_setup_Inr(5,6) [OF assms(1)] by simp_all
  have "client_contract (rs_deps (er_run_setup env st cfg))" by (simp add: deployed_contract)
  from run_follows_the_dag [OF dag(1) assms(3) dag(2) assms(4) this] show ?thesis unfolding er_run_setup_fields(2) .
qed

theorem deployed_run_follows_dag_witness:
  "\<exists>st cfg. build_setup demo_setup_env demo_args = Some (Inr st)
     \<and> (\<forall>env w. \<exists>t w' logs. run_er_once (er_run_setup env st cfg) w (RunDone (t, w'))
          \<and> ss_log (lw_sender w') = ss_log (lw_sender w) @ concat logs)"
proof -
  obtain st cfg where st: "build_setup demo_setup_env demo_args = Some (Inr st)" "st_er_config st = Some cfg"
    "st_intents st = [transfer_intent, transfer_intent]" by (rule demo_build_ok)
  show ?thesis
  proof (intro exI [of _ st] exI [of _ cfg] conjI allI st(1))
    fix env w
    obtain t w' where run: "run_er_once (er_run_setup env st cfg) w (RunDone (t, w'))" using demo_runs [OF st(1,3)] by blast
    with deployed_run_follows_dag [OF st(1,2) demo_order run]
    show "\<exists>t w' logs. run_er_once (er_run_setup env st cfg) w (RunDone (t, w')) \<and> ss_log (lw_sender w') = ss_log (lw_sender w) @ concat logs"
      by blast
  qed
qed

lemma er_start_log [simp]: "ss_log (lw_sender (er_start st telemetry request_id s v v' c f x)) = []"
  by (simp add: er_start_def sender_of_def sender_with_scope_def with_fast_send_def Let_def)

definition demo_feed :: "unit \<Rightarrow> rpc_input list \<times> unit" where
  "demo_feed w = (replicate 12 answer_7, w)"

definition demo_bhfa :: "(string, json, nat) bhfa_env" where
  "demo_bhfa =
     \<lparr>be_net = sample_net 200 (JObj [(''result'', JObj [(''blockhash'', JStr ''h''), (''lastValidBlockHeight'', JInt 9)])]),
      be_client_builds = True, be_header_value = Some, be_hash_from_str = (\<lambda>t. Some 7)\<rparr>"

lemma demo_known: "feed_ok (\<lambda>h. h = 7) policy demo_feed" "bhfa_good (\<lambda>h. h = 7) demo_bhfa"
  by (auto simp: feed_ok_def demo_feed_def good_answer_def answer_7_def bhfa_good_def bhfa_result_def demo_bhfa_def Let_def
      split: http_answer.splits sum.splits option.splits)

text \<open>
  \<open>--cu-price\<close> does not force a price above the ceiling of 5000 unless \<open>--max-cu-price\<close> is raised as well. The basic
  oracle then silently lowers every plan to 5000. The recent-fees oracle panics in every suggestion, whatever the fees
  are, because its floor is above its ceiling.
\<close>

theorem forced_price_above_ceiling:
  assumes "ag_cu_price args = Some p" and "ag_min_cu_price args = None" and "ag_max_cu_price args = None" and "5000 < p"
    and "fee_oracle_of env args = Inr orc"
  shows "case orc of
           BasicBox b \<Rightarrow> \<forall>plan. pl_cu_price (boxed_clamp orc plan) = 5000
         | RecentBox w \<Rightarrow> \<forall>fees. boxed_suggest fees orc = None"
proof (cases orc)
  case (BasicBox b)
  then have "bo_min_cu_price b = p" "bo_max_cu_price b = 5000"
    using assms by (auto simp: fee_oracle_of_def unwrap_or_def or_else_def split: fee_oracle_cli.splits option.splits)
  then show ?thesis using BasicBox assms(4) by (auto simp: basic_clamp_range range_clamp_def min_def max_def)
next
  case (RecentBox w)
  then have price: "ro_min_cu_price (fst w) = p" "ro_max_cu_price (fst w) = 5000"
    using assms by (auto simp: fee_oracle_of_def recent_oracle_of_def recent_fees_oracle_new_def unwrap_or_def or_else_def Let_def
        split: fee_oracle_cli.splits option.splits)
  have "recent_suggest fees w = None" for fees
  proof -
    have "ro_min_cu_price self = p \<and> ro_max_cu_price self = 5000" if "pick_price_with_ema fees w = Some (price, self, metrics)" for price self metrics
      using that price
      by (cases w) (auto simp: pick_price_with_ema_def Let_def split: if_splits option.splits)
    then show ?thesis using assms(4) by (auto simp: recent_suggest_def split: option.splits)
  qed
  then show ?thesis using RecentBox by simp
qed

theorem forced_price_above_ceiling_witness:
  "pl_cu_price (boxed_clamp (BasicBox \<lparr>bo_max_cu_limit = 1400000, bo_min_cu_price = 10000, bo_max_cu_price = 5000\<rparr>)
     \<lparr>pl_cu_limit = 1, pl_cu_price = 10000\<rparr>) = 5000
   \<and> boxed_suggest (Inr [1, 2, 3]) (RecentBox (recent_fees_oracle_new\<lparr>ro_min_cu_price := 10000\<rparr>, rpc_metrics_zero)) = None"
proof -
  let ?basic = "demo_args\<lparr>ag_cu_price := Some 10000\<rparr>"
  let ?recent = "?basic\<lparr>ag_fee_oracle := RecentCli\<rparr>"
  have args: "ag_min_cu_price demo_args = None" "ag_max_cu_price demo_args = None" "ag_max_cu_limit demo_args = None"
    "ag_probe_accounts demo_args = None" "ag_fee_pctile demo_args = None" "ag_fee_alpha demo_args = None"
    "ag_fee_hysteresis_bps demo_args = None"
    by (simp_all add: demo_args_def args_default_def)
  have "fee_oracle_of demo_setup_env ?basic = Inr (BasicBox \<lparr>bo_max_cu_limit = 1400000, bo_min_cu_price = 10000, bo_max_cu_price = 5000\<rparr>)"
    "fee_oracle_of demo_setup_env ?recent = Inr (RecentBox (recent_fees_oracle_new\<lparr>ro_min_cu_price := 10000\<rparr>, rpc_metrics_zero))"
    by (simp_all add: fee_oracle_of_def args unwrap_or_def or_else_def recent_oracle_of_def parse_pubkeys_def trim_def
        recent_fees_oracle_new_def)
  from forced_price_above_ceiling [OF _ _ _ _ this(1), of 10000] forced_price_above_ceiling [OF _ _ _ _ this(2), of 10000]
  show ?thesis by (simp add: args)
qed

definition large_intent :: user_intent where
  "large_intent = data_intent 0 (replicate 1040 0)"

text \<open>
  C39: The planner's byte budget does not fit the serializer's limit. A chunk may be planned for up to 1136 message bytes (1392 with
  \<open>--er-merge-small-intents\<close>), but a message with one signature may only have 1103. An intent with 1040 bytes of data is
  always planned and can never be built, whatever the fee and the lookup tables, if the encoding of a message has the
  header, the payer's key, the blockhash and all its instructions.
\<close>

theorem planned_chunk_never_builds:
  assumes encodes: "\<And>ixs tables bh msg n. ma_try_compile api payer ixs tables bh = Inr msg \<Longrightarrow> ma_bincode_len api msg = Inr n \<Longrightarrow>
      0 < ma_num_required_signatures api msg \<and> 70 + sum_list (map exact_ix_bytes ixs) \<le> n"
    and ctx: "bc_payer ctx = payer" "bc_safety ctx = safety_margins_default"
  shows "tb_max_bytes (tx_budget_of args) - tb_byte_slack (tx_budget_of args) = (if ag_er_merge_small_intents args then 1392 else 1136)
    \<and> max_message_bytes_with_signers safety_margins_default 1 = 1103
    \<and> (\<exists>c. chunk_layer_with dbg [0] [large_intent] (tx_budget_of args) alt_policy_default basic_oracle = Some (Inr [c]))
    \<and> isl (build_v0_message api ctx [large_intent])"
proof -
  have budget: "tb_max_bytes (tx_budget_of args) - tb_byte_slack (tx_budget_of args) = (if ag_er_merge_small_intents args then 1392 else 1136)"
    by (simp add: tx_budget_of_def tx_budget_default_def usize_max_def)
  have max: "max_message_bytes_with_signers safety_margins_default n \<le> 1103" if "1 \<le> n" for n
    using that by (simp add: max_message_bytes_with_signers_def safety_margins_default_def PACKET_DATA_SIZE_def sig_shortvec_len_def Let_def min_def) linarith
  note defs = from_intent_def message_unique_len_def alt_unique_len_def fp_cu_estimate_def self_bytes_def acc_new_def
    large_intent_def data_intent_def tx_budget_of_def tx_budget_default_def alt_policy_default_def Let_def basic_oracle_def
    BASE_MESSAGE_OVERHEAD_def sig_shortvec_len_def usize_max_def
  have fits: "fits_in_empty (from_intent large_intent (tx_budget_of args) basic_oracle) (tx_budget_of args) alt_policy_default"
    by (simp add: fits_in_empty_def size_if_only_this_def defs)
  have add: "can_add (acc_new (tx_budget_of args) alt_policy_default) (from_intent large_intent (tx_budget_of args) basic_oracle)"
    by (simp add: can_add_def deltas_for_def acc_has_def delta_sv_def defs)
  have chunk: "\<exists>c. chunk_layer_with dbg [0] [large_intent] (tx_budget_of args) alt_policy_default basic_oracle = Some (Inr [c])"
    using fits add by (simp add: chunk_layer_with_single)
  have "exact_ix_bytes (ui_ix large_intent) = 1044" by (simp add: large_intent_def data_intent_def exact_ix_bytes_def sig_shortvec_len_def)
  then have size: "1114 \<le> 70 + sum_list (map exact_ix_bytes (message_instructions api (bc_fee ctx) [large_intent]))"
    by (simp add: message_instructions_def)
  have "isl (build_v0_message api ctx [large_intent])"
  proof (rule ccontr)
    assume "\<not> isl (build_v0_message api ctx [large_intent])"
    then obtain msg where "build_v0_message api ctx [large_intent] = Inr msg" by (cases "build_v0_message api ctx [large_intent]") auto
    then obtain n where n: "ma_try_compile api payer (message_instructions api (bc_fee ctx) [large_intent]) (ar_tables (bc_alts ctx)) (bc_blockhash ctx) = Inr msg"
      "ma_bincode_len api msg = Inr n" "n \<le> max_message_bytes_with_signers safety_margins_default (unat (ma_num_required_signatures api msg))"
      using ctx by (auto simp: build_v0_message_def Let_def split: option.splits sum.splits if_splits)
    then have "0 < ma_num_required_signatures api msg" "1114 \<le> n" using encodes [OF n(1,2)] size by auto
    then have "1 \<le> unat (ma_num_required_signatures api msg)" by (simp add: word_less_nat_alt)
    from max [OF this] n(3) \<open>1114 \<le> n\<close> show False by simp
  qed
  with budget chunk show ?thesis
    by (simp add: max_message_bytes_with_signers_def safety_margins_default_def PACKET_DATA_SIZE_def sig_shortvec_len_def Let_def)
qed

definition full_api :: "instruction list message_api" where
  "full_api =
     \<lparr>ma_set_cu_limit = (\<lambda>l. \<lparr>ix_program_id = 77, ix_accounts = [], ix_data = [2]\<rparr>),
      ma_set_cu_price = (\<lambda>p. \<lparr>ix_program_id = 77, ix_accounts = [], ix_data = [3]\<rparr>),
      ma_try_compile = (\<lambda>payer ixs tables bh. Inr ixs),
      ma_bincode_len = (\<lambda>m. Inr (70 + sum_list (map exact_ix_bytes m))), ma_num_required_signatures = (\<lambda>_. 1)\<rparr>"

theorem planned_chunk_never_builds_witness:
  "isl (build_v0_message full_api \<lparr>bc_payer = 5, bc_blockhash = 3, bc_fee = \<lparr>pl_cu_limit = 1400000, pl_cu_price = 100\<rparr>,
      bc_alts = resolution_default, bc_safety = safety_margins_default\<rparr> [large_intent])"
  using planned_chunk_never_builds [of full_api 5 "\<lparr>bc_payer = 5, bc_blockhash = 3, bc_fee = \<lparr>pl_cu_limit = 1400000, pl_cu_price = 100\<rparr>,
      bc_alts = resolution_default, bc_safety = safety_margins_default\<rparr>" demo_args True]
  by (simp add: full_api_def)

end
