(* ===== verification/Baseline.thy ===== *)
theory Baseline
  imports Deploy
begin

text \<open>
  The baseline of bundler/examples/rollup_cli.rs, one transaction for each intent in the order of the input
  (\<open>run_baseline_once\<close>), and \<open>main\<close>, which runs the rollup, the baseline or both. The baseline leases its hashes from a
  manager of its own and shares the sender with the rollup. The global RPC counters are the ones of the components.
\<close>

section \<open>\<open>run_baseline_once\<close>\<close>

definition make_build_vmsg ::
    "'m message_api \<Rightarrow> (pubkey \<Rightarrow> string) \<Rightarrow> pubkey \<Rightarrow> hash32 \<Rightarrow> alt_resolution \<Rightarrow> user_intent list \<Rightarrow> safety_margins
      \<Rightarrow> fee_plan \<Rightarrow> 'w \<Rightarrow> (string + 'm) \<times> 'w" where
  "make_build_vmsg api key_text payer bh alts chunk_intents safety_cfg plan w =
     (let ctx = \<lparr>bc_payer = payer, bc_blockhash = bh, bc_fee = plan, bc_alts = alts, bc_safety = safety_cfg\<rparr>
      in (case build_v0_message api ctx chunk_intents of
            Inl e \<Rightarrow> Inl (build_error_text key_text e)
          | Inr msg \<Rightarrow> Inr msg, w))"

record 'sig baseline_acc =
  ba_reports :: "'sig tx_cost list"
  ba_signatures :: "'sig list"
  ba_rpc_fallback :: u64

definition baseline_acc_new :: "'sig baseline_acc" where
  "baseline_acc_new = \<lparr>ba_reports = [], ba_signatures = [], ba_rpc_fallback = 0\<rparr>"

datatype 'r baseline_outcome =
    BaselineDone 'r | BaselineNoLease string | BaselineNotSent send_error | BaselinePanicked

definition note_baseline :: "safety_margins \<Rightarrow> 'sig send_report \<Rightarrow> 'sig baseline_acc \<Rightarrow> 'sig baseline_acc" where
  "note_baseline safety rep acc =
     (let acc = (case sp_signature rep of Some sig \<Rightarrow> acc\<lparr>ba_signatures := ba_signatures acc @ [sig]\<rparr> | None \<Rightarrow> acc)
      in acc\<lparr>ba_reports := ba_reports acc @ [tx_cost_of safety rep]\<rparr>)"

text \<open>The loop over the intents; the provider's \<open>lease\<close> and \<open>record_outcome\<close> and the message of an intent are arguments.\<close>

fun baseline_loop ::
    "('b \<Rightarrow> (string + blockhash_lease) \<times> 'b) \<Rightarrow> (blockhash_lease \<Rightarrow> lease_outcome \<Rightarrow> 'b \<Rightarrow> 'b)
      \<Rightarrow> (hash32 \<Rightarrow> user_intent \<Rightarrow> fee_plan \<Rightarrow> 'w \<Rightarrow> (string + 'm) \<times> 'w) \<Rightarrow> ('o, 'w, 'm, 'tx, 'sig) send_env \<Rightarrow> safety_margins
      \<Rightarrow> bool \<Rightarrow> user_intent list \<Rightarrow> 'b \<Rightarrow> ('o, 'w, 'tx) sender_state \<Rightarrow> 'sig baseline_acc
      \<Rightarrow> 'sig baseline_acc baseline_outcome \<times> 'b \<times> ('o, 'w, 'tx) sender_state" where
  "baseline_loop lease outcome build env safety dry [] b s acc = (BaselineDone acc, b, s)"
| "baseline_loop lease outcome build env safety dry (ui # uis) b s acc =
     (case lease b of
        (Inl e, b) \<Rightarrow> (BaselineNoLease e, b, s)
      | (Inr l, b) \<Rightarrow>
          (let acc = acc\<lparr>ba_rpc_fallback := ba_rpc_fallback acc + 1\<rparr>
           in case simulate_build_and_send_with_report (env\<lparr>se_build := build (bl_hash l) ui\<rparr>) dry s of
                None \<Rightarrow> (BaselinePanicked, b, s)
              | Some (Inr rep, s) \<Rightarrow>
                  baseline_loop lease outcome build env safety dry uis (outcome l LeaseSuccess b) s (note_baseline safety rep acc)
              | Some (Inl err, s) \<Rightarrow> (BaselineNotSent err, outcome l StaleDetected b, s)))"

record 'sig baseline_result =
  br_reports :: "'sig tx_cost list"
  br_signatures :: "'sig list"
  br_dag_layer_sizes :: "nat list"
  br_dag_node_count :: nat
  br_fee_total :: u64
  br_fee_avg :: "rat option"
  br_tx_count :: nat
  br_blockhash_metrics :: blockhash_metrics
  br_rpc_fallback :: u64

definition baseline_result_of :: "'u shared_setup \<Rightarrow> 'f managed \<Rightarrow> 'sig baseline_acc \<Rightarrow> 'sig baseline_result" where
  "baseline_result_of st p acc =
     (let fee_total = sum_list (map tk_total_fee (ba_reports acc))
      in \<lparr>br_reports = ba_reports acc, br_signatures = ba_signatures acc, br_dag_layer_sizes = map length (st_layers st),
          br_dag_node_count = length (dag_nodes (st_dag st)), br_fee_total = fee_total,
          br_fee_avg = (if ba_reports acc = [] then None
                        else Some (f64_div (f64_of_nat (unat fee_total)) (f64_of_nat (length (ba_reports acc))))),
          br_tx_count = length (st_intents st), br_blockhash_metrics = bm_metrics (md_manager p),
          br_rpc_fallback = ba_rpc_fallback acc\<rparr>)"

definition baseline_build ::
    "('u, 'j, 's, 'v, 'c, 'f, 'w, 'm, 'tx, 'sig) run_env \<Rightarrow> 'u shared_setup \<Rightarrow> hash32 \<Rightarrow> user_intent \<Rightarrow> fee_plan \<Rightarrow> 'w
      \<Rightarrow> (string + 'm) \<times> 'w" where
  "baseline_build env st bh ui = make_build_vmsg (re_api env) (re_key_text env) (st_payer st) bh resolution_default [ui] (st_safety st)"

definition run_baseline_once ::
    "('u, 'j, 's, 'v, 'c, 'f, 'w, 'm, 'tx, 'sig) run_env \<Rightarrow> 'u shared_setup \<Rightarrow> bool \<Rightarrow> 'f managed
      \<Rightarrow> (boxed_oracle, 'w, 'tx) sender_state
      \<Rightarrow> 'sig baseline_result baseline_outcome \<times> (boxed_oracle, 'w, 'tx) sender_state" where
  "run_baseline_once env st dry p s =
     (case baseline_loop (manager_lease (re_feed env)) manager_record_outcome (baseline_build env st) (send_env_of env)
             (st_safety st) dry (st_intents st) p s baseline_acc_new of
        (BaselineDone acc, p, s) \<Rightarrow> (BaselineDone (baseline_result_of st p acc), s)
      | (BaselineNoLease e, p, s) \<Rightarrow> (BaselineNoLease e, s)
      | (BaselineNotSent e, p, s) \<Rightarrow> (BaselineNotSent e, s)
      | (BaselinePanicked, p, s) \<Rightarrow> (BaselinePanicked, s))"

section \<open>\<open>main\<close>\<close>

text \<open>What the outside world brings into the process.\<close>

record ('s, 'v, 'c, 'f, 'w) process_start =
  ps_telemetry :: er_telemetry
  ps_request_id :: u64
  ps_occ :: 's
  ps_er_net :: 'v
  ps_bhfa_net :: 'v
  ps_alt :: 'c
  ps_feed :: 'f
  ps_baseline_feed :: 'f
  ps_rpc :: 'w

definition start_world ::
    "('s, 'v, 'c, 'f, 'w) process_start \<Rightarrow> 'u shared_setup
      \<Rightarrow> ('s, ('u, 'v) er_client, alt_impl \<times> 'c, ('u, 'f, 'v) er_aware, boxed_oracle, 'w, 'tx) layer_world" where
  "start_world p st =
     er_start st (ps_telemetry p) (ps_request_id p) (ps_occ p) (ps_er_net p) (ps_bhfa_net p) (ps_alt p) (ps_feed p) (ps_rpc p)"

datatype main_error =
    MainSetup setup_error | MainErContext | MainChunking chunk_error | MainLease string | MainSend send_error | MainPanic

datatype ('t, 'b) main_outcome = MainFailed main_error | MainDone "'t option" "'b option"

text \<open>How a run of the rollup that does not end normally ends the process, and the calls made until then.\<close>

fun er_error_of :: "('r, 'l) run_outcome \<Rightarrow> (main_error \<times> 'l option) option" where
  "er_error_of (RunDone r) = None"
| "er_error_of (RunChunkError e w) = Some (MainChunking e, Some w)"
| "er_error_of (RunPanicked w) = Some (MainPanic, Some w)"
| "er_error_of RunWithoutEr = Some (MainErContext, None)"

fun calls_of :: "('s, 'e, 'a, 'b, 'o, 'w, 'tx) layer_world option \<Rightarrow> 'tx rpc_event list" where
  "calls_of None = []"
| "calls_of (Some w) = ss_log (lw_sender w)"

fun baseline_main :: "'t option \<Rightarrow> 'b baseline_outcome \<Rightarrow> ('t, 'b) main_outcome" where
  "baseline_main er (BaselineDone b) = MainDone er (Some b)"
| "baseline_main er (BaselineNoLease e) = MainFailed (MainLease e)"
| "baseline_main er (BaselineNotSent e) = MainFailed (MainSend e)"
| "baseline_main er BaselinePanicked = MainFailed MainPanic"

definition er_run ::
    "('u, 'j, 's, 'v, 'c, 'f, 'w, 'm, 'tx, 'sig) run_env \<Rightarrow> 'u shared_setup
      \<Rightarrow> ('s, ('u, 'v) er_client, alt_impl \<times> 'c, ('u, 'f, 'v) er_aware, boxed_oracle, 'w, 'tx) layer_world
      \<Rightarrow> (('u, 'sig) run_totals \<times> ('s, ('u, 'v) er_client, alt_impl \<times> 'c, ('u, 'f, 'v) er_aware, boxed_oracle, 'w, 'tx) layer_world,
           ('s, ('u, 'v) er_client, alt_impl \<times> 'c, ('u, 'f, 'v) er_aware, boxed_oracle, 'w, 'tx) layer_world) run_outcome
      \<Rightarrow> bool" where
  "er_run env st w r \<longleftrightarrow>
     (case st_er_config st of None \<Rightarrow> r = RunWithoutEr | Some cfg \<Rightarrow> run_er_once (er_run_setup env st cfg) w r)"

text \<open>An outcome of the process and the RPC calls it made.\<close>

inductive main_runs ::
    "('u, 'j, 'q) setup_env \<Rightarrow> ('u, 'j, 's, 'v, 'c, 'f, 'w, 'm, 'tx, 'sig) run_env \<Rightarrow> ('s, 'v, 'c, 'f, 'w) process_start \<Rightarrow> args
      \<Rightarrow> (('u, 'sig) run_totals, 'sig baseline_result) main_outcome \<Rightarrow> 'tx rpc_event list \<Rightarrow> bool"
  for tenv env p args where
  setup_panics: "build_setup tenv args = None \<Longrightarrow> main_runs tenv env p args (MainFailed MainPanic) []"
| setup_fails: "build_setup tenv args = Some (Inl e) \<Longrightarrow> main_runs tenv env p args (MainFailed (MainSetup e)) []"
| er_fails: "build_setup tenv args = Some (Inr st) \<Longrightarrow> ag_mode args \<noteq> BaselineOnly \<Longrightarrow>
    er_run env st (start_world p st) r \<Longrightarrow> er_error_of r = Some (e, w) \<Longrightarrow>
    main_runs tenv env p args (MainFailed e) (calls_of w)"
| er_only: "build_setup tenv args = Some (Inr st) \<Longrightarrow> ag_mode args = ErOnly \<Longrightarrow>
    er_run env st (start_world p st) (RunDone (t, w)) \<Longrightarrow>
    main_runs tenv env p args (MainDone (Some t) None) (ss_log (lw_sender w))"
| baseline_only: "build_setup tenv args = Some (Inr st) \<Longrightarrow> ag_mode args = BaselineOnly \<Longrightarrow>
    run_baseline_once env st (ag_dry_run args) (manager_of st (ps_baseline_feed p)) (sender_of st (ps_rpc p)) = (r, s) \<Longrightarrow>
    main_runs tenv env p args (baseline_main None r) (ss_log s)"
| compare: "build_setup tenv args = Some (Inr st) \<Longrightarrow> ag_mode args = Compare \<Longrightarrow>
    er_run env st (start_world p st) (RunDone (t, w)) \<Longrightarrow>
    run_baseline_once env st (ag_dry_run args) (manager_of st (ps_baseline_feed p)) (lw_sender w) = (r, s) \<Longrightarrow>
    main_runs tenv env p args (baseline_main (Some t) r) (ss_log s)"

inductive_cases main_runs_DoneE: "main_runs tenv env p args (MainDone er b) calls"
inductive_cases main_runs_anyE: "main_runs tenv env p args r calls"

section \<open>What the baseline sends\<close>

text \<open>The transactions sent, in order.\<close>

fun sends :: "'tx rpc_event list \<Rightarrow> 'tx list" where
  "sends [] = []"
| "sends (EvSend tx # evs) = tx # sends evs"
| "sends (ev # evs) = sends evs"

lemma sends_append [simp]: "sends (a @ b) = sends a @ sends b"
  by (induction a rule: sends.induct) auto

lemma set_sends: "set (sends evs) = sent_in evs"
  by (induction evs rule: sends.induct) auto

lemma length_sends: "length (sends evs) = length (filter is_send evs)"
  by (induction evs rule: sends.induct) auto

text \<open>A transaction that \<open>build\<close> made for an intent with a granted hash, and signed.\<close>

definition built_for ::
    "(hash32 \<Rightarrow> user_intent \<Rightarrow> fee_plan \<Rightarrow> 'w \<Rightarrow> (string + 'm) \<times> 'w) \<Rightarrow> ('o, 'w, 'm, 'tx, 'sig) send_env \<Rightarrow> (hash32 \<Rightarrow> bool)
      \<Rightarrow> user_intent \<Rightarrow> 'tx \<Rightarrow> bool" where
  "built_for build env good ui tx \<longleftrightarrow>
     (\<exists>hash plan w msg w'. good hash \<and> build hash ui plan w = (Inr msg, w') \<and> se_sign env msg = Inr tx)"

lemma one_send:
  assumes "simulate_build_and_send_with_report (env\<lparr>se_build := build h ui\<rparr>) dry s = Some (res, s')" and "good h"
  shows "\<exists>evs. ss_log s' = ss_log s @ evs \<and> (\<forall>tx\<in>set (sends evs). built_for build env good ui tx)
    \<and> length (sends evs) \<le> (if dry then 0 else 1) \<and> (\<not> isl res \<and> \<not> dry \<longrightarrow> length (sends evs) = 1)"
proof -
  let ?env = "env\<lparr>se_build := build h ui\<rparr>"
  obtain evs where evs: "ss_log s' = ss_log s @ evs" "event_order dry (ss_pre_check_blockhash s) evs"
    using report_log [OF assms(1)] by blast
  have built: "built_for build env good ui tx" if "tx \<in> set (sends evs)" for tx
    using report_sends [OF assms(1) evs(1)] that assms(2) by (auto simp: set_sends built_for_def)
  have "length (sends evs) = 1" if ok: "\<not> isl res" "\<not> dry"
  proof -
    obtain rep where res: "res = Inr rep" using ok(1) by (cases res) auto
    from report_success [OF assms(1) [unfolded res]] ok(2) evs(1) show ?thesis by (auto split: if_splits)
  qed
  with built event_order_sends [OF evs(2)] evs(1) show ?thesis by (intro exI [of _ evs]) (simp add: length_sends)
qed

text \<open>
  The whole loop: the transactions sent are those of the first \<open>k\<close> intents, one each and in order, where \<open>k\<close> is the number of
  intents if the loop ends normally; reports and signatures are one for each intent.
\<close>

definition baseline_sent ::
    "(hash32 \<Rightarrow> user_intent \<Rightarrow> fee_plan \<Rightarrow> 'w \<Rightarrow> (string + 'm) \<times> 'w) \<Rightarrow> ('o, 'w, 'm, 'tx, 'sig) send_env \<Rightarrow> (hash32 \<Rightarrow> bool)
      \<Rightarrow> bool \<Rightarrow> user_intent list \<Rightarrow> 'sig baseline_acc \<Rightarrow> 'sig baseline_acc baseline_outcome \<Rightarrow> 'tx rpc_event list \<Rightarrow> bool" where
  "baseline_sent build env good dry intents acc r evs \<longleftrightarrow>
     (\<exists>k \<le> length intents. list_all2 (built_for build env good) (if dry then [] else take k intents) (sends evs)
        \<and> (\<forall>acc'. r = BaselineDone acc' \<longrightarrow>
             k = length intents \<and> length (ba_reports acc') = length (ba_reports acc) + length intents
             \<and> length (ba_signatures acc') = length (ba_signatures acc) + (if dry then 0 else length intents)))"

lemma baseline_sent_stop:
  assumes "length (sends evs) \<le> (if dry then 0 else 1)" and "\<forall>tx\<in>set (sends evs). built_for build env good ui tx"
    and "\<forall>acc'. r \<noteq> BaselineDone acc'"
  shows "baseline_sent build env good dry (ui # uis) acc r evs"
proof (cases "sends evs")
  case Nil
  then show ?thesis using assms(3) by (auto simp: baseline_sent_def intro: exI [of _ 0])
next
  case (Cons tx txs)
  then have "sends evs = [tx]" "\<not> dry" using assms(1) by (auto split: if_splits)
  then show ?thesis using assms(2,3) by (auto simp: baseline_sent_def intro!: exI [of _ 1])
qed

lemma baseline_sent_step:
  assumes "length (sends new) = (if dry then 0 else 1)" and "\<forall>tx\<in>set (sends new). built_for build env good ui tx"
    and "baseline_sent build env good dry uis acc' r evs" and "length (ba_reports acc') = Suc (length (ba_reports acc))"
    and "length (ba_signatures acc') = length (ba_signatures acc) + (if dry then 0 else 1)"
  shows "baseline_sent build env good dry (ui # uis) acc r (new @ evs)"
proof -
  obtain k where k: "k \<le> length uis" "list_all2 (built_for build env good) (if dry then [] else take k uis) (sends evs)"
    "\<forall>acc2. r = BaselineDone acc2 \<longrightarrow> k = length uis \<and> length (ba_reports acc2) = length (ba_reports acc') + length uis
      \<and> length (ba_signatures acc2) = length (ba_signatures acc') + (if dry then 0 else length uis)"
    using assms(3) by (auto simp: baseline_sent_def)
  show ?thesis
  proof (cases dry)
    case True
    then show ?thesis using k assms by (auto simp: baseline_sent_def intro!: exI [of _ "Suc k"])
  next
    case False
    then obtain tx where "sends new = [tx]" using assms(1) by (auto simp: length_Suc_conv)
    then show ?thesis using k assms False by (auto simp: baseline_sent_def intro!: exI [of _ "Suc k"])
  qed
qed

lemma note_baseline_lengths:
  "length (ba_reports (note_baseline safety rep acc)) = Suc (length (ba_reports acc))"
  "length (ba_signatures (note_baseline safety rep acc)) = length (ba_signatures acc) + (if sp_signature rep = None then 0 else 1)"
  by (simp_all add: note_baseline_def Let_def split: option.split)

context lease_provider
begin

lemma baseline_loop_sends:
  assumes "inv b" and "baseline_loop (lease_for []) outcome build env safety dry intents b s acc = (r, b', s')"
  shows "inv b' \<and> (\<exists>evs. ss_log s' = ss_log s @ evs \<and> baseline_sent build env good dry intents acc r evs)"
  using assms
proof (induction intents arbitrary: b s acc)
  case Nil
  then show ?case by (auto simp: baseline_sent_def)
next
  case (Cons ui uis)
  obtain res b1 where lease: "lease_for [] b = (res, b1)" by (cases "lease_for [] b")
  have inv1: "inv b1" by (rule lease_keeps [OF Cons.prems(1) lease])
  show ?case
  proof (cases res)
    case (Inl e)
    then have "r = BaselineNoLease e" "b' = b1" "s' = s" using Cons.prems(2) lease by simp_all
    then show ?thesis using inv1 by (auto intro!: baseline_sent_stop)
  next
    case (Inr l)
    have good: "good (bl_hash l)" using lease_good [OF Cons.prems(1)] lease Inr by blast
    let ?acc = "acc\<lparr>ba_rpc_fallback := ba_rpc_fallback acc + 1\<rparr>"
    show ?thesis
    proof (cases "simulate_build_and_send_with_report (env\<lparr>se_build := build (bl_hash l) ui\<rparr>) dry s")
      case None
      then have "r = BaselinePanicked" "b' = b1" "s' = s" using Cons.prems(2) lease Inr by simp_all
      then show ?thesis using inv1 by (auto intro!: baseline_sent_stop)
    next
      case (Some p)
      obtain out s1 where run: "simulate_build_and_send_with_report (env\<lparr>se_build := build (bl_hash l) ui\<rparr>) dry s = Some (out, s1)"
        using Some by (cases p) auto
      from one_send [where env = env and build = build and h = "bl_hash l" and ui = ui and good = good, OF run good] obtain new where new: "ss_log s1 = ss_log s @ new"
        "\<forall>tx\<in>set (sends new). built_for build env good ui tx" "length (sends new) \<le> (if dry then 0 else 1)"
        "\<not> isl out \<and> \<not> dry \<longrightarrow> length (sends new) = 1" by blast
      show ?thesis
      proof (cases out)
        case (Inl e)
        then have "r = BaselineNotSent e" "b' = outcome l StaleDetected b1" "s' = s1" using Cons.prems(2) lease Inr run by simp_all
        then show ?thesis using outcome_keeps [OF inv1] new by (auto intro!: baseline_sent_stop)
      next
        case (Inr rep)
        have rest: "baseline_loop (lease_for []) outcome build env safety dry uis (outcome l LeaseSuccess b1) s1 (note_baseline safety rep ?acc) = (r, b', s')"
          using Cons.prems(2) lease \<open>res = Inr l\<close> run Inr by simp
        from Cons.IH [OF outcome_keeps [OF inv1] rest] obtain evs where
          evs: "inv b'" "ss_log s' = ss_log s1 @ evs" "baseline_sent build env good dry uis (note_baseline safety rep ?acc) r evs" by blast
        have sig: "sp_signature rep = None \<longleftrightarrow> dry" using report_success [OF run [unfolded Inr]] by blast
        have "baseline_sent build env good dry (ui # uis) acc r (new @ evs)"
          by (rule baseline_sent_step [OF _ new(2) evs(3)]) (use new(3,4) Inr sig in \<open>auto simp: note_baseline_lengths\<close>)
        then show ?thesis using evs(1,2) new(1) by (intro conjI exI [of _ "new @ evs"]) simp_all
      qed
    qed
  qed
qed

end

section \<open>The runs of \<open>main\<close>\<close>

text \<open>A transaction that carries the given instructions after the two compute-budget instructions.\<close>

definition compiled ::
    "('u, 'j, 's, 'v, 'c, 'f, 'w, 'm, 'tx, 'sig) run_env \<Rightarrow> 'u shared_setup \<Rightarrow> instruction list \<Rightarrow> hash32 \<Rightarrow> 'tx \<Rightarrow> bool" where
  "compiled env st ixs hash tx \<longleftrightarrow>
     (\<exists>(fee :: fee_plan) tables msg. ma_try_compile (re_api env) (st_payer st)
          ([ma_set_cu_limit (re_api env) (ucast (pl_cu_limit fee)), ma_set_cu_price (re_api env) (pl_cu_price fee)] @ ixs)
          tables hash = Inr msg
        \<and> se_sign (re_send env) msg = Inr tx)"

lemma carries_compiled: "carries (er_deps_of env st cfg) ixs hash tx = compiled env st ixs hash tx"
  by (simp add: carries_def compiled_def er_deps_of_def send_env_of_def)

lemma built_for_compiled:
  "built_for (baseline_build env st) (send_env_of env) good ui tx \<Longrightarrow> \<exists>hash. good hash \<and> compiled env st [ui_ix ui] hash tx"
  by (auto simp: built_for_def baseline_build_def make_build_vmsg_def build_v0_message_def message_instructions_def compiled_def
      send_env_of_def Let_def split: sum.splits option.splits if_splits)

definition sent_for ::
    "('u, 'j, 's, 'v, 'c, 'f, 'w, 'm, 'tx, 'sig) run_env \<Rightarrow> 'u shared_setup \<Rightarrow> (hash32 \<Rightarrow> bool) \<Rightarrow> user_intent \<Rightarrow> 'tx \<Rightarrow> bool" where
  "sent_for env st good ui tx \<longleftrightarrow> (\<exists>hash. good hash \<and> compiled env st [ui_ix ui] hash tx)"

lemma baseline_run:
  assumes "feed_ok good (st_blockhash_policy st) (re_feed env)" and "bp_refresh_every (st_blockhash_policy st) \<noteq> 0"
    and "run_baseline_once env st dry (manager_of st f) s = (r, s')"
  shows "\<exists>evs k. ss_log s' = ss_log s @ evs \<and> k \<le> length (st_intents st)
    \<and> list_all2 (sent_for env st good) (if dry then [] else take k (st_intents st)) (sends evs)
    \<and> (\<forall>b. r = BaselineDone b \<longrightarrow>
         k = length (st_intents st) \<and> length (br_reports b) = length (st_intents st) \<and> br_tx_count b = length (st_intents st)
         \<and> br_fee_total b = sum_list (map tk_total_fee (br_reports b))
         \<and> length (br_signatures b) = (if dry then 0 else length (st_intents st)))"
proof -
  obtain q p' s1 where loop: "baseline_loop (manager_lease (re_feed env)) manager_record_outcome (baseline_build env st) (send_env_of env)
      (st_safety st) dry (st_intents st) (manager_of st f) s baseline_acc_new = (q, p', s1)"
    by (cases "baseline_loop (manager_lease (re_feed env)) manager_record_outcome (baseline_build env st) (send_env_of env)
      (st_safety st) dry (st_intents st) (manager_of st f) s baseline_acc_new") auto
  have s1: "s' = s1" using assms(3) loop by (simp add: run_baseline_once_def split: baseline_outcome.splits)
  have "manager_lease (re_feed env) = manager_lease_for_intents (re_feed env) []" by (rule ext) (simp add: manager_lease_for_intents_def)
  from manager.baseline_loop_sends [OF manager_of_ok [OF assms(1,2)] loop [unfolded this]] obtain evs where
    evs: "ss_log s' = ss_log s @ evs"
      "baseline_sent (baseline_build env st) (send_env_of env) good dry (st_intents st) baseline_acc_new q evs"
    using s1 by blast
  then obtain k where k: "k \<le> length (st_intents st)"
    "list_all2 (built_for (baseline_build env st) (send_env_of env) good) (if dry then [] else take k (st_intents st)) (sends evs)"
    "\<And>acc. q = BaselineDone acc \<Longrightarrow> k = length (st_intents st) \<and> length (ba_reports acc) = length (st_intents st)
       \<and> length (ba_signatures acc) = (if dry then 0 else length (st_intents st))"
    by (auto simp: baseline_sent_def baseline_acc_new_def)
  have "list_all2 (sent_for env st good) (if dry then [] else take k (st_intents st)) (sends evs)"
    using k(2) by (rule list_all2_mono) (auto simp: sent_for_def dest: built_for_compiled)
  moreover have "\<exists>acc. q = BaselineDone acc \<and> b = baseline_result_of st p' acc" if "r = BaselineDone b" for b
    using assms(3) loop that by (auto simp: run_baseline_once_def split: baseline_outcome.splits)
  ultimately show ?thesis
    using evs(1) k(1,3) by (intro exI [of _ evs] exI [of _ k]) (fastforce simp: baseline_result_of_def Let_def)
qed

text \<open>What the rollup of a run sends: every intent of a layer without a failure.\<close>

lemma er_run_sends:
  assumes "build_setup tenv args = Some (Inr st)" and "er_run env st w (RunDone (t, w'))" and "\<not> ag_dry_run args"
    and "i < length (st_layers st)" and "u \<in> set (st_layers st ! i)" and "ly_failure (rt_summaries t ! i) = 0"
  shows "\<exists>evs tx nids. ss_log (lw_sender w') = ss_log (lw_sender w) @ evs \<and> u \<in> set nids \<and> tx \<in> sent_in evs
    \<and> (\<exists>hash. compiled env st (map (\<lambda>n. ui_ix (st_intents st ! n)) nids) hash tx)"
proof -
  obtain cfg where cfg: "st_er_config st = Some cfg" "run_er_once (er_run_setup env st cfg) w (RunDone (t, w'))"
    using assms(2) by (auto simp: er_run_def split: option.splits)
  let ?su = "er_run_setup env st cfg"
  have "client_contract (rs_deps ?su)" by (simp add: deployed_contract)
  from run_er_once_record [OF cfg(2) this] obtain logs where
    logs: "ss_log (lw_sender w') = ss_log (lw_sender w) @ concat logs" "run_record ?su 0 (st_layers st) (rt_summaries t) logs" by auto
  have "layer_sends ?su (st_layers st ! i) (ly_failure (rt_summaries t ! i) = 0) (logs ! i)" and i: "i < length logs"
    using logs(2) assms(4) by (auto simp: run_record_def)
  moreover have "\<not> lc_dry_run (rs_parallel_cfg ?su)"
    using build_setup_Inr(7) [OF assms(1)] assms(3) by (simp add: parallel_cfg_of_def)
  ultimately obtain pieces where pieces: "concat pieces = st_layers st ! i"
    "\<forall>nids\<in>set pieces. \<exists>tx\<in>sent_in (logs ! i). carries_nodes ?su nids tx"
    using assms(6) by (auto simp: layer_sends_def)
  from assms(5) obtain nids where nids: "nids \<in> set pieces" "u \<in> set nids" unfolding pieces(1) [symmetric] by auto
  from pieces(2) nids(1) obtain tx where tx: "tx \<in> sent_in (logs ! i)" "carries_nodes ?su nids tx" by blast
  have "logs ! i \<in> set logs" using i by simp
  with tx(1) have "tx \<in> sent_in (concat logs)" by auto
  moreover have "\<exists>hash. compiled env st (map (\<lambda>n. ui_ix (st_intents st ! n)) nids) hash tx"
    using tx(2) build_setup_Inr(5) [OF assms(1)] by (auto simp: carries_nodes_def carries_compiled)
  ultimately show ?thesis using logs(1) nids(2) by blast
qed
end
