(* ===== verification/BaselineRuns.thy ===== *)
theory BaselineRuns
  imports Baseline DeployRuns
begin

text \<open>
  What holds for the runs of \<open>main\<close> in bundler/examples/rollup_cli.rs: the baseline, the comparison of both, and the options
  that decide whether anything is sent at all. A deployment in which every call succeeds serves as the example.
\<close>


section \<open>What a run keeps of the sender\<close>

text \<open>An assertion on the sender that every call of it keeps, whatever it is to build.\<close>

definition sends_keep :: "(('o, 'w, 'tx) sender_state \<Rightarrow> bool) \<Rightarrow> ('o, 'w, 'm, 'tx, 'sig) send_env \<Rightarrow> bool" where
  "sends_keep J env \<longleftrightarrow>
     (\<forall>build dry s r s'. J s \<longrightarrow> simulate_build_and_send_with_report (env\<lparr>se_build := build\<rparr>) dry s = Some (r, s') \<longrightarrow> J s')"

lemma sends_keepD:
  "sends_keep J env \<Longrightarrow> simulate_build_and_send_with_report (env\<lparr>se_build := build\<rparr>) dry s = Some (r, s') \<Longrightarrow> J s \<Longrightarrow> J s'"
  by (auto simp: sends_keep_def)

lemma process_chunk_once_sender:
  assumes "sends_keep J (ld_send deps)" and "process_chunk_once deps dry prepared w = (r, w')" and "J (lw_sender w)"
  shows "J (lw_sender w')"
  using assms(2)
proof (cases rule: process_chunk_once_cases)
  case (send snapshot alts lease origin w1)
  have "J (lw_sender w1)" using send(2) assms(3) by simp
  then show ?thesis using send(1)
    by (auto simp: send_chunk_def Let_def split: option.splits prod.splits sum.splits if_splits dest: sends_keepD [OF assms(1)])
qed (use assms(3) in simp)

lemma worker_step_sender:
  assumes "sends_keep J (ld_send deps)" and "worker_step deps cfg plan wk permits w = Some (wk', permits', w')" and "J (lw_sender w)"
  shows "J (lw_sender w')"
  using assms(2,3)
  by (cases wk)
    (auto simp: worker_step_def split: prod.splits sum.splits if_splits
      dest!: prepare_attempt_sender after_attempt_sender process_chunk_once_sender [OF assms(1)])

lemma layer_sender:
  assumes "sends_keep J (ld_send deps)" and "layer_reaches deps cfg plans w s" and "J (lw_sender w)"
  shows "J (lw_sender (ls_world s))"
  using assms(2,3) unfolding layer_reaches_def
proof (induction rule: rtranclp_induct)
  case (step s t)
  from step(2) show ?case
    by (cases rule: layer_step.cases) (use step in \<open>auto dest: worker_step_sender [OF assms(1)]\<close>)
qed (simp add: layer_init_def)

lemma run_sender:
  assumes "run_layers su li layers w t r" and "sends_keep J (ld_send (rs_deps su))"
    and "\<And>s. J s \<Longrightarrow> J (start_scope s)" and "J (lw_sender w)" and "r = RunDone (t', w')"
  shows "J (lw_sender w')"
  using assms(1,4,5)
proof (induction rule: run_layers.induct)
  case (layer_sent layer plans w s li layers t r)
  have "J (lw_sender (begin_layer w))" using layer_sent.prems(1) assms(3) by (simp add: begin_layer_def)
  from layer_sender [OF assms(2) layer_sent(2) this] layer_sent show ?case by simp
qed simp_all

text \<open>The settings of a sender, and the oracle's ceilings, are among them.\<close>

definition same_settings ::
    "('o \<Rightarrow> 'p) \<Rightarrow> ('o, 'w, 'tx) sender_state \<Rightarrow> ('o, 'w, 'tx) sender_state \<Rightarrow> bool" where
  "same_settings cap s s' \<longleftrightarrow>
     cap (ss_oracle s') = cap (ss_oracle s) \<and> ss_scope s' = ss_scope s
     \<and> ss_pre_check_blockhash s' = ss_pre_check_blockhash s"

lemma send_step_settings:
  "send_step env vmsg s = (r, s') \<Longrightarrow>
   ss_oracle s' = ss_oracle s \<and> ss_scope s' = ss_scope s \<and> ss_pre_check_blockhash s' = ss_pre_check_blockhash s"
  by (auto simp: send_step_def split: prod.splits sum.splits option.splits if_splits)

lemma simulate_step_settings:
  "simulate_step env tx s = (r, s') \<Longrightarrow>
   ss_oracle s' = ss_oracle s \<and> ss_scope s' = ss_scope s \<and> ss_pre_check_blockhash s' = ss_pre_check_blockhash s"
  by (auto simp: simulate_step_def Let_def split: prod.splits sum.splits option.splits)

lemma tighten_plan_settings:
  "tighten_plan env plan0 used s = (plan, s') \<Longrightarrow>
   ss_oracle s' = ss_oracle s \<and> ss_scope s' = ss_scope s \<and> ss_pre_check_blockhash s' = ss_pre_check_blockhash s"
  by (auto simp: tighten_plan_def Let_def)

lemma report_settings:
  assumes "simulate_build_and_send_with_report env dry s = Some (r, s')"
  obtains suggested orc where "se_suggest env (ss_oracle s) = Some (suggested, orc)" "ss_oracle s' = orc" "ss_scope s' = ss_scope s"
    "ss_pre_check_blockhash s' = ss_pre_check_blockhash s"
  using assms
  by (auto simp: simulate_build_and_send_with_report_def Let_def split: option.splits prod.splits sum.splits if_splits
      dest!: send_step_settings simulate_step_settings tighten_plan_settings)

lemma settings_kept:
  assumes "\<And>o1 p o2. se_suggest env o1 = Some (p, o2) \<Longrightarrow> cap o2 = cap o1"
  shows "sends_keep (same_settings cap s) env"
  unfolding sends_keep_def
proof (intro allI impI)
  fix build dry s1 r s2
  assume "same_settings cap s s1" and "simulate_build_and_send_with_report (env\<lparr>se_build := build\<rparr>) dry s1 = Some (r, s2)"
  then show "same_settings cap s s2"
    by (auto simp: same_settings_def dest!: assms elim!: report_settings)
qed

lemma same_settings_start [simp]: "same_settings cap s (start_scope s') = same_settings cap s s'"
  by (simp add: same_settings_def start_scope_def)

lemma same_settings_refl [simp]: "same_settings cap s s"
  by (simp add: same_settings_def)

lemma deployed_run_settings:
  assumes "run_er_once (er_run_setup env st cfg) w (RunDone (t, w'))"
  shows "same_settings (\<lambda>orc. (boxed_max_limit orc, boxed_max_price orc)) (lw_sender w) (lw_sender w')"
proof -
  have keep: "sends_keep (same_settings (\<lambda>orc. (boxed_max_limit orc, boxed_max_price orc)) (lw_sender w)) (ld_send (rs_deps (er_run_setup env st cfg)))"
    by (rule settings_kept) (auto simp: er_deps_of_def send_env_of_def dest: boxed_fee.suggest_bounds)
  have "run_layers (er_run_setup env st cfg) 0 (st_layers st) w totals_zero (RunDone (t, w'))"
    using assms by (simp add: run_er_once_def)
  from run_sender [OF this keep] show ?thesis by simp
qed

section \<open>A deployment in which every call succeeds\<close>

lemma lease_run_never_fails:
  assumes "lease_run inps pc m = (pc', m')" and "\<forall>inp\<in>set inps. \<not> isl (ri_latest_blockhash inp) \<and> \<not> isl (ri_is_valid inp)"
    and "\<forall>e. pc \<noteq> LeaseFailed e"
  shows "pc' \<noteq> LeaseFailed e"
  using assms
proof (induction inps arbitrary: pc m)
  case (Cons inp inps)
  obtain q n where step: "task_step inp pc m = (q, n)" by (cases "task_step inp pc m")
  have "\<forall>e. q \<noteq> LeaseFailed e"
    using step Cons.prems(2,3)
    by (cases pc) (auto simp: fetch_lease_def split: prod.splits option.splits bool.splits sum.splits if_splits)
  with Cons step show ?case by simp
qed simp

lemma demo_lease:
  assumes "manager_inv good demo_feed p"
  shows "\<exists>l p'. manager_lease demo_feed p = (Inr l, p')"
proof -
  obtain r p' where run: "manager_lease demo_feed p = (r, p')" by (cases "manager_lease demo_feed p")
  show ?thesis
  proof (cases r)
    case (Inl e)
    with manager_lease_cases [OF assms run] have
      "lease_run (replicate 12 answer_7) AtHead (md_manager p) = (LeaseFailed e, md_manager p')" by (simp add: demo_feed_def)
    from lease_run_never_fails [OF this, of e] show ?thesis by (simp add: answer_7_def)
  qed (use run in blast)
qed

context lease_provider
begin

text \<open>A loop ends normally if every lease is granted and every call of the sender succeeds.\<close>

lemma baseline_loop_done:
  assumes "\<And>b. inv b \<Longrightarrow> \<exists>l b'. lease_for [] b = (Inr l, b')"
    and "\<And>h ui s. ui \<in> set intents \<Longrightarrow> J s \<Longrightarrow>
      \<exists>rep s'. simulate_build_and_send_with_report (env\<lparr>se_build := build h ui\<rparr>) dry s = Some (Inr rep, s') \<and> J s'"
    and "inv b" and "J s"
  shows "\<exists>acc' b' s'. baseline_loop (lease_for []) outcome build env safety dry intents b s acc = (BaselineDone acc', b', s')"
  using assms(2-)
proof (induction intents arbitrary: b s acc)
  case (Cons ui uis)
  obtain l b1 where lease: "lease_for [] b = (Inr l, b1)" using assms(1) [OF Cons.prems(2)] by blast
  have "inv (outcome l LeaseSuccess b1)" by (rule outcome_keeps [OF lease_keeps [OF Cons.prems(2) lease]])
  moreover obtain rep s1 where
    "simulate_build_and_send_with_report (env\<lparr>se_build := build (bl_hash l) ui\<rparr>) dry s = Some (Inr rep, s1)" "J s1"
    using Cons.prems(1) [of ui s "bl_hash l"] Cons.prems(3) by auto
  ultimately show ?case
    using Cons.IH [of "outcome l LeaseSuccess b1" s1] Cons.prems(1) lease by auto
qed simp

end

definition demo_send :: "(boxed_oracle, unit, instruction list, instruction list, nat) send_env" where
  "demo_send =
     \<lparr>se_suggest = (\<lambda>orc. None), se_clamp = (\<lambda>orc plan. plan), se_build = (\<lambda>plan w. (Inl '''', w)), se_sign = Inr,
      se_simulate = (\<lambda>tx w. (Inr \<lparr>sr_err = None, sr_units_consumed = Some 1000\<rparr>, w)),
      se_is_blockhash_valid = (\<lambda>h w. (Inr True, w)), se_send = (\<lambda>tx w. (Inr 1, w)),
      se_bincode_len = (\<lambda>m. Inr (length m)), se_required_signatures = (\<lambda>m. 1), se_recent_blockhash = (\<lambda>m. 7)\<rparr>"

definition all_well ::
    "(string, json, 's, nat, 'c, unit, unit, instruction list, instruction list, nat) run_env
      \<Rightarrow> (string, json, 's, nat, 'c, unit, unit, instruction list, instruction list, nat) run_env" where
  "all_well env = env\<lparr>re_feed := demo_feed, re_bhfa := demo_bhfa, re_api := full_api, re_send := demo_send\<rparr>"

lemma report_succeeds:
  assumes suggest: "se_suggest env (ss_oracle s) = Some (p, orc)" and build: "\<And>plan w. \<exists>msg. se_build env plan w = (Inr msg, w)"
    and sign: "\<And>m. \<exists>tx. se_sign env m = Inr tx" and sim: "\<And>tx s1. \<exists>used s2. simulate_step env tx s1 = (Inr used, s2)"
    and len: "\<And>m. \<exists>n. se_bincode_len env m = Inr n" and send: "\<And>m s1. \<exists>sig s2. send_step env m s1 = (Inr sig, s2)"
  shows "\<exists>rep s'. simulate_build_and_send_with_report env dry s = Some (Inr rep, s')"
proof -
  let ?s = "s\<lparr>ss_oracle := orc\<rparr>"
  obtain m0 where m0: "se_build env (se_clamp env orc p) (ss_world ?s) = (Inr m0, ss_world ?s)" using build by blast
  obtain tx0 where tx0: "se_sign env m0 = Inr tx0" using sign by blast
  obtain used s2 where s2: "simulate_step env tx0 (?s\<lparr>ss_world := ss_world ?s\<rparr>) = (Inr used, s2)" using sim by blast
  obtain plan s3 where s3: "tighten_plan env (se_clamp env orc p) used s2 = (plan, s3)" by force
  obtain m where m: "se_build env plan (ss_world s3) = (Inr m, ss_world s3)" using build by blast
  obtain n where n: "se_bincode_len env m = Inr n" using len by blast
  obtain sig s4 where s4: "send_step env m (s3\<lparr>ss_world := ss_world s3\<rparr>) = (Inr sig, s4)" using send by blast
  from suggest m0 tx0 s2 s3 m n s4 show ?thesis
    by (simp add: simulate_build_and_send_with_report_def Let_def)
qed

lemma demo_report:
  fixes env :: "(string, json, 's, nat, 'c, unit, unit, instruction list, instruction list, nat) run_env"
  assumes "ss_oracle s = BasicBox b" and "st_safety st = safety_margins_default"
  shows "\<exists>rep s'. simulate_build_and_send_with_report
      ((send_env_of (all_well env))\<lparr>se_build := baseline_build (all_well env) st h transfer_intent\<rparr>) dry s = Some (Inr rep, s')
    \<and> (\<exists>b. ss_oracle s' = BasicBox b)"
proof -
  let ?env = "(send_env_of (all_well env))\<lparr>se_build := baseline_build (all_well env) st h transfer_intent\<rparr>"
  have build: "\<exists>msg. baseline_build (all_well env) st h transfer_intent plan w = (Inr msg, w)" for plan and w :: unit
    using assms(2)
    by (simp add: baseline_build_def make_build_vmsg_def build_v0_message_def all_well_def full_api_def message_instructions_def
        resolution_default_def validate_alt_resolution_def transfer_intent_def demo_transfer_def exact_ix_bytes_def
        max_message_bytes_with_signers_def safety_margins_default_def PACKET_DATA_SIZE_def sig_shortvec_len_def Let_def
        prune_empty_tables_def)
  have sim: "\<exists>used s2. simulate_step ?env tx s1 = (Inr used, s2)" for tx s1
    by (simp add: simulate_step_def send_env_of_def all_well_def demo_send_def Let_def)
  have send: "\<exists>sig s2. send_step ?env m s1 = (Inr sig, s2)" for m s1
    by (simp add: send_step_def send_env_of_def all_well_def demo_send_def Let_def)
  have suggest: "\<exists>p. se_suggest ?env (ss_oracle s) = Some (p, BasicBox b)"
    using assms(1) by (simp add: send_env_of_def)
  have sign: "se_sign ?env m = Inr m" "se_bincode_len ?env m = Inr (length m)" for m
    by (simp_all add: send_env_of_def all_well_def demo_send_def)
  obtain rep s' where run: "simulate_build_and_send_with_report ?env dry s = Some (Inr rep, s')"
  proof -
    have "\<exists>rep s'. simulate_build_and_send_with_report ?env dry s = Some (Inr rep, s')"
      using suggest by (elim exE) (erule report_succeeds; use build sim send sign in auto)
    then show thesis using that by blast
  qed
  moreover have "\<exists>b. ss_oracle s' = BasicBox b"
    using run by (rule report_settings) (use suggest in auto)
  ultimately show ?thesis by blast
qed

lemma demo_oracle:
  assumes "build_setup demo_setup_env args = Some (Inr st)" and "ag_fee_oracle args = BasicCli"
  shows "\<exists>b. st_oracle st = BasicBox b"
  using build_setup_Inr(4) [OF assms(1)] assms(2) by (auto simp: fee_oracle_of_def dest: sym)

lemma demo_baseline:
  fixes env :: "(string, json, 's, nat, 'c, unit, unit, instruction list, instruction list, nat) run_env"
  assumes st: "build_setup demo_setup_env args = Some (Inr st)" and "st_intents st = [transfer_intent, transfer_intent]"
    and "ss_oracle s = BasicBox b"
  shows "\<exists>b' s'. run_baseline_once (all_well env) st dry (manager_of st ()) s = (BaselineDone b', s')"
proof -
  let ?env = "all_well env"
  have feed: "re_feed ?env = demo_feed" by (simp add: all_well_def)
  have "bp_refresh_every (st_blockhash_policy st) \<noteq> 0" using build_setup_Inr(8) [OF st] policy_bounds(3) by simp
  then have inv: "manager_inv (\<lambda>h. h = 7) demo_feed (manager_of st ())" by (rule manager_of_ok [OF demo_known(1)])
  have fun_eq: "manager_lease demo_feed = manager_lease_for_intents demo_feed []" by (rule ext) (simp add: manager_lease_for_intents_def)
  have report: "\<exists>rep s'. simulate_build_and_send_with_report ((send_env_of ?env)\<lparr>se_build := baseline_build ?env st h ui\<rparr>) dry s = Some (Inr rep, s')
      \<and> (\<exists>b. ss_oracle s' = BasicBox b)"
    if "ui \<in> set (st_intents st)" "\<exists>b. ss_oracle s = BasicBox b" for h ui and s :: "(boxed_oracle, unit, instruction list) sender_state"
    using that assms(2) demo_report build_setup_Inr(10) [OF st] by fastforce
  have lease: "\<exists>l p'. manager_lease_for_intents demo_feed [] p = (Inr l, p')" if "manager_inv (\<lambda>h. h = 7) demo_feed p" for p
    using demo_lease [OF that] by (simp add: fun_eq [symmetric])
  obtain acc p' s' where "baseline_loop (manager_lease_for_intents demo_feed []) manager_record_outcome (baseline_build ?env st)
      (send_env_of ?env) (st_safety st) dry (st_intents st) (manager_of st ()) s baseline_acc_new = (BaselineDone acc, p', s')"
  proof -
    have "\<exists>acc p' s'. baseline_loop (manager_lease_for_intents demo_feed []) manager_record_outcome (baseline_build ?env st)
        (send_env_of ?env) (st_safety st) dry (st_intents st) (manager_of st ()) s baseline_acc_new = (BaselineDone acc, p', s')"
      by (rule manager.baseline_loop_done [where good = "\<lambda>h. h = 7" and J = "\<lambda>s. \<exists>b. ss_oracle s = BasicBox b"])
        (use lease report inv assms(3) in auto)
    then show thesis using that by blast
  qed
  then show ?thesis by (simp add: run_baseline_once_def feed fun_eq)
qed

lemma rpc_base_url_mode: "rpc_base_url_of (args\<lparr>ag_mode := m\<rparr>) er = rpc_base_url_of args er"
  by (simp add: rpc_base_url_of_def split: option.split sum.split)

lemma build_setup_mode: "build_setup env (args\<lparr>ag_mode := m\<rparr>) = build_setup env args"
proof -
  let ?args = "args\<lparr>ag_mode := m\<rparr>"
  have "load_intents env ?args payer = load_intents env args payer" for payer
    by (simp add: load_intents_def mixed_intents_def Let_def cong: option.case_cong)
  moreover have "er_setup env ?args payer = er_setup env args payer" for payer
    by (simp add: er_setup_def er_config_of_def Let_def cong: option.case_cong sum.case_cong)
  moreover have "catalog_of env ?args = catalog_of env args" by (simp add: catalog_of_def cong: option.case_cong)
  moreover have "fee_oracle_of env ?args = fee_oracle_of env args"
    by (simp add: fee_oracle_of_def recent_oracle_of_def Let_def cong: fee_oracle_cli.case_cong option.case_cong)
  moreover have "tx_budget_of ?args = tx_budget_of args" "alt_policy_of ?args = alt_policy_of args"
    "blockhash_policy_of ?args = blockhash_policy_of args" "parallel_cfg_of ?args = parallel_cfg_of args"
    by (simp_all add: tx_budget_of_def alt_policy_of_def blockhash_policy_of_def parallel_cfg_of_def Let_def)
  moreover have "alt_manager_of ?args catalog = alt_manager_of args catalog" for catalog
    by (simp add: alt_manager_of_def alt_policy_of_def)
  moreover have "ag_payer ?args = ag_payer args" "ag_cu_scope ?args = ag_cu_scope args" "ag_fast_send ?args = ag_fast_send args"
    by simp_all
  ultimately show ?thesis unfolding build_setup_def by (simp only: rpc_base_url_mode cong: sum.case_cong option.case_cong if_cong)
qed

lemma er_run_total: "\<exists>r. er_run env st w r"
  using run_layers_total by (cases "st_er_config st") (auto simp: er_run_def run_er_once_def split: option.split)

lemma baseline_main_Done: "baseline_main er r = MainDone er' b \<Longrightarrow> er' = er \<and> (\<exists>br. r = BaselineDone br \<and> b = Some br)"
  by (cases r) auto

lemma main_runs_some: "\<exists>r calls. main_runs tenv env p args r calls"
proof (cases "build_setup tenv args")
  case None
  then show ?thesis using main_runs.setup_panics by blast
next
  case (Some res)
  show ?thesis
  proof (cases res)
    case (Inl e)
    then show ?thesis using Some main_runs.setup_fails by blast
  next
    case (Inr st)
    have st: "build_setup tenv args = Some (Inr st)" using Some Inr by simp
    show ?thesis
    proof (cases "ag_mode args = BaselineOnly")
      case True
      obtain r s where "run_baseline_once env st (ag_dry_run args) (manager_of st (ps_baseline_feed p)) (sender_of st (ps_rpc p)) = (r, s)"
        by force
      then show ?thesis using main_runs.baseline_only [OF st True] by blast
    next
      case er: False
      obtain r where run: "er_run env st (start_world p st) r"
        using er_run_total by blast
      show ?thesis
      proof (cases "er_error_of r")
        case None
        then obtain t w where finish: "er_run env st (start_world p st) (RunDone (t, w))" using run by (cases r) auto
        obtain b s where "run_baseline_once env st (ag_dry_run args) (manager_of st (ps_baseline_feed p)) (lw_sender w) = (b, s)" by force
        then show ?thesis using main_runs.er_only [OF st _ finish] main_runs.compare [OF st _ finish] er by (cases "ag_mode args") blast+
      next
        case (Some ew)
        then show ?thesis using main_runs.er_fails [OF st er run] by (cases ew) blast
      qed
    qed
  qed
qed

section \<open>Properties\<close>

text \<open>
  \<open>main\<close> has an outcome for every command line, deployment and outside world, in comparison mode as well, and a normal end has the
  results that the mode asks for. (Steps are not counted here; that a run of the rollup ends is shown in DriverRuns.)
\<close>

theorem main_ends:
  "\<exists>r calls. main_runs tenv env p args r calls
     \<and> (case r of
          MainFailed e \<Rightarrow> True
        | MainDone er b \<Rightarrow> (er \<noteq> None) = (ag_mode args \<noteq> BaselineOnly) \<and> (b \<noteq> None) = (ag_mode args \<noteq> ErOnly))"
proof -
  have results: "(er \<noteq> None) = (ag_mode args \<noteq> BaselineOnly) \<and> (b \<noteq> None) = (ag_mode args \<noteq> ErOnly)"
    if "main_runs tenv env p args (MainDone er b) calls" for er b calls
    using that by (rule main_runs_DoneE) (auto dest!: baseline_main_Done [OF sym])
  then show ?thesis using main_runs_some [of tenv env p args] by (fastforce split: main_outcome.split)
qed

lemma sender_of_log [simp]: "ss_log (sender_of st w) = []"
  by (simp add: sender_of_def sender_with_scope_def with_fast_send_def Let_def)

text \<open>
  C35: What \<open>main\<close> sends in baseline-only mode: one transaction for each of the first \<open>k\<close> intents, in the order of the input, each
  with exactly the intent's instruction after the two compute-budget instructions and over a blockhash that the RPC node
  answered; nothing in a dry run. If it ends normally, these are all intents, each has a report, and the total fee is
  the sum of the reports. If a call fails, the process fails, whatever it has sent before.
\<close>

theorem baseline_sends_each_intent:
  assumes "main_runs tenv env p args r calls" and "ag_mode args = BaselineOnly"
    and "feed_ok good (blockhash_policy_of args) (re_feed env)" and "build_setup tenv args = Some (Inr st)"
  shows "\<exists>k \<le> length (st_intents st).
      list_all2 (sent_for env st good) (if ag_dry_run args then [] else take k (st_intents st)) (sends calls)
    \<and> (case r of
         MainDone er b \<Rightarrow> er = None \<and> k = length (st_intents st)
           \<and> (\<exists>br. b = Some br \<and> length (br_reports br) = length (st_intents st)
                \<and> length (br_signatures br) = (if ag_dry_run args then 0 else length (st_intents st))
                \<and> br_fee_total br = sum_list (map tk_total_fee (br_reports br)))
       | MainFailed e \<Rightarrow> True)"
proof -
  from assms(1) obtain b s where run:
    "run_baseline_once env st (ag_dry_run args) (manager_of st (ps_baseline_feed p)) (sender_of st (ps_rpc p)) = (b, s)"
    "r = baseline_main None b" "calls = ss_log s"
    by (cases rule: main_runs.cases) (use assms(2,4) in auto)
  have policy: "feed_ok good (st_blockhash_policy st) (re_feed env)" "bp_refresh_every (st_blockhash_policy st) \<noteq> 0"
    using assms(3) build_setup_Inr(8) [OF assms(4)] policy_bounds(3) by simp_all
  from baseline_run [OF policy run(1)] obtain k where k: "k \<le> length (st_intents st)"
    "list_all2 (sent_for env st good) (if ag_dry_run args then [] else take k (st_intents st)) (sends calls)"
    "\<And>br. b = BaselineDone br \<Longrightarrow> k = length (st_intents st) \<and> length (br_reports br) = length (st_intents st)
      \<and> br_fee_total br = sum_list (map tk_total_fee (br_reports br))
      \<and> length (br_signatures br) = (if ag_dry_run args then 0 else length (st_intents st))"
    using run(3) by auto
  show ?thesis
  proof (intro exI [of _ k] conjI k(1,2))
    show "case r of
         MainDone er b \<Rightarrow> er = None \<and> k = length (st_intents st)
           \<and> (\<exists>br. b = Some br \<and> length (br_reports br) = length (st_intents st)
                \<and> length (br_signatures br) = (if ag_dry_run args then 0 else length (st_intents st))
                \<and> br_fee_total br = sum_list (map tk_total_fee (br_reports br)))
       | MainFailed e \<Rightarrow> True"
      using k(3) run(2) by (cases b) auto
  qed
qed

text \<open>The example, in any mode: the setup is the one of the demonstration.\<close>

abbreviation mode_args :: "run_mode \<Rightarrow> args" where
  "mode_args m \<equiv> demo_args\<lparr>ag_mode := m\<rparr>"

lemma mode_dry [simp]: "ag_dry_run (mode_args m) = False"
  by simp

lemma all_well_feed: "feed_ok (\<lambda>h. h = 7) policy (re_feed (all_well env))"
  by (simp add: all_well_def demo_known)

theorem baseline_sends_each_intent_witness:
  "\<exists>st. st_intents st = [transfer_intent, transfer_intent] \<and> build_setup demo_setup_env (mode_args BaselineOnly) = Some (Inr st)
     \<and> (\<forall>(env :: (string, json, 's, nat, 'c, unit, unit, instruction list, instruction list, nat) run_env) p. \<exists>b calls.
          main_runs demo_setup_env (all_well env) p (mode_args BaselineOnly) (MainDone None (Some b)) calls
          \<and> list_all2 (sent_for (all_well env) st (\<lambda>h. h = 7)) [transfer_intent, transfer_intent] (sends calls))"
proof -
  obtain st cfg where st: "build_setup demo_setup_env demo_args = Some (Inr st)" "st_er_config st = Some cfg"
    "st_intents st = [transfer_intent, transfer_intent]" by (rule demo_build_ok)
  have mode: "build_setup demo_setup_env (mode_args BaselineOnly) = Some (Inr st)" using st(1) by (simp add: build_setup_mode)
  show ?thesis
  proof (intro exI [of _ st] conjI allI st(3) mode)
    fix env :: "(string, json, 's, nat, 'c, unit, unit, instruction list, instruction list, nat) run_env"
      and p :: "('s, nat, 'c, unit, unit) process_start"
    obtain bo where "ss_oracle (sender_of st (ps_rpc p) :: (boxed_oracle, unit, instruction list) sender_state) = BasicBox bo"
      using demo_oracle [OF st(1)] by (auto simp: sender_of_def sender_with_scope_def with_fast_send_def Let_def)
    from demo_baseline [OF st(1,3) this, of env "ag_dry_run (mode_args BaselineOnly)"] obtain b s where
      run: "run_baseline_once (all_well env) st (ag_dry_run (mode_args BaselineOnly)) (manager_of st ()) (sender_of st (ps_rpc p))
        = (BaselineDone b, s)" by blast
    have finish: "main_runs demo_setup_env (all_well env) p (mode_args BaselineOnly) (MainDone None (Some b)) (ss_log s)"
      using main_runs.baseline_only [OF mode, of "all_well env" p "BaselineDone b" s] run by simp
    from baseline_sends_each_intent [OF finish _ all_well_feed mode]
    have "list_all2 (sent_for (all_well env) st (\<lambda>h. h = 7)) [transfer_intent, transfer_intent] (sends (ss_log s))"
      using st(3) by auto
    with finish show "\<exists>b calls. main_runs demo_setup_env (all_well env) p (mode_args BaselineOnly) (MainDone None (Some b)) calls
        \<and> list_all2 (sent_for (all_well env) st (\<lambda>h. h = 7)) [transfer_intent, transfer_intent] (sends calls)" by blast
  qed
qed

text \<open>
  C36: Comparison mode, the default, sends everything twice: if the run is not dry and ends normally, the rollup
  has sent every intent of every layer that reports no failure, and after that the baseline has sent each intent
  once more, in the order of the input.
\<close>

theorem compare_sends_twice:
  assumes "main_runs tenv env p args (MainDone (Some t) (Some b)) calls" and "\<not> ag_dry_run args"
    and "feed_ok good (blockhash_policy_of args) (re_feed env)" and "build_setup tenv args = Some (Inr st)"
  shows "\<exists>er_calls baseline_calls. calls = er_calls @ baseline_calls
    \<and> list_all2 (sent_for env st good) (st_intents st) (sends baseline_calls)
    \<and> (\<forall>i u. i < length (st_layers st) \<longrightarrow> u \<in> set (st_layers st ! i) \<longrightarrow> ly_failure (rt_summaries t ! i) = 0 \<longrightarrow>
         (\<exists>nids tx hash. u \<in> set nids \<and> tx \<in> set (sends er_calls)
            \<and> compiled env st (map (\<lambda>n. ui_ix (st_intents st ! n)) nids) hash tx))"
proof -
  from assms(1) obtain w s r where run: "er_run env st (start_world p st) (RunDone (t, w))"
    "run_baseline_once env st (ag_dry_run args) (manager_of st (ps_baseline_feed p)) (lw_sender w) = (BaselineDone b, s)"
    "calls = ss_log s"
    by (rule main_runs_DoneE) (use assms(4) in \<open>auto dest!: baseline_main_Done [OF sym]\<close>)
  have policy: "feed_ok good (st_blockhash_policy st) (re_feed env)" "bp_refresh_every (st_blockhash_policy st) \<noteq> 0"
    using assms(3) build_setup_Inr(8) [OF assms(4)] policy_bounds(3) by simp_all
  from baseline_run [OF policy run(2)] obtain evs where evs: "ss_log s = ss_log (lw_sender w) @ evs"
    "list_all2 (sent_for env st good) (st_intents st) (sends evs)"
    using assms(2) by auto
  have er: "\<exists>nids tx hash. u \<in> set nids \<and> tx \<in> set (sends (ss_log (lw_sender w)))
      \<and> compiled env st (map (\<lambda>n. ui_ix (st_intents st ! n)) nids) hash tx"
    if "i < length (st_layers st)" "u \<in> set (st_layers st ! i)" "ly_failure (rt_summaries t ! i) = 0" for i u
    using er_run_sends [OF assms(4) run(1) assms(2) that] by (fastforce simp: set_sends start_world_def)
  show ?thesis
    by (intro exI [of _ "ss_log (lw_sender w)"] exI [of _ evs] conjI) (use run(3) evs er in auto)
qed

lemma basic_kept: "sends_keep (\<lambda>s. \<exists>b. ss_oracle s = BasicBox b) (send_env_of env)"
  unfolding sends_keep_def
proof (intro allI impI)
  fix build dry s1 r s2
  assume basic: "\<exists>b. ss_oracle s1 = BasicBox b"
    and run: "simulate_build_and_send_with_report ((send_env_of env)\<lparr>se_build := build\<rparr>) dry s1 = Some (r, s2)"
  from run show "\<exists>b. ss_oracle s2 = BasicBox b"
    by (rule report_settings) (use basic in \<open>auto simp: send_env_of_def dest: sym\<close>)
qed

theorem compare_sends_twice_witness:
  "\<exists>st. st_intents st = [transfer_intent, transfer_intent] \<and> build_setup demo_setup_env (mode_args Compare) = Some (Inr st)
     \<and> (\<forall>(env :: (string, json, 's, nat, 'c, unit, unit, instruction list, instruction list, nat) run_env) p. \<exists>t b er_calls baseline_calls.
          main_runs demo_setup_env (all_well env) p (mode_args Compare) (MainDone (Some t) (Some b)) (er_calls @ baseline_calls)
          \<and> list_all2 (sent_for (all_well env) st (\<lambda>h. h = 7)) [transfer_intent, transfer_intent] (sends baseline_calls))"
proof -
  obtain st cfg where st: "build_setup demo_setup_env demo_args = Some (Inr st)" "st_er_config st = Some cfg"
    "st_intents st = [transfer_intent, transfer_intent]" by (rule demo_build_ok)
  have mode: "build_setup demo_setup_env (mode_args Compare) = Some (Inr st)" using st(1) by (simp add: build_setup_mode)
  show ?thesis
  proof (intro exI [of _ st] conjI allI st(3) mode)
    fix env :: "(string, json, 's, nat, 'c, unit, unit, instruction list, instruction list, nat) run_env"
      and p :: "('s, nat, 'c, unit, unit) process_start"
    let ?su = "er_run_setup (all_well env) st cfg"
    obtain t w where er: "run_er_once ?su (start_world p st) (RunDone (t, w))"
      using demo_runs [OF st(1,3)] by blast
    then have layers: "run_layers ?su 0 (st_layers st) (start_world p st) totals_zero (RunDone (t, w))" by (simp add: run_er_once_def)
    have "\<exists>bo. ss_oracle (lw_sender w) = BasicBox bo"
      by (rule run_sender [OF layers, where J = "\<lambda>s. \<exists>b. ss_oracle s = BasicBox b"])
        (use demo_oracle [OF st(1)] in \<open>auto simp: er_deps_of_def basic_kept start_scope_def start_world_def er_start_def sender_of_def
          sender_with_scope_def with_fast_send_def Let_def\<close>)
    then obtain bo where bo: "ss_oracle (lw_sender w) = BasicBox bo" ..
    from demo_baseline [OF st(1,3) bo, of env "ag_dry_run (mode_args Compare)"] obtain b s where
      run: "run_baseline_once (all_well env) st (ag_dry_run (mode_args Compare)) (manager_of st ()) (lw_sender w)
        = (BaselineDone b, s)" by blast
    have finish: "main_runs demo_setup_env (all_well env) p (mode_args Compare) (MainDone (Some t) (Some b)) (ss_log s)"
      using main_runs.compare [OF mode, of "all_well env" p t w "BaselineDone b" s] run er st(2) by (simp add: er_run_def)
    from compare_sends_twice [OF finish _ all_well_feed mode] obtain er_calls baseline_calls where
      "ss_log s = er_calls @ baseline_calls"
      "list_all2 (sent_for (all_well env) st (\<lambda>h. h = 7)) (st_intents st) (sends baseline_calls)" by auto
    with finish st(3) show "\<exists>t b er_calls baseline_calls.
        main_runs demo_setup_env (all_well env) p (mode_args Compare) (MainDone (Some t) (Some b)) (er_calls @ baseline_calls)
        \<and> list_all2 (sent_for (all_well env) st (\<lambda>h. h = 7)) [transfer_intent, transfer_intent] (sends baseline_calls)" by auto
  qed
qed

text \<open>
  Without \<open>--er-enabled\<close> every mode but baseline-only fails before its first RPC call of a transaction, so the command with only
  the required options always fails: its mode is the comparison, and the ER is off. The error is the missing ER
  context as soon as the setup is complete.
\<close>

theorem default_command_fails:
  assumes "main_runs tenv env p args r calls" and "ag_mode args \<noteq> BaselineOnly" and "\<not> ag_er_enabled args"
  shows "calls = [] \<and> (\<exists>e. r = MainFailed e \<and> ((\<exists>st. build_setup tenv args = Some (Inr st)) = (e = MainErContext)))
    \<and> ag_mode (args_default rpc payer) = Compare \<and> \<not> ag_er_enabled (args_default rpc payer)"
proof -
  have none: "st_er_config st = None" if "build_setup tenv args = Some (Inr st)" for st
    using build_setup_er [OF that] assms(3) by simp
  have "calls = [] \<and> (\<exists>e. r = MainFailed e \<and> ((\<exists>st. build_setup tenv args = Some (Inr st)) = (e = MainErContext)))"
    using assms(1,2) by (cases rule: main_runs.cases) (auto simp: er_run_def none)
  then show ?thesis by (simp add: args_default_def)
qed

theorem default_command_fails_witness:
  "\<exists>st. build_setup demo_setup_env (demo_args\<lparr>ag_er_enabled := False\<rparr>) = Some (Inr st)
     \<and> (\<forall>env p. main_runs demo_setup_env env p (demo_args\<lparr>ag_er_enabled := False\<rparr>) (MainFailed MainErContext) []
          \<and> (\<forall>r calls. main_runs demo_setup_env env p (demo_args\<lparr>ag_er_enabled := False\<rparr>) r calls \<longrightarrow>
               r = MainFailed MainErContext \<and> calls = []))"
proof -
  let ?args = "demo_args\<lparr>ag_er_enabled := False\<rparr>"
  have loaded: "load_intents demo_setup_env ?args 5 = Inr [transfer_intent, transfer_intent]"
    by (simp add: load_intents_def demo_setup_env_def demo_new_intent upt_rec)
  have er: "er_setup demo_setup_env ?args 5 = Some (Inr None)" by (simp add: er_setup_def)
  have payer: "te_read_keypair demo_setup_env (ag_payer ?args) = Inr 5" by (simp add: demo_setup_env_def)
  have cat: "catalog_of demo_setup_env ?args = Inr None" by (simp add: catalog_of_def)
  obtain ls where "dag_layers (dag_build (te_map_order demo_setup_env [transfer_intent, transfer_intent]) [transfer_intent, transfer_intent]) = Some (Inr ls)"
    using built.layers_returns by blast
  then obtain st where st: "build_setup demo_setup_env ?args = Some (Inr st)"
    using er cat loaded payer by (simp add: build_setup_def Let_def fee_oracle_of_def)
  have er_mode: "ag_mode ?args \<noteq> BaselineOnly" "\<not> ag_er_enabled ?args" by (simp_all add: demo_args_def args_default_def)
  show ?thesis
  proof (intro exI [of _ st] conjI allI impI st)
    fix env p
    have only: "r = MainFailed MainErContext \<and> calls = []" if "main_runs demo_setup_env env p ?args r calls" for r calls
      using default_command_fails [OF that er_mode] st by auto
    show "main_runs demo_setup_env env p ?args (MainFailed MainErContext) []"
      using main_runs_some [of demo_setup_env env p ?args] only by blast
    fix r calls assume "main_runs demo_setup_env env p ?args r calls"
    from only [OF this] show "r = MainFailed MainErContext" "calls = []" by simp_all
  qed
qed
end
