(* ===== verification/Report.thy ===== *)
theory Report
  imports BaselineRuns
begin

text \<open>
  What bundler/examples/rollup_cli.rs computes for its reports: the statistics of the latencies, the router's health, the
  difference of the RPC counters, the comparison of both runs and its self-check. A duration is a number of nanoseconds,
  a finite \<open>f64\<close> a rational number with rounding; the standard deviation, texts and the layout of the output are left out.
\<close>

section \<open>Statistics\<close>

definition percentile_duration :: "nat list \<Rightarrow> rat \<Rightarrow> nat option" where
  "percentile_duration values share =
     (if values = [] then None
      else let values = sort_key id values; n = length values
           in Some (values ! min (nat \<lceil>f64_mul (f64_of_nat n) share\<rceil> - 1) (n - 1)))"

text \<open>\<open>as_secs_f64\<close>, in milliseconds.\<close>

definition ms_of :: "nat \<Rightarrow> rat" where
  "ms_of d = f64_mul (f64_add (f64_of_nat (d div 10 ^ 9)) (f64_div (f64_of_nat (d mod 10 ^ 9)) (10 ^ 9))) 1000"

definition duration_to_ms :: "nat option \<Rightarrow> rat option" where
  "duration_to_ms value = map_option ms_of value"

definition f64_sum :: "rat list \<Rightarrow> rat" where
  "f64_sum xs = foldl f64_add 0 xs"

definition duration_variance :: "nat list \<Rightarrow> rat option" where
  "duration_variance values =
     (if values = [] then None
      else let ms = map ms_of values;
               mean = f64_div (f64_sum ms) (f64_of_nat (length ms))
           in Some (if length ms > 1
                    then f64_div (f64_sum (map (\<lambda>x. let delta = f64_sub x mean in f64_mul delta delta) ms)) (f64_of_nat (length ms))
                    else 0))"

record duration_stats =
  du_p50_ms :: "rat option"
  du_p95_ms :: "rat option"
  du_variance_ms :: "rat option"

definition build_duration_stats :: "nat list \<Rightarrow> duration_stats" where
  "build_duration_stats samples =
     (if samples = [] then \<lparr>du_p50_ms = None, du_p95_ms = None, du_variance_ms = None\<rparr>
      else \<lparr>du_p50_ms = duration_to_ms (percentile_duration samples (1 / 2)),
            du_p95_ms = duration_to_ms (percentile_duration samples (f64_round (95 / 100))),
            du_variance_ms = duration_variance samples\<rparr>)"

text \<open>\<open>a as f64 / b as f64\<close>, 0 if there is nothing to divide by.\<close>

definition ratio_of :: "u64 \<Rightarrow> u64 \<Rightarrow> rat" where
  "ratio_of a b = (if b > 0 then f64_div (f64_of_nat (unat a)) (f64_of_nat (unat b)) else 0)"

record router_health =
  rh_discovery_success_rate :: rat
  rh_discovery_p50_ms :: "rat option"
  rh_discovery_p95_ms :: "rat option"
  rh_cache_hit_rate :: rat
  rh_cache_hits :: u64
  rh_cache_misses :: u64
  rh_blockhash_cache_hit_rate :: rat
  rh_blockhash_cache_hits :: u64
  rh_blockhash_cache_misses :: u64
  rh_error_counts :: "(string \<times> u64) list"
  rh_blockhash_p50_ms :: "rat option"
  rh_blockhash_p95_ms :: "rat option"

definition router_health_from_summary :: "er_telemetry_summary \<Rightarrow> router_health" where
  "router_health_from_summary summary =
     (let c = su_counters summary
      in \<lparr>rh_discovery_success_rate = ratio_of (tl_routes_ok c) (tl_routes_ok c + tl_routes_err c),
          rh_discovery_p50_ms = su_route_ms_p50 summary, rh_discovery_p95_ms = su_route_ms_p95 summary,
          rh_cache_hit_rate = ratio_of (tl_router_cache_hits c) (tl_router_cache_hits c + tl_router_cache_misses c),
          rh_cache_hits = tl_router_cache_hits c, rh_cache_misses = tl_router_cache_misses c,
          rh_blockhash_cache_hit_rate =
            ratio_of (tl_blockhash_cache_hits c) (tl_blockhash_cache_hits c + tl_blockhash_cache_misses c),
          rh_blockhash_cache_hits = tl_blockhash_cache_hits c, rh_blockhash_cache_misses = tl_blockhash_cache_misses c,
          rh_error_counts = su_router_error_kinds summary,
          rh_blockhash_p50_ms = su_bhfa_ms_p50 summary, rh_blockhash_p95_ms = su_bhfa_ms_p95 summary\<rparr>)"

definition sat_sub :: "u64 \<Rightarrow> u64 \<Rightarrow> u64" where
  "sat_sub a b = (if b \<le> a then a - b else 0)"

definition rpc_metrics_diff :: "rpc_metrics \<Rightarrow> rpc_metrics \<Rightarrow> rpc_metrics" where
  "rpc_metrics_diff after before =
     \<lparr>rm_simulate = sat_sub (rm_simulate after) (rm_simulate before),
      rm_is_blockhash_valid = sat_sub (rm_is_blockhash_valid after) (rm_is_blockhash_valid before),
      rm_get_latest_blockhash = sat_sub (rm_get_latest_blockhash after) (rm_get_latest_blockhash before),
      rm_send_transaction = sat_sub (rm_send_transaction after) (rm_send_transaction before),
      rm_get_recent_prioritization_fees =
        sat_sub (rm_get_recent_prioritization_fees after) (rm_get_recent_prioritization_fees before)\<rparr>"

section \<open>The result of a run\<close>

definition avg_of :: "u64 \<Rightarrow> nat \<Rightarrow> rat option" where
  "avg_of amount n = (if n > 0 then Some (f64_div (f64_of_nat (unat amount)) (f64_of_nat n)) else None)"

definition plan_fingerprint_coverage :: "('u, 'sig) run_totals \<Rightarrow> rat" where
  "plan_fingerprint_coverage t =
     (if rt_chunks_total t > 0
      then f64_div (f64_of_nat (rt_plan_fingerprint_real t)) (f64_of_nat (rt_chunks_total t)) else 0)"

definition er_success_rate :: "er_telemetry_summary option \<Rightarrow> rat" where
  "er_success_rate summary = (case summary of None \<Rightarrow> 0 | Some s \<Rightarrow> su_success_rate s)"

definition er_fallback_rate :: "er_telemetry_summary option \<Rightarrow> rat" where
  "er_fallback_rate summary =
     (case summary of None \<Rightarrow> 0
      | Some s \<Rightarrow> ratio_of (tl_fallbacks (su_counters s)) (tl_sessions (su_counters s)))"

text \<open>The closing note of the ER report; the reasons are a sorted set in the code.\<close>

datatype er_note = SimulatedOnly "string set" | ErUnavailable | ErInactive "string set"

definition note_reasons :: "'u er_chunk_row list \<Rightarrow> string set" where
  "note_reasons rows =
     set (concat (map (\<lambda>row.
       if rw_session_established row then []
       else case rw_reason row of
              Some reason \<Rightarrow> [reason]
            | None \<Rightarrow> (if rw_er_attempted row then [''unspecified (inspect logs)''] else [])) rows))"

definition er_note_of :: "bool \<Rightarrow> ('u, 'sig) run_totals \<Rightarrow> er_note option" where
  "er_note_of er_enabled t =
     (if er_enabled \<and> rt_real_chunks t = 0
      then let reasons = note_reasons (rt_rows t)
           in if rt_simulated_chunks t > 0 then Some (SimulatedOnly reasons)
              else if reasons = {} then Some ErUnavailable
              else Some (ErInactive reasons)
      else None)"

section \<open>The comparison\<close>

text \<open>\<open>as i64\<close> keeps the bits and the subtraction wraps; \<open>sint\<close> reads the difference.\<close>

definition f64_of_int :: "int \<Rightarrow> rat" where
  "f64_of_int k = f64_round (of_int k)"

record comparison =
  co_fee_delta :: "64 word"
  co_fee_savings_pct :: rat
  co_fee_savings_ratio :: rat
  co_er_fee_avg :: "rat option"
  co_er_cu_avg :: "rat option"
  co_baseline_cu_total :: u64
  co_baseline_cu_avg :: "rat option"

definition comparison_of :: "('u, 'sig) run_totals \<Rightarrow> 'b baseline_result \<Rightarrow> comparison" where
  "comparison_of t b =
     (let fee_delta = br_fee_total b - rt_fee_total t;
          share = f64_div (f64_of_int (sint fee_delta)) (f64_of_nat (unat (br_fee_total b)));
          baseline_cu_total = sum_list (map (\<lambda>tx. ucast (tk_used_cu tx)) (br_reports b))
      in \<lparr>co_fee_delta = fee_delta, co_fee_savings_pct = (if br_fee_total b > 0 then f64_mul share 100 else 0),
          co_fee_savings_ratio = (if br_fee_total b > 0 then max share 0 else 0),
          co_er_fee_avg = avg_of (rt_fee_total t) (rt_real_chunks t), co_er_cu_avg = avg_of (rt_cu_total t) (rt_real_chunks t),
          co_baseline_cu_total = baseline_cu_total, co_baseline_cu_avg = avg_of baseline_cu_total (br_tx_count b)\<rparr>)"

datatype self_check_failure = FeeSavingsBelow rat | ExecP95Exceeds rat | ExecP95Unavailable

definition fee_based_self_check_failures :: "rat \<Rightarrow> rat option \<Rightarrow> self_check_failure list" where
  "fee_based_self_check_failures fee_savings_ratio er_exec_p95_ms =
     (if fee_savings_ratio < 1 / 2 then [FeeSavingsBelow fee_savings_ratio] else []) @
     (case er_exec_p95_ms of
        Some value \<Rightarrow> (if value \<le> 500 then [] else [ExecP95Exceeds value])
      | None \<Rightarrow> [ExecP95Unavailable])"

text \<open>The lengths of the two bars of a graph, and whether the first is green.\<close>

definition bar_len :: "u64 \<Rightarrow> u64 \<Rightarrow> nat" where
  "bar_len v maxv = nat \<lfloor>f64_round_int (f64_mul (f64_div (f64_of_nat (unat v)) (f64_of_nat (unat maxv))) 40)\<rfloor>"

definition draw_pair_bars :: "u64 \<Rightarrow> u64 \<Rightarrow> nat \<times> nat \<times> bool" where
  "draw_pair_bars er baseline =
     (let maxv = max (max er baseline) 1 in (bar_len er maxv, bar_len baseline maxv, er \<le> baseline))"

section \<open>Lemmas\<close>

lemma sorted_rank:
  assumes "sorted xs" and "k < length xs"
  shows "Suc k \<le> length (filter (\<lambda>x. x \<le> xs ! k) xs)" and "length xs - k \<le> length (filter (\<lambda>x. xs ! k \<le> x) xs)"
proof -
  have "{..k} \<subseteq> {i. i < length xs \<and> xs ! i \<le> xs ! k}" using assms by (auto intro: sorted_nth_mono)
  then have "card {..k} \<le> card {i. i < length xs \<and> xs ! i \<le> xs ! k}" by (rule card_mono [rotated]) simp
  then show "Suc k \<le> length (filter (\<lambda>x. x \<le> xs ! k) xs)" by (simp add: length_filter_conv_card)
  have "{k..<length xs} \<subseteq> {i. i < length xs \<and> xs ! k \<le> xs ! i}" using assms by (auto intro: sorted_nth_mono)
  then have "card {k..<length xs} \<le> card {i. i < length xs \<and> xs ! k \<le> xs ! i}" by (rule card_mono [rotated]) simp
  then show "length xs - k \<le> length (filter (\<lambda>x. xs ! k \<le> x) xs)" by (simp add: length_filter_conv_card)
qed

lemma filter_sort_length: "length (filter P (sort_key id xs)) = length (filter P xs)"
proof -
  have "mset (filter P (sort_key id xs)) = mset (filter P xs)" by simp
  then show ?thesis by (rule mset_eq_length)
qed

text \<open>The rank of a percentile: the value at a given position of the sorted samples.\<close>

lemma percentile_rank:
  assumes "vs \<noteq> []"
  obtains v where "percentile_duration vs share = Some v" "v \<in> set vs"
    "v = sort_key id vs ! min (nat \<lceil>f64_mul (f64_of_nat (length vs)) share\<rceil> - 1) (length vs - 1)"
    "min (nat \<lceil>f64_mul (f64_of_nat (length vs)) share\<rceil>) (length vs) \<le> length (filter (\<lambda>x. x \<le> v) vs)"
    "length vs - min (nat \<lceil>f64_mul (f64_of_nat (length vs)) share\<rceil> - 1) (length vs - 1) \<le> length (filter (\<lambda>x. v \<le> x) vs)"
proof -
  let ?s = "sort_key id vs" and ?c = "nat \<lceil>f64_mul (f64_of_nat (length vs)) share\<rceil>"
  let ?k = "min (?c - 1) (length vs - 1)"
  have k: "?k < length ?s" using assms by (cases vs) (auto simp: min_less_iff_disj)
  have sorted: "sorted ?s" using sorted_sort_key [of id vs] by (simp add: map_idI)
  have "percentile_duration vs share = Some (?s ! ?k)" using assms by (simp add: percentile_duration_def Let_def)
  moreover have "?s ! ?k \<in> set vs" using nth_mem [OF k] by simp
  moreover have "min ?c (length vs) \<le> Suc ?k" by auto
  moreover have "Suc ?k \<le> length (filter (\<lambda>x. x \<le> ?s ! ?k) vs)" "length vs - ?k \<le> length (filter (\<lambda>x. ?s ! ?k \<le> x) vs)"
    using sorted_rank [OF sorted k] by (simp_all only: filter_sort_length length_sort)
  ultimately show thesis by (intro that [OF _ _ refl]) (assumption | rule le_trans)+
qed

text \<open>The positions of the median and of the 95th percentile.\<close>

lemma median_position:
  assumes "0 < n" and "n < 2 ^ 40"
  shows "nat \<lceil>f64_mul (f64_of_nat n) (1 / 2)\<rceil> = (n + 1) div 2"
proof -
  let ?x = "of_nat n / 2 :: rat"
  have n: "f64_of_nat n = of_nat n" by (rule f64_of_nat_exact) (use assms(2) in simp)
  have "\<bar>f64_round ?x - ?x\<bar> \<le> ?x / 2 ^ 53" by (rule f64_round_error) (use assms(1) in simp)
  moreover have "(of_nat n :: rat) < of_nat (2 ^ 40)" using assms(2) by (simp only: of_nat_less_iff)
  ultimately have near: "\<bar>f64_round ?x - ?x\<bar> < 1 / 4" by simp
  have "\<lceil>f64_round ?x\<rceil> = int ((n + 1) div 2)"
  proof (cases "even n")
    case True
    then obtain k where k: "n = 2 * k" by (elim evenE)
    have "f64_of_nat k = of_nat k" by (rule f64_of_nat_exact) (use assms(2) k in simp)
    then have "f64_round ?x = of_nat k" by (simp add: f64_of_nat_def k)
    then show ?thesis using k by simp
  next
    case False
    then obtain k where k: "n = 2 * k + 1" by (elim oddE)
    have x: "?x = of_nat k + 1 / 2" by (simp add: k field_simps)
    have "of_nat k < f64_round ?x" "f64_round ?x \<le> of_nat k + 1" using near unfolding x by linarith+
    then have "\<lceil>f64_round ?x\<rceil> = int k + 1" by (intro ceiling_unique) simp_all
    then show ?thesis using k by simp
  qed
  then show ?thesis by (simp add: f64_mul_def n)
qed

lemma p95_position:
  assumes "0 < n" and "n < 2 ^ 40"
  shows "19 * n \<le> 20 * nat \<lceil>f64_mul (f64_of_nat n) (f64_round (95 / 100))\<rceil>"
    and "nat \<lceil>f64_mul (f64_of_nat n) (f64_round (95 / 100))\<rceil> \<le> n"
    and "20 * nat \<lceil>f64_mul (f64_of_nat n) (f64_round (95 / 100))\<rceil> \<le> 19 * n + 20"
proof -
  let ?p = "f64_round (95 / 100)" and ?n = "of_nat n :: rat"
  let ?y = "f64_round (?n * ?p)"
  have n: "f64_of_nat n = ?n" by (rule f64_of_nat_exact) (use assms(2) in simp)
  have "0 < ?n" using assms(1) by simp
  have less: "?n < 2 ^ 40"
  proof -
    have "?n < of_nat (2 ^ 40)" using assms(2) by (simp only: of_nat_less_iff)
    then show ?thesis by simp
  qed
  have p: "\<bar>?p - 95 / 100\<bar> \<le> 95 / 100 / 2 ^ 53" by (rule f64_round_error) simp
  have "\<bar>?p - 95 / 100\<bar> \<le> 1 / 100" using p by (rule order_trans) simp
  then have p1: "?p \<le> 1" "9 / 10 \<le> ?p" by linarith+
  have "0 < ?n * ?p" using \<open>0 < ?n\<close> p1 by simp
  then have y: "\<bar>?y - ?n * ?p\<bar> \<le> ?n * ?p / 2 ^ 53" by (rule f64_round_error)
  have "?n * ?p \<le> ?n" using \<open>0 < ?n\<close> p1 by simp
  have "?n * (95 / 100 - 95 / 100 / 2 ^ 53) \<le> ?n * ?p" using abs_le_D2 [OF p] \<open>0 < ?n\<close> by (intro mult_left_mono) linarith+
  moreover have "?n * ?p - ?n / 2 ^ 53 \<le> ?y"
  proof -
    have "?n * ?p / 2 ^ 53 \<le> ?n / 2 ^ 53" using \<open>?n * ?p \<le> ?n\<close> by (rule divide_right_mono) simp
    with abs_le_D2 [OF y] show ?thesis by linarith
  qed
  ultimately have low: "95 / 100 * ?n - 1 / 100 < ?y" using less by simp
  have "?n * ?p \<le> ?n * (95 / 100 + 95 / 100 / 2 ^ 53)" using abs_le_D1 [OF p] \<open>0 < ?n\<close> by (intro mult_left_mono) linarith+
  moreover have "?y \<le> ?n * ?p + ?n / 2 ^ 53"
  proof -
    have "?n * ?p / 2 ^ 53 \<le> ?n / 2 ^ 53" using \<open>?n * ?p \<le> ?n\<close> by (rule divide_right_mono) simp
    with abs_le_D1 [OF y] show ?thesis by linarith
  qed
  ultimately have high: "?y < 95 / 100 * ?n + 1 / 100" using less by simp
  have "?y \<le> of_int (int n)" by (rule f64_round_le_int) (use \<open>0 < ?n * ?p\<close> \<open>?n * ?p \<le> ?n\<close> less in simp_all)
  then have "\<lceil>?y\<rceil> \<le> int n" by (simp add: ceiling_le_iff)
  then show "nat \<lceil>f64_mul (f64_of_nat n) ?p\<rceil> \<le> n" by (simp add: f64_mul_def n)
  have "?y \<le> of_int \<lceil>?y\<rceil>" by (rule le_of_int_ceiling)
  with low have "95 / 100 * ?n - 1 / 100 < of_int \<lceil>?y\<rceil>" by linarith
  then have "(of_int (19 * int n) :: rat) < of_int (20 * \<lceil>?y\<rceil> + 1)" by simp
  then have "19 * int n < 20 * \<lceil>?y\<rceil> + 1" by (simp only: of_int_less_iff)
  then show "19 * n \<le> 20 * nat \<lceil>f64_mul (f64_of_nat n) ?p\<rceil>" using assms(1) by (simp add: f64_mul_def n)
  have "of_int \<lceil>?y\<rceil> < ?y + 1" by linarith
  with high have "of_int \<lceil>?y\<rceil> < 95 / 100 * ?n + 1 + 1 / 100" by linarith
  then have "(of_int (20 * \<lceil>?y\<rceil>) :: rat) < of_int (19 * int n + 21)" by simp
  then have "20 * \<lceil>?y\<rceil> < 19 * int n + 21" by (simp only: of_int_less_iff)
  then show "20 * nat \<lceil>f64_mul (f64_of_nat n) ?p\<rceil> \<le> 19 * n + 20" by (simp add: f64_mul_def n)
qed

section \<open>Properties\<close>

text \<open>
  C40: The percentiles of a run's latencies (fewer than \<open>2 ^ 40\<close> samples, with the rounding of \<open>f64\<close>): both are samples, at least
  half of the samples are at most and at least half of them at least the median; at least 95 per cent are at most and at least
  5 per cent of them at least the 95th percentile; the median is not above it.
\<close>

theorem percentiles_correct:
  assumes "vs \<noteq> []" and "length vs < 2 ^ 40"
  shows "\<exists>p50 p95. build_duration_stats vs =
      \<lparr>du_p50_ms = Some (ms_of p50), du_p95_ms = Some (ms_of p95), du_variance_ms = duration_variance vs\<rparr>
    \<and> {p50, p95} \<subseteq> set vs \<and> p50 \<le> p95
    \<and> length vs \<le> 2 * length (filter (\<lambda>x. x \<le> p50) vs) \<and> length vs \<le> 2 * length (filter (\<lambda>x. p50 \<le> x) vs)
    \<and> 19 * length vs \<le> 20 * length (filter (\<lambda>x. x \<le> p95) vs) \<and> length vs \<le> 20 * length (filter (\<lambda>x. p95 \<le> x) vs)"
proof -
  let ?n = "length vs"
  have n: "0 < ?n" using assms(1) by simp
  obtain p50 where p50: "percentile_duration vs (1 / 2) = Some p50" "p50 \<in> set vs"
    "p50 = sort_key id vs ! min ((?n + 1) div 2 - 1) (?n - 1)"
    "min ((?n + 1) div 2) ?n \<le> length (filter (\<lambda>x. x \<le> p50) vs)"
    "?n - min ((?n + 1) div 2 - 1) (?n - 1) \<le> length (filter (\<lambda>x. p50 \<le> x) vs)"
    using percentile_rank [OF assms(1), of "1 / 2"] unfolding median_position [OF n assms(2)] by metis
  let ?c = "nat \<lceil>f64_mul (f64_of_nat ?n) (f64_round (95 / 100))\<rceil>"
  note c = p95_position [OF n assms(2)]
  obtain p95 where p95: "percentile_duration vs (f64_round (95 / 100)) = Some p95" "p95 \<in> set vs"
    "p95 = sort_key id vs ! min (?c - 1) (?n - 1)" "min ?c ?n \<le> length (filter (\<lambda>x. x \<le> p95) vs)"
    "?n - min (?c - 1) (?n - 1) \<le> length (filter (\<lambda>x. p95 \<le> x) vs)"
    using percentile_rank [OF assms(1), of "f64_round (95 / 100)"] by metis
  have sorted: "sorted (sort_key id vs)" using sorted_sort_key [of id vs] by (simp add: map_idI)
  have "(?n + 1) div 2 \<le> ?c" using c(1) n by linarith
  then have "min ((?n + 1) div 2 - 1) (?n - 1) \<le> min (?c - 1) (?n - 1)" by auto
  then have "p50 \<le> p95" unfolding p50(3) p95(3) by (rule sorted_nth_mono [OF sorted]) (use n in \<open>simp add: min_less_iff_disj\<close>)
  moreover have "?n \<le> 2 * length (filter (\<lambda>x. x \<le> p50) vs)" "?n \<le> 2 * length (filter (\<lambda>x. p50 \<le> x) vs)"
    using p50(4,5) n by linarith+
  moreover have "19 * ?n \<le> 20 * length (filter (\<lambda>x. x \<le> p95) vs)" using p95(4) c by linarith
  moreover have "?n \<le> 20 * length (filter (\<lambda>x. p95 \<le> x) vs)" using p95(5) c n by linarith
  ultimately show ?thesis
    using assms(1) p50(1,2) p95(1,2) by (intro exI [of _ p50] exI [of _ p95]) (simp add: build_duration_stats_def duration_to_ms_def)
qed

theorem percentiles_correct_witness:
  "\<exists>p50 p95. build_duration_stats [30, 10, 20] =
      \<lparr>du_p50_ms = Some (ms_of p50), du_p95_ms = Some (ms_of p95), du_variance_ms = duration_variance [30, 10, 20]\<rparr>
    \<and> {p50, p95} \<subseteq> {30, 10, 20} \<and> p50 \<le> p95"
  using percentiles_correct [of "[30, 10, 20]"] by auto

lemma f64_of_small: "n < 2 ^ 53 \<Longrightarrow> f64_of_int (int n) = of_nat n"
  using f64_of_nat_exact [of n] by (simp add: f64_of_int_def f64_of_nat_def)

lemma f64_round_nat: "n < 2 ^ 53 \<Longrightarrow> f64_round (of_nat n) = of_nat n"
  using f64_of_nat_exact [of n] by (simp add: f64_of_nat_def)

lemma f64_div_self: "x \<noteq> 0 \<Longrightarrow> f64_div x x = 1"
  using f64_round_nat [of 1] by (simp add: f64_div_def)

lemma run_er_once_totals: "run_er_once su w (RunDone (t, w')) \<Longrightarrow> totals_ok t"
  using run_layers_totals [OF _ totals_ok_zero refl, of su 0 "rs_layers su" w t w'] by (auto simp: run_er_once_def split: option.splits)

text \<open>
  C38: If no chunk of the rollup ran at the ER and the fee of the baseline is positive and below \<open>2 ^ 53\<close>, the transactions of the
  rollup cost nothing in the comparison: whatever they cost, the report claims that all of the baseline's fee was saved, 100 per
  cent, and the check of the savings passes. The self-check with the ER's execution times then reports nothing but that the
  95th percentile is missing or too high; without samples, as when no chunk ran at the ER, exactly that it is missing.
\<close>

theorem compare_claims_full_savings:
  assumes "run_er_once su w (RunDone (t, w'))" and "list_all (\<lambda>row. \<not> rw_session_established row) (rt_rows t)"
    and "0 < br_fee_total b" and "unat (br_fee_total b) < 2 ^ 53"
  shows "let c = comparison_of t b
    in co_fee_delta c = br_fee_total b \<and> co_fee_savings_pct c = 100 \<and> co_fee_savings_ratio c = 1 \<and> co_er_fee_avg c = None
      \<and> fee_based_self_check_failures (co_fee_savings_ratio c) None = [ExecP95Unavailable]
      \<and> (\<forall>p95. FeeSavingsBelow r \<notin> set (fee_based_self_check_failures (co_fee_savings_ratio c) p95))"
proof -
  let ?fee = "unat (br_fee_total b)"
  have ok: "totals_ok t" by (rule run_er_once_totals [OF assms(1)])
  have rows: "filter ran_er (zip (rt_rows t) (rt_reports t)) = []" "filter rw_session_established (rt_rows t) = []"
    using assms(2) by (auto simp: filter_empty_conv ran_er_def list_all_iff dest: set_zip_leftD)
  have none: "rt_fee_total t = 0" "rt_real_chunks t = 0" using ok rows by (simp_all add: totals_ok_def)
  have pos: "0 < ?fee" using assms(3) by (simp add: unat_gt_0)
  have uint: "uint (br_fee_total b) = int ?fee" by (rule uint_nat)
  have "int ?fee < 2 ^ 53" using assms(4) by (simp only: of_nat_less_iff [symmetric, where ?'a = int]) simp
  then have "uint (br_fee_total b) < 2 ^ 53" using uint by linarith
  then have "sint (br_fee_total b) = uint (br_fee_total b)"
    unfolding sint_uint by (intro signed_take_bit_int_eq_self) (simp_all add: order_trans [OF _ uint_ge_0])
  then have sint: "sint (br_fee_total b) = int ?fee" using uint by linarith
  obtain n where n: "n = ?fee" by simp
  have "0 < n" "n < 2 ^ 53" using pos assms(4) by (simp_all add: n)
  then have "f64_div (f64_of_int (int n)) (f64_of_nat n) = 1"
    using f64_of_small [of n] f64_of_nat_exact [of n] by (simp add: f64_div_self)
  then have "f64_div (f64_of_int (sint (br_fee_total b))) (f64_of_nat ?fee) = 1" unfolding sint n .
  moreover have "f64_mul 1 100 = 100" using f64_round_nat [of 100] by (simp add: f64_mul_def)
  ultimately show ?thesis
    using none assms(3) by (auto simp: comparison_of_def Let_def avg_of_def fee_based_self_check_failures_def split: option.split)
qed

definition demo_baseline_result :: "nat baseline_result" where
  "demo_baseline_result =
     \<lparr>br_reports = [], br_signatures = [], br_dag_layer_sizes = [1, 1], br_dag_node_count = 2, br_fee_total = 10000,
      br_fee_avg = None, br_tx_count = 2, br_blockhash_metrics = blockhash_metrics_default, br_rpc_fallback = 2\<rparr>"

theorem compare_claims_full_savings_witness:
  "\<exists>t w'. run_er_once (demo_setup unlucky_deps) demo_world (RunDone (t, w')) \<and> length (rt_reports t) = 1
     \<and> co_fee_savings_pct (comparison_of t demo_baseline_result) = 100"
proof -
  obtain t w0 s1 where run: "run_er_once (demo_setup unlucky_deps) demo_world (RunDone (t, ls_world s1))"
    and rows: "map rw_session_established (rt_rows t) = [False]"
    and "layer_reaches unlucky_deps (layer_config (demo_layer_config False) [pair_plan 1]) [pair_plan 1] (begin_layer w0) s1"
    using unlucky_run by (elim exE conjE) (rule that)
  have fee: "0 < br_fee_total demo_baseline_result" "unat (br_fee_total demo_baseline_result) < 2 ^ 53"
    by (simp_all add: demo_baseline_result_def)
  obtain row where row: "rt_rows t = [row]" "\<not> rw_session_established row" using rows by auto
  have "length (rt_rows t) = length (rt_reports t)" using run_er_once_totals [OF run] by (simp add: totals_ok_def)
  then have one: "length (rt_reports t) = 1" using row by simp
  have "list_all (\<lambda>row. \<not> rw_session_established row) (rt_rows t)" using row by simp
  from compare_claims_full_savings [OF run this fee] have "co_fee_savings_pct (comparison_of t demo_baseline_result) = 100"
    by (simp add: Let_def)
  with run one show ?thesis by blast
qed

text \<open>The telemetry's percentile and the driver's take different ranks.\<close>

lemma percentiles_disagree:
  "percentile [10, 20] (f64_round (1 / 2)) = Some 20" "percentile_duration [10, 20] (1 / 2) = Some 10"
  by code_simp+

end
