(* ===== verification/Spec2Isabelle.thy ===== *)
theory Spec2Isabelle
  imports Bundles Estimator DagOrder Chunking Occ Alt Fee Serializer Sender Blockhash DriverRuns DeployRuns BaselineRuns Report Probe
begin

text \<open>
  A verification library of CPSR-Lite, a rollup driver for Solana written in Rust.

  \<^bold>\<open>The program.\<close> A run takes a list of intents (an instruction, its accesses, a priority).
  \<open>Dag::build\<close> orders intents that touch the same account, \<open>Dag::layers\<close> cuts the order into
  layers, \<open>chunk_layer_with\<close> cuts a layer into chunks under a transaction budget, and
  \<open>send_layer_parallel\<close> sends the chunks of a layer with several tasks at once. A chunk may first be executed
  at an ephemeral rollup (ER) through a router; then it captures the account versions (OCC), resolves lookup tables, leases
  a blockhash and goes through the sender, which simulates, tightens the compute-unit limit, rebuilds, signs and sends. The
  driver rollup_cli sets all of this up from its command line, runs the rollup, a baseline with one transaction for each
  intent, or both, and reports on them.

  \<^bold>\<open>The theories\<close>, with the code they model:
  \<^item> Prelude: lemmas on lists, words, maps and decimal texts, the fact collections.
  \<^item> Hashing (crates/types/src/hash.rs, merkle.rs), Intents and Codec (intent.rs, serde.rs), Bundles (version.rs,
    bundle.rs): BLAKE3 is a parameter; what an id binds holds for a hash without collisions.
  \<^item> Estimator (crates/estimator/src): safety margins, compute units, message sizes.
  \<^item> Dag and DagOrder (bundler/src/dag/mod.rs): the edges, Kahn's order, the layers. The locale
    \<open>ranked_dag\<close> holds what the traversals rely on; it is interpreted for \<open>dag_build\<close>.
  \<^item> Chunking (chunking/mod.rs), Occ (occ/mod.rs, occ/rpc_fetcher.rs), Alt (alt.rs, alt/table_catalog.rs), Fee
    (fee.rs, fee_oracles/recent.rs), Serializer (serializer.rs, serializer/precheck.rs), Metrics and Sender (sender.rs). The
    locale \<open>fee_oracle\<close> is the contract of an oracle towards the sender; both oracles of the code and their box
    interpret it.
  \<^item> Blockhash (pipeline/blockhash.rs): the lease as steps between lock operations, and all interleavings of calls.
    Provider (the providers of the same file, er/bhfa.rs): the locale \<open>lease_provider\<close> is their contract
    towards the baseline, interpreted for the manager and for the router-aware provider.
  \<^item> Router, Telemetry and Er (er/mod.rs): requests with retries and circuit breaker, counters, the ER client. ErStage
    and Merge (pipeline/rollup.rs): the ER stage of a chunk, with the locale \<open>er_client_contract\<close> interpreted
    for the HTTP client; the merging of small chunks.
  \<^item> Rollup (\<open>process_chunk\<close>), Layer (\<open>send_layer_parallel\<close> as a step relation of tasks,
    permits and panics) and LayerSends (what a layer puts into the log, and that it always comes to an end).
  \<^item> Driver (\<open>run_er_once\<close> of bundler/examples/rollup_cli.rs) and DriverRuns (the same loop step by
    step), Probe (the requests the setup makes to the router), Deploy (the command line and
    \<open>SharedSetup::build\<close>, which runs the probes), DeployRuns, Baseline (\<open>run_baseline_once\<close>,
    \<open>main\<close>), BaselineRuns, Report (statistics, comparison, self-check).

  \<^bold>\<open>How it is modelled.\<close> Structs are records, enums datatypes, \<open>u8\<close> to \<open>u64\<close>
  words that wrap or saturate as the code says; \<open>usize\<close> is a natural number, capped where the code saturates.
  Errors are the left side of a sum, a panic is the outer \<open>None\<close>. State goes in and comes out of every
  operation; the outside world (RPC node, router, clock, jitter, JSON, URLs, base58, signatures, the message compiler, the
  iteration order of hash maps) is a type variable with functions on it, in records such as \<open>send_env\<close>,
  \<open>er_env\<close>, \<open>setup_env\<close> and \<open>run_env\<close>. A finite \<open>f64\<close> is a rational with
  the rounding to 53 bits. What is nondeterministic in the code is a relation here: \<open>bh_step\<close> for concurrent
  leases, \<open>layer_step\<close> for the tasks of a layer, \<open>run_layers\<close> for a run, \<open>run_step\<close>
  for its single steps (with the same outcomes: \<open>run_iff\<close>) and \<open>main_runs\<close> for the process. Each
  RPC call of the sender and each HTTP request is logged in its order; the properties of what is sent are stated over these
  logs.

  \<^bold>\<open>What runs alone.\<close> In \<open>layer_step\<close> an attempt of a task is two steps between which other tasks may
  run, its ER stage and, with a permit, the rest; the lease that a provider gives in the second one (\<open>manager_lease\<close>) runs to
  its end. The code may switch tasks at each \<open>await\<close> inside these steps too. The interleavings of ER stages, permits, retries,
  sleeps and panics are all there, those inside a step are not. So nothing is claimed of a layer that these could break: no
  property says which hash a lease of a rollup run holds, and concurrent leases are treated lock operation by lock operation
  in Blockhash, where a lease may come out as the default hash. Where the hash of a transaction comes from is stated for an
  attempt between whose two steps the world changes arbitrarily.

  \<^bold>\<open>What the lemmas show.\<close> Ids bind their contents and encodings decode. The DAG has exactly the edges
  its rule demands, \<open>layers\<close> always returns the unique layering, whatever the map order. Chunks partition a
  layer and keep the budget. Retries, captures and attempts are bounded; a layer never gets stuck, and neither its permits
  nor its results get lost in any interleaving. What is sent carries the instructions of its intents, over the hash of the
  ER stage's plan or of the one lease, with a plan inside the oracle's bounds; nothing is sent in a dry run. A deployed run
  sends the layers in their order. Every run ends, after a bounded number of steps and without getting stuck;
  \<open>main\<close> has an outcome. Several theorems show where the code does not do what it means to: reads before writes
  are unordered, a chunk that ran at the ER is sent to the chain again, failed layers do not stop a run, fees of chunks that
  fell back are not counted, a bad router key panics the setup.

  \<^bold>\<open>Bounds and fuel.\<close> Loops are recursive functions with measures. A call of \<open>lease\<close> that
  runs alone needs at most twelve sections (\<open>lease_alone_returns\<close>), so a feed of twelve inputs is enough
  (\<open>feed_ok\<close>). A layer makes at most 32 steps for each chunk, because the configuration is cut to at most eight
  attempts; a run at most 32 for each intent, two for each layer and one more. Statements about runs that are done have the
  existence of an end beside them (\<open>layers_returns\<close>, \<open>layer_reaches_end\<close>,
  \<open>run_reaches_end\<close>). The limits of a chunk hold under every policy for lookup tables; that its estimate covers
  the message is shown with tables off.

  \<^bold>\<open>Not modelled.\<close> er/router_client.rs only delegates, pipeline/emitter.rs only prints,
  crates/adapter-api is a trait without logic, and serializer_golden prints sizes of fixed examples. In er/mod.rs the
  wiretap files, the log lines, the mock client and the decoders of an old data plane that nothing calls; in rollup_cli.rs
  the format of the key file, the layout of tables and JSON reports, and the standard deviation (a square root). Durations
  that are only reported are left out. Locks are never poisoned and memory does not run out.
\<close>

end
